(* ===== verification/Prelude.thy ===== *)
theory Prelude
  imports Main "HOL-Library.Word" "HOL-Library.Signed_Division"
begin

text \<open>
  Shared vocabulary of the development.

  Go strings and byte slices are both sequences of bytes, so both are \<open>string\<close> (an
  Isabelle \<open>char\<close> is an 8-bit value).  A Go panic (nil dereference, index out of range,
  \<open>log.Panic\<close>, ...) is a value of the type \<open>panic\<close>, and a function that may
  panic returns \<open>panic + 'a\<close> with \<open>Inl\<close> for the panic.  \<open>time.Time\<close> and
  \<open>time.Duration\<close> are integers that count nanoseconds; Go's truncating division is
  \<open>sdiv\<close>.  Three fact collections carry the automation:
  \<open>go_defs\<close> (definitions to unfold), \<open>inv_simps\<close> (invariants as rewrite rules) and
  \<open>inv_intros\<close> (preservation lemmas).
\<close>

named_theorems go_defs \<open>definitions of small helpers, to be unfolded\<close>
named_theorems inv_simps \<open>unfolding rules of the invariants\<close>
named_theorems inv_intros \<open>preservation of the invariants\<close>

type_synonym bytes = string
type_synonym time = int

datatype panic =
    NilDereference
  | IndexOutOfRange
  | SliceOutOfBounds
  | DivideByZero
  | NilMapWrite
  | LogPanic string

section \<open>Panicking computations\<close>

definition bindP :: "panic + 'a \<Rightarrow> ('a \<Rightarrow> panic + 'b) \<Rightarrow> panic + 'b" where
  "bindP m f = (case m of Inl e \<Rightarrow> Inl e | Inr x \<Rightarrow> f x)"

lemma bindP_simps [simp]:
  "bindP (Inl e) f = Inl e"
  "bindP (Inr x) f = f x"
  by (simp_all add: bindP_def)

lemma bindP_eq_Inr_iff: "bindP m f = Inr y \<longleftrightarrow> (\<exists>x. m = Inr x \<and> f x = Inr y)"
  by (cases m) simp_all

section \<open>Time\<close>

definition Millisecond :: int where
  [go_defs]: "Millisecond = 1000000"

text \<open>\<open>Duration.Milliseconds()\<close> truncates towards zero.\<close>

definition Milliseconds :: "time \<Rightarrow> int" where
  [go_defs]: "Milliseconds d = d sdiv Millisecond"

lemma sdiv_pos_eq_div: "0 \<le> a \<Longrightarrow> 0 < b \<Longrightarrow> a sdiv b = a div (b::int)"
  by (cases "a = 0") (simp_all add: signed_divide_int_def sgn_if)

lemma sdiv_nonneg: "0 \<le> a \<Longrightarrow> 0 < b \<Longrightarrow> 0 \<le> a sdiv (b::int)"
  by (simp add: sdiv_pos_eq_div pos_imp_zdiv_nonneg_iff)

lemma sdiv_neg_eq: "a < 0 \<Longrightarrow> 0 < b \<Longrightarrow> a sdiv b = - ((- a) div (b::int))"
  by (simp add: signed_divide_int_def sgn_if)

lemma sdiv_mono:
  fixes a a' b :: int
  assumes "a \<le> a'" and "0 < b"
  shows "a sdiv b \<le> a' sdiv b"
proof (cases "0 \<le> a")
  case True
  with assms show ?thesis by (simp add: sdiv_pos_eq_div zdiv_mono1)
next
  case a: False
  show ?thesis
  proof (cases "0 \<le> a'")
    case True
    have "a sdiv b \<le> 0" using a assms(2)
      by (simp add: sdiv_neg_eq pos_imp_zdiv_nonneg_iff)
    with sdiv_nonneg [OF True assms(2)] show ?thesis by simp
  next
    case False
    with a assms show ?thesis by (simp add: sdiv_neg_eq zdiv_mono1)
  qed
qed

lemma Milliseconds_mono: "d \<le> d' \<Longrightarrow> Milliseconds d \<le> Milliseconds d'"
  by (simp add: go_defs sdiv_mono)

section \<open>Lists\<close>

lemma length_1_iff: "length xs = 1 \<longleftrightarrow> (\<exists>x. xs = [x])"
  by (auto simp: length_Suc_conv)

lemma take_append_drop_twice:
  "take m xs @ take n (drop m xs) = take (m + n) xs"
  by (simp add: take_add)

text \<open>Adding a fresh element to a list of distinct keys.\<close>

lemma distinct_snoc: "distinct (xs @ [x]) \<longleftrightarrow> distinct xs \<and> x \<notin> set xs"
  by auto

lemma card_set_eq_length: "distinct xs \<Longrightarrow> card (set xs) = length xs"
  by (rule distinct_card)

lemma singleton_of_card:
  assumes "finite A" and "card A = 1" and "x \<in> A"
  shows "A = {x}"
  using assms by (auto simp: card_1_singleton_iff)

end
