(* ===== verification/Containers.thy ===== *)
theory Containers
  imports Prelude
begin

text \<open>
  The generic containers of \<open>utils/\<close>: \<open>Set\<close> (utils/set.go), \<open>Queue\<close>
  (utils/queue.go) and \<open>AtomicValue\<close> (utils/atomic.go).  Every method of the source
  holds the container's mutex from its first statement to its return, so each method is one
  atomic function on the container's state.

  A Go map used as a set is a list of distinct keys.  The order in which \<open>range\<close> visits a
  Go map is unspecified and may differ at each loop; it is a parameter \<open>ord\<close> of
  \<open>GetItems\<close>, about which only \<open>map_order ord\<close> (a permutation of the keys) is
  known.  The locale \<open>set_interface\<close> is the contract the consensus modules rely on,
  \<open>fifo\<close> the contract of the request queues and of the transaction pool.
\<close>

section \<open>Set\<close>

record 'a goset =
  set_data :: "'a list"

definition NewSet :: "'a goset" where
  "NewSet = \<lparr>set_data = []\<rparr>"

definition Add :: "'a \<Rightarrow> 'a goset \<Rightarrow> 'a goset" where
  "Add item s =
     (if item \<in> set (set_data s) then s else s\<lparr>set_data := set_data s @ [item]\<rparr>)"

definition Remove :: "'a \<Rightarrow> 'a goset \<Rightarrow> 'a goset" where
  "Remove item s = s\<lparr>set_data := removeAll item (set_data s)\<rparr>"

definition Contains :: "'a \<Rightarrow> 'a goset \<Rightarrow> bool" where
  "Contains item s \<longleftrightarrow> item \<in> set (set_data s)"

definition Size :: "'a goset \<Rightarrow> nat" where
  "Size s = length (set_data s)"

definition map_order :: "('a list \<Rightarrow> 'a list) \<Rightarrow> bool" where
  "map_order ord \<longleftrightarrow>
     (\<forall>xs. distinct xs \<longrightarrow> distinct (ord xs) \<and> set (ord xs) = set xs)"

definition GetItems :: "('a list \<Rightarrow> 'a list) \<Rightarrow> 'a goset \<Rightarrow> 'a list" where
  "GetItems ord s = ord (set_data s)"

text \<open>
  \<open>GetItemRefs\<close> returns the addresses of the loop variable.  The module is built with
  \<open>go 1.22\<close> (go.mod), where each iteration has its own variable, so the addresses are
  distinct and dereferencing them yields the visited keys.
\<close>

definition GetItemRefs :: "('a list \<Rightarrow> 'a list) \<Rightarrow> 'a goset \<Rightarrow> 'a list" where
  "GetItemRefs ord s = ord (set_data s)"

definition Union :: "('a list \<Rightarrow> 'a list) \<Rightarrow> 'a goset \<Rightarrow> 'a goset \<Rightarrow> 'a goset" where
  "Union ord s other =
     fold Add (GetItems ord other) (fold Add (GetItems ord s) NewSet)"

definition Clear :: "'a goset \<Rightarrow> 'a goset" where
  "Clear s = s\<lparr>set_data := []\<rparr>"

definition set_invar :: "'a goset \<Rightarrow> bool" where
  [inv_simps]: "set_invar s \<longleftrightarrow> distinct (set_data s)"

definition elems :: "'a goset \<Rightarrow> 'a set" where
  "elems s = set (set_data s)"

lemmas set_op_defs = NewSet_def Add_def Remove_def Contains_def Size_def Clear_def
  elems_def set_invar_def

subsection \<open>The contract of a set\<close>

locale set_interface =
  fixes empty :: 's
    and add :: "'a \<Rightarrow> 's \<Rightarrow> 's"
    and remove :: "'a \<Rightarrow> 's \<Rightarrow> 's"
    and contains :: "'a \<Rightarrow> 's \<Rightarrow> bool"
    and size :: "'s \<Rightarrow> nat"
    and abs :: "'s \<Rightarrow> 'a set"
    and invar :: "'s \<Rightarrow> bool"
  assumes abs_empty: "abs empty = {}"
    and abs_add: "invar s \<Longrightarrow> abs (add x s) = insert x (abs s)"
    and abs_remove: "invar s \<Longrightarrow> abs (remove x s) = abs s - {x}"
    and contains_iff: "invar s \<Longrightarrow> contains x s \<longleftrightarrow> x \<in> abs s"
    and size_card: "invar s \<Longrightarrow> size s = card (abs s)"
    and abs_finite: "invar s \<Longrightarrow> finite (abs s)"
    and invar_empty: "invar empty"
    and invar_add: "invar s \<Longrightarrow> invar (add x s)"
    and invar_remove: "invar s \<Longrightarrow> invar (remove x s)"
begin

lemma invar_fold_add: "invar s \<Longrightarrow> invar (fold add xs s)"
  by (induction xs arbitrary: s) (auto intro: invar_add)

lemma abs_fold_add: "invar s \<Longrightarrow> abs (fold add xs s) = abs s \<union> set xs"
  by (induction xs arbitrary: s) (auto simp: abs_add invar_add)

lemma contains_add: "invar s \<Longrightarrow> contains y (add x s) \<longleftrightarrow> y = x \<or> contains y s"
  by (simp add: contains_iff abs_add invar_add)

lemma contains_remove: "invar s \<Longrightarrow> contains y (remove x s) \<longleftrightarrow> y \<noteq> x \<and> contains y s"
  by (auto simp: contains_iff abs_remove invar_remove)

lemma size_add: "invar s \<Longrightarrow> size (add x s) = (if contains x s then size s else Suc (size s))"
  by (simp add: size_card contains_iff abs_add invar_add abs_finite insert_absorb)

lemma size_add_mono: "invar s \<Longrightarrow> size s \<le> size (add x s)"
  by (simp add: size_add)

lemma size_eq_1D: "invar s \<Longrightarrow> size s = 1 \<Longrightarrow> contains x s \<Longrightarrow> abs s = {x}"
  by (simp add: size_card contains_iff abs_finite singleton_of_card)

lemma size_fold_add: "size (fold add xs empty) = card (set xs)"
  using abs_fold_add [OF invar_empty, of xs] invar_fold_add [OF invar_empty, of xs]
  by (simp add: size_card abs_empty)

end

interpretation gs: set_interface NewSet Add Remove Contains Size elems set_invar
  by unfold_locales (auto simp: set_op_defs distinct_card distinct_removeAll)

lemma GetItems_perm:
  assumes "map_order ord" and "set_invar s"
  shows "distinct (GetItems ord s)" and "set (GetItems ord s) = elems s"
  using assms by (auto simp: map_order_def GetItems_def set_op_defs)

lemma map_order_id [simp]: "map_order (\<lambda>xs. xs)"
  by (simp add: map_order_def)

lemma map_order_rev [simp]: "map_order rev"
  by (simp add: map_order_def)

text \<open>The only way the modules index \<open>GetItems\<close>: at 0, after checking \<open>Size() == 1\<close>.\<close>

lemma map_order_singleton: "map_order ord \<Longrightarrow> ord [x] = [x]"
proof -
  assume "map_order ord"
  then have "distinct (ord [x])" and "set (ord [x]) = {x}"
    by (simp_all add: map_order_def)
  then have "length (ord [x]) = 1"
    by (metis One_nat_def card.empty card.insert distinct_card empty_iff finite.emptyI)
  with \<open>set (ord [x]) = {x}\<close> show ?thesis
    by (auto simp: length_Suc_conv)
qed

lemma GetItems_singleton:
  assumes "map_order ord" and "set_invar s" and "elems s = {x}"
  shows "GetItems ord s = [x]"
proof -
  from assms(2,3) have "set_data s = [x]"
    by (metis One_nat_def card.empty card.insert distinct_card elems_def empty_iff
        finite.emptyI length_1_iff list.set(1,2) set_invar_def the_elem_eq)
  with assms(1) show ?thesis
    by (simp add: GetItems_def map_order_singleton)
qed

section \<open>Queue\<close>

record 'a queue =
  items :: "'a list"

definition NewQueue :: "'a queue" where
  "NewQueue = \<lparr>items = []\<rparr>"

definition Enqueue :: "'a \<Rightarrow> 'a queue \<Rightarrow> 'a queue" where
  "Enqueue item q = q\<lparr>items := items q @ [item]\<rparr>"

text \<open>
  On an empty queue \<open>Dequeue\<close> returns the error "Queue is empty" at once (the loop's body
  returns), here \<open>None\<close>; it does not block.
\<close>

definition Dequeue :: "'a queue \<Rightarrow> ('a \<times> 'a queue) option" where
  "Dequeue q = (case items q of [] \<Rightarrow> None | item # rest \<Rightarrow> Some (item, q\<lparr>items := rest\<rparr>))"

definition QueueIsEmpty :: "'a queue \<Rightarrow> bool" where
  "QueueIsEmpty q \<longleftrightarrow> length (items q) = 0"

definition QueueSize :: "'a queue \<Rightarrow> nat" where
  "QueueSize q = length (items q)"

lemmas queue_defs = NewQueue_def Enqueue_def Dequeue_def QueueIsEmpty_def QueueSize_def

subsection \<open>The contract of a FIFO\<close>

datatype 'a fifo_op = Put 'a | Take

fun fifo_run :: "('a \<Rightarrow> 'q \<Rightarrow> 'q) \<Rightarrow> ('q \<Rightarrow> ('a \<times> 'q) option) \<Rightarrow> 'a fifo_op list \<Rightarrow> 'q \<Rightarrow> 'a list \<times> 'q" where
  "fifo_run put take1 [] q = ([], q)"
| "fifo_run put take1 (Put x # ops) q = fifo_run put take1 ops (put x q)"
| "fifo_run put take1 (Take # ops) q =
     (case take1 q of
        None \<Rightarrow> fifo_run put take1 ops q
      | Some (x, q') \<Rightarrow> (let (out, q'') = fifo_run put take1 ops q' in (x # out, q'')))"

fun puts :: "'a fifo_op list \<Rightarrow> 'a list" where
  "puts [] = []"
| "puts (Put x # ops) = x # puts ops"
| "puts (Take # ops) = puts ops"

locale fifo =
  fixes content :: "'q \<Rightarrow> 'a list"
    and put :: "'a \<Rightarrow> 'q \<Rightarrow> 'q"
    and take1 :: "'q \<Rightarrow> ('a \<times> 'q) option"
  assumes content_put: "content (put x q) = content q @ [x]"
    and take1_None: "content q = [] \<Longrightarrow> take1 q = None"
    and take1_Some: "content q = x # xs \<Longrightarrow> \<exists>q'. take1 q = Some (x, q') \<and> content q' = xs"
begin

lemma take1_None_iff: "take1 q = None \<longleftrightarrow> content q = []"
proof
  assume "take1 q = None"
  then show "content q = []"
    using take1_Some [of q] by (cases "content q") auto
qed (rule take1_None)

lemma take1_content: "take1 q = Some (x, q') \<Longrightarrow> content q = x # content q'"
  using take1_None [of q] take1_Some [of q] by (cases "content q") fastforce+

text \<open>Nothing is lost, duplicated or reordered by any sequence of operations.\<close>

lemma run_conserves:
  "fifo_run put take1 ops q = (out, q') \<Longrightarrow> out @ content q' = content q @ puts ops"
proof (induction ops arbitrary: q out q')
  case (Cons op ops)
  show ?case
  proof (cases op)
    case (Put x)
    with Cons show ?thesis by (fastforce simp: content_put)
  next
    case Take
    with Cons show ?thesis
      by (cases "take1 q") (auto simp: take1_content split: prod.splits)
  qed
qed simp

lemma run_order:
  "fifo_run put take1 ops q = (out, q') \<Longrightarrow> content q = [] \<Longrightarrow> \<exists>rest. puts ops = out @ rest"
  by (metis append_Nil run_conserves)

end

interpretation rq: fifo items Enqueue Dequeue
  by unfold_locales (auto simp: queue_defs)

section \<open>AtomicValue\<close>

text \<open>
  \<open>onUpdate\<close> and the condition of \<open>Set\<close> are optional function values: \<open>None\<close> is
  nil.
\<close>

record 'a atomic_value =
  av_value :: 'a
  onUpdate :: "('a \<Rightarrow> 'a \<Rightarrow> bool) option"

definition NewAtomicValue :: "'a \<Rightarrow> 'a atomic_value" where
  "NewAtomicValue initial = \<lparr>av_value = initial, onUpdate = None\<rparr>"

definition av_Get :: "'a atomic_value \<Rightarrow> 'a" where
  "av_Get s = av_value s"

definition av_Set :: "'a \<Rightarrow> ('a \<Rightarrow> bool) option \<Rightarrow> 'a atomic_value \<Rightarrow> bool \<times> 'a atomic_value" where
  "av_Set newVal cond s =
     (if (case cond of None \<Rightarrow> True | Some c \<Rightarrow> c (av_value s)) then
        (case onUpdate s of
           None \<Rightarrow> (True, s\<lparr>av_value := newVal\<rparr>)
         | Some f \<Rightarrow>
             if \<not> f (av_value s) newVal then (False, s)
             else (True, s\<lparr>av_value := newVal\<rparr>))
      else (False, s))"

text \<open>
  \<open>Update\<close> calls \<open>onUpdate\<close> after the assignment and ignores its result; with a callback
  that has no effect of its own the result is the updated value.
\<close>

definition av_Update :: "('a \<Rightarrow> 'a) \<Rightarrow> 'a atomic_value \<Rightarrow> 'a atomic_value" where
  "av_Update updater s = s\<lparr>av_value := updater (av_value s)\<rparr>"

definition SetUpdateFunc :: "('a \<Rightarrow> 'a \<Rightarrow> bool) \<Rightarrow> 'a atomic_value \<Rightarrow> 'a atomic_value" where
  "SetUpdateFunc fn s = s\<lparr>onUpdate := Some fn\<rparr>"

lemmas atomic_defs = NewAtomicValue_def av_Get_def av_Set_def av_Update_def SetUpdateFunc_def

lemma av_Set_nil: "onUpdate s = None \<Longrightarrow> av_Set v None s = (True, s\<lparr>av_value := v\<rparr>)"
  by (simp add: av_Set_def)

lemma av_Set_result:
  "av_Set v cond s = (ok, s') \<Longrightarrow> av_Get s' = (if ok then v else av_Get s) \<and> onUpdate s' = onUpdate s"
  by (auto simp: atomic_defs split: if_splits option.splits)

text \<open>
  A callback that guards an invariant of consecutive values keeps it through any
  conditional \<open>Set\<close>: the callback runs before the store and vetoes it.
\<close>

lemma av_Set_guarded:
  assumes "av_Set v cond s = (ok, s')" and "onUpdate s = Some f"
  shows "av_Get s' \<noteq> av_Get s \<Longrightarrow> ok \<and> f (av_Get s) (av_Get s')"
  using assms by (auto simp: atomic_defs split: if_splits option.splits)

section \<open>The queue as the modules use it\<close>

text \<open>
  The request queue is a FIFO: for every sequence of \<open>Enqueue\<close> and \<open>Dequeue\<close> calls, the
  requests handed out followed by those still queued are the initial ones followed by the
  enqueued ones, in order; nothing is lost, duplicated or reordered.
\<close>

theorem queue_conserves:
  "case fifo_run Enqueue Dequeue ops q of (out, q') \<Rightarrow> out @ items q' = items q @ puts ops"
  using rq.run_conserves by (auto split: prod.splits)

text \<open>
  \<open>Set\<close> of an atomic value is a guarded store: it reports success exactly when the condition
  (nil counts as true) and the update callback (nil counts as accepting) both agree, stores the
  new value on success and leaves the value alone on failure.
\<close>

theorem atomic_Set_spec:
  "av_Set v cond s =
     (let ok = (case cond of None \<Rightarrow> True | Some c \<Rightarrow> c (av_Get s)) \<and>
               (case onUpdate s of None \<Rightarrow> True | Some f \<Rightarrow> f (av_Get s) v)
      in (ok, if ok then s\<lparr>av_value := v\<rparr> else s))"
  by (simp add: atomic_defs split: option.split)

end
