(* ===== verification/Structs.thy ===== *)
theory Structs
  imports Containers
begin

text \<open>
  The ledger data of \<open>structs/\<close>: the three transaction types behind the interface
  \<open>Transaction\<close>, block headers and blocks, the account and contract states behind the
  interface \<open>State\<close>.

  \<open>*big.Int\<close> values are shared and mutated in place by the source, so they live in an
  explicit store: a \<open>bigptr\<close> is an address, \<open>bigheap\<close> maps addresses to integers and
  a nil pointer is \<open>None\<close>.  Times count nanoseconds from Go's zero time, so \<open>IsZero\<close>
  is \<open>= 0\<close>.  \<open>sha256\<close> and the gob encoders are arguments of the constructors that
  use them.
\<close>

type_synonym Address = string
type_synonym bigptr = nat
type_synonym bigheap = "bigptr \<rightharpoonup> int"

definition IsZero :: "time \<Rightarrow> bool" where
  [go_defs]: "IsZero t \<longleftrightarrow> t = 0"

section \<open>Transactions\<close>

record tx_in =
  PrevTxId :: bytes
  in_Value :: "int \<times> int"  \<comment> \<open>big.Float: mantissa and binary exponent\<close>
  in_Index :: int
  in_Addr :: Address

record tx_out =
  out_Value :: "int \<times> int"
  out_Addr :: Address

record utxo_transaction =
  TxId :: bytes
  Vin :: "tx_in list"
  Vout :: "tx_out list"
  u_Nonce :: int
  u_IsCoinbase :: bool
  u_Time :: time

record account_transaction =
  a_Sender :: Address
  a_Recipient :: Address
  a_Nounce :: int
  a_Value :: "bigptr option"
  a_TxHash :: bytes
  a_Time :: time
  Relayed :: bool
  OriginalSender :: Address
  FinalRecipient :: Address
  Siganature :: bytes

record contract_transaction =
  c_Sender :: Address
  c_Recipient :: Address
  c_Nounce :: int
  c_TxHash :: bytes
  c_Time :: time
  Code :: bytes
  RelatedContract :: "Address list"
  c_IsCrossShard :: bool

datatype transaction =
    UTXOTransaction utxo_transaction
  | AccountTransaction account_transaction
  | ContractTransaction contract_transaction

definition UTXOTransactionType :: string where
  "UTXOTransactionType = ''UTXO''"

definition AccountTransactionType :: string where
  "AccountTransactionType = ''Account''"

definition ETHLikeContractTransactionType :: string where
  "ETHLikeContractTransactionType = ''ETHLikeContract''"

text \<open>The methods of the three types, then the interface that dispatches to them.\<close>

definition utxo_Type :: "utxo_transaction \<Rightarrow> string" where
  [simp]: "utxo_Type tx = UTXOTransactionType"

definition account_Type :: "account_transaction \<Rightarrow> string" where
  [simp]: "account_Type tx = AccountTransactionType"

definition contract_Type :: "contract_transaction \<Rightarrow> string" where
  [simp]: "contract_Type tx = ETHLikeContractTransactionType"

definition utxo_ID :: "utxo_transaction \<Rightarrow> bytes" where
  [simp]: "utxo_ID tx = TxId tx"

definition account_ID :: "account_transaction \<Rightarrow> bytes" where
  [simp]: "account_ID tx = a_TxHash tx"

definition contract_ID :: "contract_transaction \<Rightarrow> bytes" where
  [simp]: "contract_ID tx = c_TxHash tx"

definition utxo_From :: "utxo_transaction \<Rightarrow> Address list" where
  [simp]: "utxo_From tx = map in_Addr (Vin tx)"

definition account_From :: "account_transaction \<Rightarrow> Address list" where
  [simp]: "account_From tx = [a_Sender tx]"

definition contract_From :: "contract_transaction \<Rightarrow> Address list" where
  [simp]: "contract_From tx = [c_Sender tx]"

definition utxo_To :: "utxo_transaction \<Rightarrow> Address list" where
  [simp]: "utxo_To tx = map out_Addr (Vout tx)"

definition account_To :: "account_transaction \<Rightarrow> Address list" where
  [simp]: "account_To tx = [a_Recipient tx]"

definition contract_To :: "contract_transaction \<Rightarrow> Address list" where
  [simp]: "contract_To tx = [c_Recipient tx]"

definition utxo_GetTime :: "utxo_transaction \<Rightarrow> time" where
  [simp]: "utxo_GetTime tx = u_Time tx"

definition account_GetTime :: "account_transaction \<Rightarrow> time" where
  [simp]: "account_GetTime tx = a_Time tx"

definition contract_GetTime :: "contract_transaction \<Rightarrow> time" where
  [simp]: "contract_GetTime tx = c_Time tx"

definition utxo_IsCoinBase :: "utxo_transaction \<Rightarrow> bool" where
  [simp]: "utxo_IsCoinBase tx = u_IsCoinbase tx"

definition account_IsCoinBase :: "account_transaction \<Rightarrow> bool" where
  [simp]: "account_IsCoinBase tx = False"

definition contract_IsCoinBase :: "contract_transaction \<Rightarrow> bool" where
  [simp]: "contract_IsCoinBase tx = False"

definition utxo_GetNonce :: "utxo_transaction \<Rightarrow> int" where
  [simp]: "utxo_GetNonce tx = u_Nonce tx"

definition account_GetNonce :: "account_transaction \<Rightarrow> int" where
  [simp]: "account_GetNonce tx = a_Nounce tx"

definition contract_GetNonce :: "contract_transaction \<Rightarrow> int" where
  [simp]: "contract_GetNonce tx = c_Nounce tx"

definition utxo_Hash :: "(bytes \<Rightarrow> bytes) \<Rightarrow> (utxo_transaction \<Rightarrow> bytes) \<Rightarrow> utxo_transaction \<Rightarrow> bytes" where
  [simp]: "utxo_Hash sha256 gob tx = sha256 (gob tx)"

definition account_Hash :: "account_transaction \<Rightarrow> bytes" where
  [simp]: "account_Hash tx = a_TxHash tx"

definition contract_Hash :: "contract_transaction \<Rightarrow> bytes" where
  [simp]: "contract_Hash tx = c_TxHash tx"

definition utxo_SetTime :: "time \<Rightarrow> utxo_transaction \<Rightarrow> utxo_transaction" where
  [simp]: "utxo_SetTime t tx = tx\<lparr>u_Time := t\<rparr>"

definition account_SetTime :: "time \<Rightarrow> account_transaction \<Rightarrow> account_transaction" where
  [simp]: "account_SetTime t tx = tx\<lparr>a_Time := t\<rparr>"

definition contract_SetTime :: "time \<Rightarrow> contract_transaction \<Rightarrow> contract_transaction" where
  [simp]: "contract_SetTime t tx = tx\<lparr>c_Time := t\<rparr>"

fun TxType :: "transaction \<Rightarrow> string" where
  "TxType (UTXOTransaction tx) = utxo_Type tx"
| "TxType (AccountTransaction tx) = account_Type tx"
| "TxType (ContractTransaction tx) = contract_Type tx"

fun ID :: "transaction \<Rightarrow> bytes" where
  "ID (UTXOTransaction tx) = utxo_ID tx"
| "ID (AccountTransaction tx) = account_ID tx"
| "ID (ContractTransaction tx) = contract_ID tx"

fun From :: "transaction \<Rightarrow> Address list" where
  "From (UTXOTransaction tx) = utxo_From tx"
| "From (AccountTransaction tx) = account_From tx"
| "From (ContractTransaction tx) = contract_From tx"

fun To :: "transaction \<Rightarrow> Address list" where
  "To (UTXOTransaction tx) = utxo_To tx"
| "To (AccountTransaction tx) = account_To tx"
| "To (ContractTransaction tx) = contract_To tx"

fun GetTime :: "transaction \<Rightarrow> time" where
  "GetTime (UTXOTransaction tx) = utxo_GetTime tx"
| "GetTime (AccountTransaction tx) = account_GetTime tx"
| "GetTime (ContractTransaction tx) = contract_GetTime tx"

text \<open>
  A UTXO transaction hashes its current contents (\<open>utils.Hash(tx)\<close>); the other two
  return the hash stored by their constructor.
\<close>

fun TxHashOf :: "(bytes \<Rightarrow> bytes) \<Rightarrow> (utxo_transaction \<Rightarrow> bytes) \<Rightarrow> transaction \<Rightarrow> bytes" where
  "TxHashOf sha256 gob (UTXOTransaction tx) = utxo_Hash sha256 gob tx"
| "TxHashOf sha256 gob (AccountTransaction tx) = account_Hash tx"
| "TxHashOf sha256 gob (ContractTransaction tx) = contract_Hash tx"

fun IsCoinBase :: "transaction \<Rightarrow> bool" where
  "IsCoinBase (UTXOTransaction tx) = utxo_IsCoinBase tx"
| "IsCoinBase (AccountTransaction tx) = account_IsCoinBase tx"
| "IsCoinBase (ContractTransaction tx) = contract_IsCoinBase tx"

fun GetNonce :: "transaction \<Rightarrow> int" where
  "GetNonce (UTXOTransaction tx) = utxo_GetNonce tx"
| "GetNonce (AccountTransaction tx) = account_GetNonce tx"
| "GetNonce (ContractTransaction tx) = contract_GetNonce tx"

fun SetTime :: "time \<Rightarrow> transaction \<Rightarrow> transaction" where
  "SetTime t (UTXOTransaction tx) = UTXOTransaction (utxo_SetTime t tx)"
| "SetTime t (AccountTransaction tx) = AccountTransaction (account_SetTime t tx)"
| "SetTime t (ContractTransaction tx) = ContractTransaction (contract_SetTime t tx)"

text \<open>
  The constructors set \<open>TxHash\<close> to \<open>utils.Hash(utils.Encode(tx))\<close>: \<open>Hash\<close> encodes
  its argument again, so the digest is taken of the gob encoding of the encoded bytes.
\<close>

definition NewAccountTransaction ::
  "(bytes \<Rightarrow> bytes) \<Rightarrow> (bytes \<Rightarrow> bytes) \<Rightarrow> (account_transaction \<Rightarrow> bytes) \<Rightarrow> time \<Rightarrow>
   Address \<Rightarrow> Address \<Rightarrow> int \<Rightarrow> bigptr option \<Rightarrow> account_transaction" where
  "NewAccountTransaction sha256 gob_bytes gob now sender recipient nounce value =
     (let tx = \<lparr>a_Sender = sender, a_Recipient = recipient, a_Nounce = nounce,
                a_Value = value, a_TxHash = [], a_Time = now, Relayed = False,
                OriginalSender = [], FinalRecipient = [], Siganature = []\<rparr>
      in tx\<lparr>a_TxHash := sha256 (gob_bytes (gob tx))\<rparr>)"

definition NewAcconutCoinbase ::
  "(bytes \<Rightarrow> bytes) \<Rightarrow> (bytes \<Rightarrow> bytes) \<Rightarrow> (account_transaction \<Rightarrow> bytes) \<Rightarrow> time \<Rightarrow>
   Address \<Rightarrow> bigptr option \<Rightarrow> account_transaction" where
  "NewAcconutCoinbase sha256 gob_bytes gob now recipient value =
     NewAccountTransaction sha256 gob_bytes gob now [] recipient 0 value"

definition NewContractTransaction ::
  "(bytes \<Rightarrow> bytes) \<Rightarrow> (bytes \<Rightarrow> bytes) \<Rightarrow> (contract_transaction \<Rightarrow> bytes) \<Rightarrow>
   Address \<Rightarrow> Address \<Rightarrow> int \<Rightarrow> time \<Rightarrow> bytes \<Rightarrow> Address list \<Rightarrow> bool \<Rightarrow> contract_transaction" where
  "NewContractTransaction sha256 gob_bytes gob sender recipient nounce t code relatedContract isCrossShard =
     (let tx = \<lparr>c_Sender = sender, c_Recipient = recipient, c_Nounce = nounce,
                c_TxHash = [], c_Time = t, Code = code,
                RelatedContract = relatedContract, c_IsCrossShard = isCrossShard\<rparr>
      in tx\<lparr>c_TxHash := sha256 (gob_bytes (gob tx))\<rparr>)"

lemma SetTime_frame [simp]:
  "GetTime (SetTime t tx) = t"
  "ID (SetTime t tx) = ID tx"
  "From (SetTime t tx) = From tx"
  "To (SetTime t tx) = To tx"
  "TxType (SetTime t tx) = TxType tx"
  "GetNonce (SetTime t tx) = GetNonce tx"
  "IsCoinBase (SetTime t tx) = IsCoinBase tx"
  by (cases tx; simp)+

lemma TxType_cases:
  "TxType tx = UTXOTransactionType \<longleftrightarrow> (\<exists>u. tx = UTXOTransaction u)"
  "TxType tx = AccountTransactionType \<longleftrightarrow> (\<exists>a. tx = AccountTransaction a)"
  "TxType tx = ETHLikeContractTransactionType \<longleftrightarrow> (\<exists>c. tx = ContractTransaction c)"
  by (cases tx; simp add: UTXOTransactionType_def AccountTransactionType_def
      ETHLikeContractTransactionType_def)+

section \<open>Blocks\<close>

record block_header =
  PrevBlockHash :: bytes
  Height :: int
  bh_Nonce :: int
  TimeStamp :: time
  TxRoot :: bytes
  Miner :: int
  StateRoot :: bytes

record block =
  Header :: block_header
  Transactions :: "transaction list"
  b_Hash :: bytes

definition HeaderHash :: "(bytes \<Rightarrow> bytes) \<Rightarrow> (block_header \<Rightarrow> bytes) \<Rightarrow> block_header \<Rightarrow> bytes" where
  "HeaderHash sha256 gob bh = sha256 (gob bh)"

definition NewBlock :: "(bytes \<Rightarrow> bytes) \<Rightarrow> (block_header \<Rightarrow> bytes) \<Rightarrow> block_header \<Rightarrow> transaction list \<Rightarrow> block" where
  "NewBlock sha256 gob header txs =
     \<lparr>Header = header, Transactions = txs, b_Hash = HeaderHash sha256 gob header\<rparr>"

section \<open>Account and contract states\<close>

record account_state =
  AcAddress :: Address
  as_Nonce :: int
  Balance :: "bigptr option"
  DirtyBalance :: "bigptr option"

type_synonym address_balances = "Address \<times> int \<times> int option \<times> int option"

text \<open>Reading through a possibly nil pointer.\<close>

definition deref :: "bigheap \<Rightarrow> bigptr option \<Rightarrow> panic + int" where
  "deref h p = (case p of None \<Rightarrow> Inl NilDereference
                | Some a \<Rightarrow> (case h a of None \<Rightarrow> Inl NilDereference | Some v \<Rightarrow> Inr v))"

text \<open>\<open>z.Add(x, y)\<close> and \<open>z.Sub(x, y)\<close> write the result into \<open>z\<close>'s own cell.\<close>

definition big_set :: "bigheap \<Rightarrow> bigptr option \<Rightarrow> int \<Rightarrow> panic + bigheap" where
  "big_set h z v = (case z of None \<Rightarrow> Inl NilDereference | Some a \<Rightarrow> Inr (h(a \<mapsto> v)))"

definition Deposit :: "bigheap \<Rightarrow> bigptr option \<Rightarrow> account_state \<Rightarrow> panic + bigheap" where
  "Deposit h amount as =
     bindP (deref h (DirtyBalance as)) (\<lambda>x.
     bindP (deref h amount) (\<lambda>y.
     big_set h (Balance as) (x + y)))"

definition Deduct :: "bigheap \<Rightarrow> bigptr option \<Rightarrow> account_state \<Rightarrow> panic + (bool \<times> bigheap)" where
  "Deduct h amount as =
     bindP (deref h (DirtyBalance as)) (\<lambda>x.
     bindP (deref h amount) (\<lambda>y.
     if x < y then Inr (False, h)
     else bindP (big_set h (DirtyBalance as) (x - y)) (\<lambda>h'. Inr (True, h'))))"

definition as_Update :: "transaction \<Rightarrow> account_state \<Rightarrow> bool" where
  "as_Update tx as = True"

definition as_GetAddress :: "account_state \<Rightarrow> Address" where
  "as_GetAddress as = AcAddress as"

definition as_GetNonce :: "account_state \<Rightarrow> int" where
  "as_GetNonce as = as_Nonce as"

definition as_GetBalance :: "account_state \<Rightarrow> bigptr option" where
  "as_GetBalance as = Balance as"

text \<open>The hash is over the encoded pointers' values, balance and dirty balance alike.\<close>

definition as_Hash :: "(bytes \<Rightarrow> bytes) \<Rightarrow> (address_balances \<Rightarrow> bytes) \<Rightarrow> bigheap \<Rightarrow> account_state \<Rightarrow> bytes" where
  "as_Hash sha256 gob h as =
     sha256 (gob (AcAddress as, as_Nonce as, Option.bind (Balance as) h, Option.bind (DirtyBalance as) h))"

definition as_GetKey :: "account_state \<Rightarrow> bytes" where
  "as_GetKey as = AcAddress as"

definition as_Rollback :: "account_state \<Rightarrow> account_state" where
  "as_Rollback as = as\<lparr>DirtyBalance := Balance as\<rparr>"

definition as_Commit :: "account_state \<Rightarrow> account_state" where
  "as_Commit as = as\<lparr>Balance := DirtyBalance as\<rparr>"

text \<open>The variables of a contract are Go maps, which are references.\<close>

record contract_state =
  cs_Addr :: Address
  relatedContract :: "Address list"
  cs_IsCrossShard :: bool
  Variables :: "nat option"
  BackupVariablesmap :: "nat option"

definition cs_GetKey :: "contract_state \<Rightarrow> bytes" where
  "cs_GetKey cs = cs_Addr cs"

text \<open>\<open>Update\<close> only sleeps for a random time.\<close>

definition cs_Update :: "transaction \<Rightarrow> contract_state \<Rightarrow> bool" where
  "cs_Update tx cs = True"

definition cs_Commit :: "contract_state \<Rightarrow> contract_state" where
  "cs_Commit cs = cs\<lparr>BackupVariablesmap := Variables cs\<rparr>"

definition cs_Rollback :: "contract_state \<Rightarrow> contract_state" where
  "cs_Rollback cs = cs\<lparr>Variables := BackupVariablesmap cs\<rparr>"

lemmas account_defs = deref_def big_set_def Deposit_def Deduct_def as_Rollback_def as_Commit_def

lemma Deposit_ok:
  assumes "DirtyBalance as = Some d" and "h d = Some x" and "h a = Some y"
    and "Balance as = Some b"
  shows "Deposit h (Some a) as = Inr (h(b \<mapsto> x + y))"
  using assms by (simp add: account_defs)

lemma Deduct_ok:
  assumes "DirtyBalance as = Some d" and "h d = Some x" and "h a = Some y"
  shows "Deduct h (Some a) as =
     (if x < y then Inr (False, h) else Inr (True, h(d \<mapsto> x - y)))"
  using assms by (simp add: account_defs)

lemma nil_dirty_panics:
  assumes "DirtyBalance as = None"
  shows "Deposit h amount as = Inl NilDereference" and "Deduct h amount as = Inl NilDereference"
  using assms by (simp_all add: account_defs)

text \<open>The invariant of one operation: a deduction never drives a balance below zero.\<close>

lemma Deduct_nonneg:
  assumes "Deduct h (Some a) as = Inr (ok, h')" and "DirtyBalance as = Some d"
    and "h d = Some x" and "0 \<le> x"
  shows "\<exists>x'. h' d = Some x' \<and> 0 \<le> x'"
  using assms by (auto simp: account_defs split: option.splits if_splits)

end
