(* ===== verification/TxPool.thy ===== *)
theory TxPool
  imports Structs
begin

text \<open>
  The transaction pool (structs/txpool.go).  Every method runs under the pool's mutex and is
  one atomic function.  A nil result slice is \<open>None\<close>, which the callers distinguish from an
  empty slice; slicing with a negative bound panics.  The locale \<open>batch_source\<close> is what
  the proposers rely on: each call removes exactly the prefix it returns.
\<close>

record tx_pool =
  Txs :: "transaction list"
  batchSize :: int

definition NewTxPool :: "int \<Rightarrow> tx_pool" where
  "NewTxPool n = \<lparr>Txs = [], batchSize = n\<rparr>"

definition stamp :: "time \<Rightarrow> transaction \<Rightarrow> transaction" where
  "stamp now tx = (if IsZero (GetTime tx) then SetTime now tx else tx)"

definition AddTx :: "time \<Rightarrow> transaction \<Rightarrow> tx_pool \<Rightarrow> tx_pool" where
  "AddTx now tx p = p\<lparr>Txs := Txs p @ [stamp now tx]\<rparr>"

text \<open>\<open>now i\<close> is the clock when the \<open>i\<close>-th transaction is stamped.\<close>

fun AddTxs :: "(nat \<Rightarrow> time) \<Rightarrow> transaction list \<Rightarrow> tx_pool \<Rightarrow> tx_pool" where
  "AddTxs now [] p = p"
| "AddTxs now (tx # txs) p = AddTxs (\<lambda>i. now (Suc i)) txs (AddTx (now 0) tx p)"

text \<open>\<open>xs[:n]\<close> and \<open>xs[n:]\<close> for \<open>n\<close> at most the length.\<close>

definition split_at :: "int \<Rightarrow> tx_pool \<Rightarrow> panic + (transaction list \<times> tx_pool)" where
  "split_at n p =
     (if n < 0 then Inl SliceOutOfBounds
      else Inr (take (nat n) (Txs p), p\<lparr>Txs := drop (nat n) (Txs p)\<rparr>))"

definition GetTxs :: "int \<Rightarrow> tx_pool \<Rightarrow> panic + (transaction list \<times> tx_pool)" where
  "GetTxs count p =
     (let count = (if count > int (length (Txs p)) then int (length (Txs p)) else count)
      in split_at count p)"

definition GetEnoughTxs :: "int \<Rightarrow> int \<Rightarrow> tx_pool \<Rightarrow> panic + (transaction list option \<times> tx_pool)" where
  "GetEnoughTxs mincount maxcount p =
     (if int (length (Txs p)) < mincount then Inr (None, p)
      else
        let maxcount = (if maxcount > int (length (Txs p)) then int (length (Txs p)) else maxcount)
        in bindP (split_at maxcount p) (\<lambda>(txs, p'). Inr (Some txs, p')))"

definition GetBatchofTxs :: "tx_pool \<Rightarrow> panic + (transaction list option \<times> tx_pool)" where
  "GetBatchofTxs p =
     (if int (length (Txs p)) < batchSize p then Inr (None, p)
      else bindP (split_at (batchSize p) p) (\<lambda>(txs, p'). Inr (Some txs, p')))"

definition PoolSize :: "tx_pool \<Rightarrow> nat" where
  "PoolSize p = length (Txs p)"

lemmas pool_defs = AddTx_def split_at_def GetTxs_def GetEnoughTxs_def GetBatchofTxs_def

lemma GetTime_stamp: "now \<noteq> 0 \<Longrightarrow> GetTime (stamp now tx) \<noteq> 0"
  by (simp add: stamp_def go_defs)

lemma Txs_AddTxs:
  "\<exists>stamped. Txs (AddTxs now txs p) = Txs p @ stamped \<and> map ID stamped = map ID txs"
proof (induction txs arbitrary: now p)
  case (Cons tx txs)
  from Cons.IH [of "\<lambda>i. now (Suc i)" "AddTx (now 0) tx p"] show ?case
    by (auto simp: AddTx_def stamp_def)
qed simp

lemma AddTxs_batchSize [simp]: "batchSize (AddTxs now txs p) = batchSize p"
  by (induction txs arbitrary: now p) (auto simp: AddTx_def)

section \<open>Batches taken from a source\<close>

fun get_run :: "('g \<Rightarrow> 'q \<Rightarrow> ('a list \<times> 'q) option) \<Rightarrow> 'g list \<Rightarrow> 'q \<Rightarrow> 'a list list \<times> 'q" where
  "get_run get [] q = ([], q)"
| "get_run get (g # gs) q =
     (case get g q of
        None \<Rightarrow> get_run get gs q
      | Some (b, q') \<Rightarrow> (let (bs, q'') = get_run get gs q' in (b # bs, q'')))"

locale batch_source =
  fixes content :: "'q \<Rightarrow> 'a list"
    and get :: "'g \<Rightarrow> 'q \<Rightarrow> ('a list \<times> 'q) option"
  assumes get_split: "get g q = Some (b, q') \<Longrightarrow> content q = b @ content q'"
begin

lemma run_split: "get_run get gs q = (bs, q') \<Longrightarrow> content q = concat bs @ content q'"
proof (induction gs arbitrary: q bs q')
  case (Cons g gs)
  then show ?case
    by (cases "get g q") (auto dest: get_split split: prod.splits)
qed simp

lemma run_no_duplicates:
  assumes "get_run get gs q = (bs, q')" and "distinct (content q)"
  shows "distinct (concat bs)" and "set (concat bs) \<inter> set (content q') = {}"
  using run_split [OF assms(1)] assms(2) by auto

end

text \<open>The three ways the pool is read, with the no-result and the panic case as \<open>None\<close>.\<close>

fun pool_get :: "(int + int \<times> int) option \<Rightarrow> tx_pool \<Rightarrow> (transaction list \<times> tx_pool) option" where
  "pool_get (Some (Inl n)) p = (case GetTxs n p of Inl e \<Rightarrow> None | Inr r \<Rightarrow> Some r)"
| "pool_get (Some (Inr (lo, hi))) p =
     (case GetEnoughTxs lo hi p of Inr (Some b, p') \<Rightarrow> Some (b, p') | _ \<Rightarrow> None)"
| "pool_get None p = (case GetBatchofTxs p of Inr (Some b, p') \<Rightarrow> Some (b, p') | _ \<Rightarrow> None)"

lemma split_at_content: "split_at n p = Inr (b, p') \<Longrightarrow> Txs p = b @ Txs p'"
  by (auto simp: split_at_def split: if_splits)

lemma pool_get_split: "pool_get g p = Some (b, p') \<Longrightarrow> Txs p = b @ Txs p'"
  by (cases g rule: pool_get.cases[of "(g, p)" for g, simplified])
     (auto simp: GetTxs_def GetEnoughTxs_def GetBatchofTxs_def bindP_eq_Inr_iff Let_def
        dest: split_at_content split: sum.splits if_splits option.splits)

interpretation pool: batch_source Txs pool_get
  by unfold_locales (rule pool_get_split)

text \<open>
  Whatever mix of \<open>GetTxs\<close>, \<open>GetEnoughTxs\<close> and \<open>GetBatchofTxs\<close> calls empties the
  pool, the concatenation of the returned batches followed by what is left is the pool as it
  was: no transaction is lost, duplicated or reordered.
\<close>

theorem pool_conserves:
  "case get_run pool_get gs p of (bs, p') \<Rightarrow> Txs p = concat bs @ Txs p'"
  using pool.run_split by (auto split: prod.splits)

lemma GetEnoughTxs_eq:
  assumes "0 \<le> lo" and "lo \<le> hi"
  shows "GetEnoughTxs lo hi p =
     (if int (PoolSize p) < lo then Inr (None, p)
      else Inr (Some (take (nat hi) (Txs p)), p\<lparr>Txs := drop (nat hi) (Txs p)\<rparr>))"
  using assms by (auto simp: pool_defs PoolSize_def split: if_splits)

text \<open>
  \<open>GetEnoughTxs lo hi\<close> returns nil and leaves the pool alone exactly when fewer than
  \<open>lo\<close> transactions wait; otherwise it returns the first \<open>min hi n\<close> of them, so a batch
  that the block proposer gets has between \<open>lo\<close> and \<open>hi\<close> transactions.
\<close>

theorem GetEnoughTxs_bounds:
  assumes "0 \<le> lo" and "lo \<le> hi"
  shows "GetEnoughTxs lo hi p =
     (if int (PoolSize p) < lo then Inr (None, p)
      else Inr (Some (take (nat hi) (Txs p)), p\<lparr>Txs := drop (nat hi) (Txs p)\<rparr>)) \<and>
    (\<forall>b p'. GetEnoughTxs lo hi p = Inr (Some b, p') \<longrightarrow> lo \<le> int (length b) \<and> int (length b) \<le> hi)"
  using assms by (auto simp: GetEnoughTxs_eq [OF assms] PoolSize_def split: if_splits)

definition pool_tx :: "string \<Rightarrow> transaction" where
  "pool_tx h = ContractTransaction
     \<lparr>c_Sender = [], c_Recipient = [], c_Nounce = 0, c_TxHash = h, c_Time = 1, Code = [],
      RelatedContract = [], c_IsCrossShard = False\<rparr>"

theorem GetEnoughTxs_bounds_witness:
  "GetEnoughTxs 2 2 (AddTxs (\<lambda>_. 5) [pool_tx ''a'', pool_tx ''b'', pool_tx ''c''] (NewTxPool 3)) =
     Inr (Some [pool_tx ''a'', pool_tx ''b''], \<lparr>Txs = [pool_tx ''c''], batchSize = 3\<rparr>)"
  using GetEnoughTxs_bounds [of 2 2 "AddTxs (\<lambda>_. 5) [pool_tx ''a'', pool_tx ''b'', pool_tx ''c''] (NewTxPool 3)"]
  by (simp add: PoolSize_def NewTxPool_def AddTx_def stamp_def pool_tx_def IsZero_def numeral_2_eq_2)

end
