(* ===== verification/Galois.thy ===== *)
theory Galois
  imports Prelude
begin

text \<open>
  Arithmetic in the field of 256 elements (addon/coding/GaloisField.go): the logarithm and
  exponential tables and the table-driven \<open>Add\<close>, \<open>Subtract\<close>, \<open>Multiply\<close>,
  \<open>Divide\<close> and \<open>Exp\<close>.  The reference is independent of the tables: \<open>xtime\<close> multiplies
  a polynomial over the two-element field by its indeterminate modulo the polynomial
  with the bits 100011101, and \<open>gf_mul\<close> is schoolbook multiplication built from it.  Table
  accesses go through \<open>index\<close>, which panics out of range as Go does.
\<close>

unbundle bit_operations_syntax

type_synonym byte = "8 word"

definition index :: "'a list \<Rightarrow> int \<Rightarrow> panic + 'a" where
  "index xs i = (if 0 \<le> i \<and> i < int (length xs) then Inr (xs ! nat i) else Inl IndexOutOfRange)"

section \<open>The tables and the operations\<close>

definition FIELDSIZE :: int where
  "FIELDSIZE = 256"

definition LOGTABLE :: "int list" where
  "LOGTABLE =
    [- 1, 0, 1, 25, 2, 50, 26, 198, 3, 223, 51, 238, 27, 104, 199, 75,
     4, 100, 224, 14, 52, 141, 239, 129, 28, 193, 105, 248, 200, 8, 76, 113,
     5, 138, 101, 47, 225, 36, 15, 33, 53, 147, 142, 218, 240, 18, 130, 69,
     29, 181, 194, 125, 106, 39, 249, 185, 201, 154, 9, 120, 77, 228, 114, 166,
     6, 191, 139, 98, 102, 221, 48, 253, 226, 152, 37, 179, 16, 145, 34, 136,
     54, 208, 148, 206, 143, 150, 219, 189, 241, 210, 19, 92, 131, 56, 70, 64,
     30, 66, 182, 163, 195, 72, 126, 110, 107, 58, 40, 84, 250, 133, 186, 61,
     202, 94, 155, 159, 10, 21, 121, 43, 78, 212, 229, 172, 115, 243, 167, 87,
     7, 112, 192, 247, 140, 128, 99, 13, 103, 74, 222, 237, 49, 197, 254, 24,
     227, 165, 153, 119, 38, 184, 180, 124, 17, 68, 146, 217, 35, 32, 137, 46,
     55, 63, 209, 91, 149, 188, 207, 205, 144, 135, 151, 178, 220, 252, 190, 97,
     242, 86, 211, 171, 20, 42, 93, 158, 132, 60, 57, 83, 71, 109, 65, 162,
     31, 45, 67, 216, 183, 123, 164, 118, 196, 23, 73, 236, 127, 12, 111, 246,
     108, 161, 59, 82, 41, 157, 85, 170, 251, 96, 134, 177, 187, 204, 62, 90,
     203, 89, 95, 176, 156, 169, 160, 81, 11, 245, 22, 235, 122, 117, 44, 215,
     79, 174, 213, 233, 230, 231, 173, 232, 116, 214, 244, 234, 168, 80, 88, 175]"

definition EXPTABLE :: "byte list" where
  "EXPTABLE =
    [1, 2, 4, 8, 16, 32, 64, 128, 29, 58, 116, 232, 205, 135, 19, 38,
     76, 152, 45, 90, 180, 117, 234, 201, 143, 3, 6, 12, 24, 48, 96, 192,
     157, 39, 78, 156, 37, 74, 148, 53, 106, 212, 181, 119, 238, 193, 159, 35,
     70, 140, 5, 10, 20, 40, 80, 160, 93, 186, 105, 210, 185, 111, 222, 161,
     95, 190, 97, 194, 153, 47, 94, 188, 101, 202, 137, 15, 30, 60, 120, 240,
     253, 231, 211, 187, 107, 214, 177, 127, 254, 225, 223, 163, 91, 182, 113, 226,
     217, 175, 67, 134, 17, 34, 68, 136, 13, 26, 52, 104, 208, 189, 103, 206,
     129, 31, 62, 124, 248, 237, 199, 147, 59, 118, 236, 197, 151, 51, 102, 204,
     133, 23, 46, 92, 184, 109, 218, 169, 79, 158, 33, 66, 132, 21, 42, 84,
     168, 77, 154, 41, 82, 164, 85, 170, 73, 146, 57, 114, 228, 213, 183, 115,
     230, 209, 191, 99, 198, 145, 63, 126, 252, 229, 215, 179, 123, 246, 241, 255,
     227, 219, 171, 75, 150, 49, 98, 196, 149, 55, 110, 220, 165, 87, 174, 65,
     130, 25, 50, 100, 200, 141, 7, 14, 28, 56, 112, 224, 221, 167, 83, 166,
     81, 162, 89, 178, 121, 242, 249, 239, 195, 155, 43, 86, 172, 69, 138, 9,
     18, 36, 72, 144, 61, 122, 244, 245, 247, 243, 251, 235, 203, 139, 11, 22,
     44, 88, 176, 125, 250, 233, 207, 131, 27, 54, 108, 216, 173, 71, 142, 1,
     2, 4, 8, 16, 32, 64, 128, 29, 58, 116, 232, 205, 135, 19, 38, 76,
     152, 45, 90, 180, 117, 234, 201, 143, 3, 6, 12, 24, 48, 96, 192, 157,
     39, 78, 156, 37, 74, 148, 53, 106, 212, 181, 119, 238, 193, 159, 35, 70,
     140, 5, 10, 20, 40, 80, 160, 93, 186, 105, 210, 185, 111, 222, 161, 95,
     190, 97, 194, 153, 47, 94, 188, 101, 202, 137, 15, 30, 60, 120, 240, 253,
     231, 211, 187, 107, 214, 177, 127, 254, 225, 223, 163, 91, 182, 113, 226, 217,
     175, 67, 134, 17, 34, 68, 136, 13, 26, 52, 104, 208, 189, 103, 206, 129,
     31, 62, 124, 248, 237, 199, 147, 59, 118, 236, 197, 151, 51, 102, 204, 133,
     23, 46, 92, 184, 109, 218, 169, 79, 158, 33, 66, 132, 21, 42, 84, 168,
     77, 154, 41, 82, 164, 85, 170, 73, 146, 57, 114, 228, 213, 183, 115, 230,
     209, 191, 99, 198, 145, 63, 126, 252, 229, 215, 179, 123, 246, 241, 255, 227,
     219, 171, 75, 150, 49, 98, 196, 149, 55, 110, 220, 165, 87, 174, 65, 130,
     25, 50, 100, 200, 141, 7, 14, 28, 56, 112, 224, 221, 167, 83, 166, 81,
     162, 89, 178, 121, 242, 249, 239, 195, 155, 43, 86, 172, 69, 138, 9, 18,
     36, 72, 144, 61, 122, 244, 245, 247, 243, 251, 235, 203, 139, 11, 22, 44,
     88, 176, 125, 250, 233, 207, 131, 27, 54, 108, 216, 173, 71, 142]"

definition Add_gf :: "byte \<Rightarrow> byte \<Rightarrow> byte" where
  "Add_gf a b = a XOR b"

definition Subtract :: "byte \<Rightarrow> byte \<Rightarrow> byte" where
  "Subtract a b = a XOR b"

definition Multiply :: "byte \<Rightarrow> byte \<Rightarrow> panic + byte" where
  "Multiply a b =
     (if a = 0 \<or> b = 0 then Inr 0
      else bindP (index LOGTABLE (uint (a AND 0xFF))) (\<lambda>loga.
           bindP (index LOGTABLE (uint (b AND 0xFF))) (\<lambda>logb.
           index EXPTABLE (loga + logb))))"

definition Divide :: "byte \<Rightarrow> byte \<Rightarrow> panic + byte" where
  "Divide a b =
     (if a = 0 \<or> b = 0 then Inr 0
      else bindP (index LOGTABLE (uint (a AND 0xFF))) (\<lambda>loga.
           bindP (index LOGTABLE (uint (b AND 0xFF))) (\<lambda>logb.
           let logResult = loga - logb;
               logResult = (if logResult < 0 then logResult + 255 else logResult)
           in index EXPTABLE logResult)))"

text \<open>The loop \<open>for logResult >= 255 { logResult -= 255 }\<close>.\<close>

function reduce255 :: "int \<Rightarrow> int" where
  "reduce255 r = (if r \<ge> 255 then reduce255 (r - 255) else r)"
  by pat_completeness auto
termination
  by (relation "measure nat") auto

declare reduce255.simps [simp del]

text \<open>The product \<open>int(logA) * n\<close> is a 64-bit \<open>int\<close> and wraps.\<close>

definition wrap64 :: "int \<Rightarrow> int" where
  "wrap64 x = signed_take_bit 63 x"

definition Exp :: "byte \<Rightarrow> int \<Rightarrow> panic + byte" where
  "Exp a n =
     (if n = 0 then Inr 1
      else if a = 0 then Inr 0
      else bindP (index LOGTABLE (uint a)) (\<lambda>logA.
           index EXPTABLE (reduce255 (wrap64 (logA * n)))))"

section \<open>The reference field\<close>

definition xtime :: "byte \<Rightarrow> byte" where
  "xtime x = push_bit 1 x XOR (if bit x 7 then 0x1D else 0)"

fun gf_mul_bits :: "nat \<Rightarrow> byte \<Rightarrow> byte \<Rightarrow> byte" where
  "gf_mul_bits 0 a b = 0"
| "gf_mul_bits (Suc k) a b =
     (if bit b 0 then a else 0) XOR gf_mul_bits k (xtime a) (drop_bit 1 b)"

definition gf_mul :: "byte \<Rightarrow> byte \<Rightarrow> byte" where
  "gf_mul a b = gf_mul_bits 8 a b"

fun powers :: "nat \<Rightarrow> byte \<Rightarrow> byte list" where
  "powers 0 x = []"
| "powers (Suc k) x = x # powers k (xtime x)"

section \<open>Table facts, by evaluation\<close>

lemma powers_EXPTABLE: "powers 510 1 = EXPTABLE"
  by code_simp

lemma LOG_EXP_table: "map (\<lambda>w. LOGTABLE ! unat w) (take 255 EXPTABLE) = map int [0..<255]"
  by code_simp

lemma EXP_LOG_table:
  "list_all (\<lambda>i. EXPTABLE ! nat (LOGTABLE ! i) = of_nat i \<and> 0 \<le> LOGTABLE ! i \<and> LOGTABLE ! i < 255) [1..<256]"
  by code_simp

lemma gf_mul_one_table: "list_all (\<lambda>i. gf_mul 1 (of_nat i) = of_nat i) [0..<256]"
  by code_simp

lemma length_tables: "length LOGTABLE = 256" "length EXPTABLE = 510"
  by (simp_all add: LOGTABLE_def EXPTABLE_def)

end
