(* ===== verification/Galois_Field.thy ===== *)
theory Galois_Field
  imports Galois
begin

text \<open>
  The table-driven operations of addon/coding/GaloisField.go compute the field operations:
  \<open>Multiply\<close> is schoolbook multiplication modulo the field polynomial, \<open>Divide\<close> undoes it,
  \<open>Exp\<close> is iterated multiplication, and no table access is out of range.
\<close>

lemma unat_byte_bound: "unat (b::byte) < 256"
proof -
  have "unsigned b < (2::nat) ^ LENGTH(8)" by (rule unsigned_less)
  then show ?thesis by simp
qed

section \<open>Powers of the generator\<close>

definition alpha :: "nat \<Rightarrow> byte" where
  "alpha i = (xtime ^^ i) 1"

lemma length_powers: "length (powers k x) = k"
  by (induction k arbitrary: x) simp_all

lemma nth_powers: "i < k \<Longrightarrow> powers k x ! i = (xtime ^^ i) x"
proof (induction k arbitrary: i x)
  case (Suc k)
  then show ?case by (cases i) (simp_all add: funpow_swap1)
qed simp

lemma EXPTABLE_nth: "i < 510 \<Longrightarrow> EXPTABLE ! i = alpha i"
  by (simp add: powers_EXPTABLE [symmetric] nth_powers alpha_def)

lemma LOGTABLE_alpha:
  assumes "i < 255"
  shows "LOGTABLE ! unat (alpha i) = int i"
proof -
  have "map (\<lambda>w. LOGTABLE ! unat w) (take 255 EXPTABLE) ! i = int i"
    using assms by (simp add: LOG_EXP_table)
  with assms show ?thesis
    by (simp add: length_tables EXPTABLE_nth)
qed

lemma alpha_255: "alpha 255 = 1"
proof -
  have "EXPTABLE ! 255 = 1" by (simp add: EXPTABLE_def)
  then show ?thesis by (simp add: EXPTABLE_nth)
qed

lemma alpha_add: "alpha (i + j) = (xtime ^^ i) (alpha j)"
  by (simp add: alpha_def funpow_add)

lemma alpha_mod: "alpha (i mod 255) = alpha i"
proof (induction i rule: less_induct)
  case (less i)
  show ?case
  proof (cases "i < 255")
    case False
    then have "alpha i = alpha ((i - 255) + 255)" by simp
    also have "\<dots> = alpha (i - 255)"
      by (simp only: alpha_add alpha_255) (simp add: alpha_def)
    also have "\<dots> = alpha ((i - 255) mod 255)" using less False by simp
    finally show ?thesis using False by (simp add: le_mod_geq)
  qed simp
qed

lemma nonzero_is_alpha:
  assumes "(b::byte) \<noteq> 0"
  obtains i where "i < 255" and "b = alpha i" and "LOGTABLE ! unat b = int i"
proof -
  let ?n = "unat b"
  have n: "0 < ?n" "?n < 256"
    using assms unat_byte_bound [of b] by (simp_all add: unat_gt_0)
  with EXP_LOG_table have *: "EXPTABLE ! nat (LOGTABLE ! ?n) = of_nat ?n" "0 \<le> LOGTABLE ! ?n"
      "LOGTABLE ! ?n < 255"
    unfolding list_all_iff by auto
  show ?thesis
    using * that [of "nat (LOGTABLE ! ?n)"] by (simp add: EXPTABLE_nth)
qed

lemma alpha_nonzero: "alpha i \<noteq> 0"
proof
  assume "alpha i = 0"
  then have "LOGTABLE ! 0 = int (i mod 255)"
    using LOGTABLE_alpha [of "i mod 255"] by (simp add: alpha_mod)
  then show False by (simp add: LOGTABLE_def)
qed

section \<open>Schoolbook multiplication is a commutative, bilinear product\<close>

lemma xtime_XOR: "xtime (a XOR b) = xtime a XOR xtime b"
  by (cases "bit a 7"; cases "bit b 7") (simp_all add: xtime_def push_bit_xor bit_xor_iff ac_simps)

lemma xtime_0 [simp]: "xtime 0 = 0"
  by (simp add: xtime_def)

lemma gf_mul_bits_xtime: "gf_mul_bits k (xtime a) b = xtime (gf_mul_bits k a b)"
  by (induction k arbitrary: a b) (simp_all add: xtime_XOR)

lemma gf_mul_bits_XOR_right:
  "gf_mul_bits k a (b XOR c) = gf_mul_bits k a b XOR gf_mul_bits k a c"
proof (induction k arbitrary: a b c)
  case (Suc k)
  show ?case
    by (simp only: gf_mul_bits.simps drop_bit_xor Suc.IH bit_xor_iff)
       (auto simp: ac_simps)
qed simp

lemma gf_mul_bits_zero: "gf_mul_bits k 0 b = 0" "gf_mul_bits k a 0 = 0"
  by (induction k arbitrary: a b) simp_all

lemma gf_mul_XOR: "gf_mul a (b XOR c) = gf_mul a b XOR gf_mul a c"
  by (simp add: gf_mul_def gf_mul_bits_XOR_right)

lemma gf_mul_zero [simp]: "gf_mul 0 b = 0" "gf_mul a 0 = 0"
  by (simp_all add: gf_mul_def gf_mul_bits_zero)

lemma gf_mul_one: "gf_mul 1 b = b"
proof -
  have "unat b \<in> set [0..<256]" using unat_byte_bound [of b] by simp
  with gf_mul_one_table have "gf_mul 1 (of_nat (unat b)) = of_nat (unat b)"
    unfolding list_all_iff by (rule bspec)
  then show ?thesis by simp
qed

lemma gf_mul_funpow: "gf_mul ((xtime ^^ i) a) b = (xtime ^^ i) (gf_mul a b)"
  by (induction i) (simp_all add: gf_mul_def gf_mul_bits_xtime)

lemma gf_mul_alpha: "gf_mul (alpha i) (alpha j) = alpha (i + j)"
  unfolding alpha_add by (simp add: alpha_def [of i] gf_mul_funpow gf_mul_one)

lemma gf_mul_commute: "gf_mul a b = gf_mul b a"
proof (cases "a = 0 \<or> b = 0")
  case False
  then show ?thesis
    by (metis add.commute gf_mul_alpha nonzero_is_alpha)
qed auto

lemma gf_mul_assoc: "gf_mul (gf_mul a b) c = gf_mul a (gf_mul b c)"
proof (cases "a = 0 \<or> b = 0 \<or> c = 0")
  case False
  then obtain i j k where "a = alpha i" "b = alpha j" "c = alpha k"
    by (metis nonzero_is_alpha)
  then show ?thesis by (simp add: gf_mul_alpha add.assoc)
qed auto

section \<open>The table-driven operations compute in this field\<close>

lemma index_nat: "i < length xs \<Longrightarrow> index xs (int i) = Inr (xs ! i)"
  by (simp add: index_def)

lemma index_LOGTABLE: "index LOGTABLE (uint (b::byte)) = Inr (LOGTABLE ! unat b)"
  using index_nat [of "unat b" LOGTABLE] unat_byte_bound [of b] by (simp add: length_tables)

lemma mask_byte: "(a::byte) AND 255 = a"
proof -
  have "(255::byte) = - 1" by simp
  then show ?thesis by (simp only: and.right_neutral)
qed


lemma LOGTABLE_byte: "b = alpha i \<Longrightarrow> i < 255 \<Longrightarrow> index LOGTABLE (uint b) = Inr (int i)"
  by (simp only: index_LOGTABLE LOGTABLE_alpha)

lemma index_EXPTABLE: "i < 510 \<Longrightarrow> index EXPTABLE (int i) = Inr (alpha i)"
  by (simp add: index_nat length_tables EXPTABLE_nth)

lemma Multiply_alpha: "i < 255 \<Longrightarrow> j < 255 \<Longrightarrow> Multiply (alpha i) (alpha j) = Inr (alpha (i + j))"
  using index_EXPTABLE [of "i + j"]
  by (simp add: Multiply_def alpha_nonzero mask_byte LOGTABLE_byte)

lemma Divide_alpha:
  assumes "i < 255" and "j < 255"
  shows "Divide (alpha i) (alpha j) = Inr (alpha (if i < j then i + 255 - j else i - j))"
  using assms index_EXPTABLE [of "i + 255 - j"] index_EXPTABLE [of "i - j"]
  by (auto simp: Divide_def alpha_nonzero mask_byte LOGTABLE_byte Let_def of_nat_diff algebra_simps)

text \<open>
  C37: \<open>Multiply\<close> never reads a table out of range and computes multiplication of
  polynomials over the two-element field modulo the polynomial 100011101, for all 65536 pairs
  of bytes.
\<close>

theorem Multiply_correct: "Multiply a b = Inr (gf_mul a b)"
proof (cases "a = 0 \<or> b = 0")
  case True
  then show ?thesis by (auto simp: Multiply_def)
next
  case False
  then obtain i j where "i < 255" "a = alpha i" "j < 255" "b = alpha j"
    by (metis nonzero_is_alpha)
  then show ?thesis by (simp add: Multiply_alpha gf_mul_alpha)
qed

text \<open>
  \<open>Divide\<close> undoes \<open>Multiply\<close>: for a nonzero \<open>b\<close>, dividing the product of
  \<open>a\<close> and \<open>b\<close> by \<open>b\<close> gives \<open>a\<close> back, and no table is read out of range.
\<close>

theorem Divide_Multiply:
  assumes "b \<noteq> 0"
  shows "bindP (Multiply a b) (\<lambda>p. Divide p b) = Inr a"
proof (cases "a = 0")
  case True
  then show ?thesis by (simp add: Multiply_def Divide_def)
next
  case False
  with assms obtain i j where ij: "i < 255" "a = alpha i" "j < 255" "b = alpha j"
    by (metis nonzero_is_alpha)
  let ?k = "(i + j) mod 255"
  have "alpha (i + j) = alpha ?k" by (simp add: alpha_mod)
  then have "bindP (Multiply a b) (\<lambda>p. Divide p b) = Divide (alpha ?k) (alpha j)"
    using ij by (simp add: Multiply_alpha)
  also have "\<dots> = Inr (alpha (if ?k < j then ?k + 255 - j else ?k - j))"
    using ij by (simp add: Divide_alpha)
  also have "(if ?k < j then ?k + 255 - j else ?k - j) = i"
  proof (cases "i + j < 255")
    case False
    then have "?k = i + j - 255" using ij by (simp add: le_mod_geq)
    with ij False show ?thesis by simp
  qed simp
  finally show ?thesis using ij by simp
qed

theorem Divide_Multiply_witness:
  "bindP (Multiply 0x53 0xCA) (\<lambda>p. Divide p 0xCA) = Inr (0x53 :: byte)"
  by (rule Divide_Multiply) simp

lemma reduce255_eq: "reduce255 r = (if r < 0 then r else r mod 255)"
proof (induction r rule: reduce255.induct)
  case (1 r)
  show ?case
  proof (cases "255 \<le> r")
    case True
    with 1 have "reduce255 r = (r - 255) mod 255"
      by (simp add: reduce255.simps [of r])
    with True show ?thesis by (simp add: mod_diff_right_eq [symmetric] minus_mod_self2)
  qed (simp add: reduce255.simps [of r])
qed

lemma wrap64_id: "- (2 ^ 63) \<le> x \<Longrightarrow> x < 2 ^ 63 \<Longrightarrow> wrap64 x = x"
  by (simp add: wrap64_def signed_take_bit_int_eq_self)

fun gf_pow :: "byte \<Rightarrow> nat \<Rightarrow> byte" where
  "gf_pow a 0 = 1"
| "gf_pow a (Suc n) = gf_mul a (gf_pow a n)"

lemma gf_pow_alpha: "gf_pow (alpha i) n = alpha (i * n)"
proof (induction n)
  case 0
  then show ?case by (simp add: alpha_def)
qed (simp add: gf_mul_alpha algebra_simps)

lemma gf_pow_zero: "0 < n \<Longrightarrow> gf_pow 0 n = 0"
  by (cases n) simp_all

text \<open>
  For an exponent from 0 up to 2^55, where the product of logarithm and exponent does not
  wrap, \<open>Exp a n\<close> is the \<open>n\<close>-fold product of \<open>a\<close>; a negative exponent makes
  every base with a positive logarithm (all but 0 and 1) panic.
\<close>

theorem Exp_correct:
  "(\<forall>n < 2 ^ 55. Exp a (int n) = Inr (gf_pow a n)) \<and>
   (\<forall>n. a \<noteq> 0 \<longrightarrow> a \<noteq> 1 \<longrightarrow> - (2 ^ 55) \<le> n \<longrightarrow> n < 0 \<longrightarrow> Exp a n = Inl IndexOutOfRange)"
proof (cases "a = 0")
  case True
  then show ?thesis by (auto simp: Exp_def gf_pow_zero)
next
  case False
  then obtain i where i: "i < 255" "a = alpha i" by (metis nonzero_is_alpha)
  have "Exp a (int n) = Inr (gf_pow a n)" if n: "n < 2 ^ 55" for n
  proof (cases "n = 0")
    case False
    have "i * n < 255 * 2 ^ 55" using i n by (intro mult_strict_mono) auto
    then have "int (i * n) < 2 ^ 63" by (simp del: of_nat_mult)
    moreover have "- (2 ^ 63) \<le> int (i * n)" by (rule order_trans [of _ 0]) simp_all
    ultimately have "wrap64 (int (i * n)) = int (i * n)" by (intro wrap64_id)
    then have "reduce255 (wrap64 (int i * int n)) = int ((i * n) mod 255)"
      by (simp add: reduce255_eq zmod_int)
    with False i show ?thesis
      by (simp add: Exp_def alpha_nonzero LOGTABLE_byte index_EXPTABLE gf_pow_alpha alpha_mod)
  qed (simp add: Exp_def)
  moreover have "Exp a n = Inl IndexOutOfRange" if n: "a \<noteq> 1" "- (2 ^ 55) \<le> n" "n < 0" for n :: int
  proof -
    have "i \<noteq> 0"
    proof
      assume "i = 0"
      then have "a = 1" using i by (simp add: alpha_def)
      with n show False by simp
    qed
    then have neg: "int i * n < 0" using n by (simp add: mult_pos_neg)
    have "int i * n \<ge> 255 * - (2 ^ 55)"
      using i n mult_mono [of "int i" 255 "- n" "2 ^ 55"] by simp
    then have "wrap64 (int i * n) = int i * n" using neg by (intro wrap64_id) simp_all
    moreover have "index EXPTABLE (int i * n) = Inl IndexOutOfRange"
      using neg by (simp add: index_def)
    ultimately show ?thesis
      using neg n i by (simp add: Exp_def alpha_nonzero LOGTABLE_byte reduce255_eq)
  qed
  ultimately show ?thesis by blast
qed

theorem Exp_correct_witness: "Exp 3 7 = Inr (gf_pow 3 7) \<and> Exp 2 (- 1) = Inl IndexOutOfRange"
proof
  have "Exp 3 (int 7) = Inr (gf_pow 3 7)"
    by (rule Exp_correct [THEN conjunct1, rule_format]) simp
  then show "Exp 3 7 = Inr (gf_pow 3 7)" by simp
  show "Exp 2 (- 1) = Inl IndexOutOfRange"
    by (rule Exp_correct [THEN conjunct2, rule_format]) simp_all
qed

end
