(* ===== verification/RFC.thy ===== *)
theory RFC
  imports Galois_Field Structs
begin

text \<open>
  The random linear coder (addon/coding/RFCEncoder.go): \<open>encode\<close> multiplies every chunk by
  a random coefficient and sums the products in the field.  The pseudo-random generator of
  Go's \<open>math/rand\<close> is a parameter: \<open>rander i\<close> is the \<open>i\<close>-th value of
  \<open>rander.Int()\<close>, a nonnegative integer.
\<close>

record chunk =
  DataBlock :: "byte list"
  Original :: bool
  Padding :: int

text \<open>\<open>for _, x := range xs { out = append(out, f(x)) }\<close> for an \<open>f\<close> that may panic.\<close>

fun collect :: "('a \<Rightarrow> panic + 'b) \<Rightarrow> 'a list \<Rightarrow> panic + 'b list" where
  "collect f [] = Inr []"
| "collect f (x # xs) = bindP (f x) (\<lambda>y. bindP (collect f xs) (\<lambda>ys. Inr (y # ys)))"

definition blockMultiply :: "byte \<Rightarrow> byte list \<Rightarrow> panic + byte list" where
  "blockMultiply coefficient data = collect (Multiply coefficient) data"

text \<open>The index runs over \<open>newProduct\<close>; a shorter \<open>product\<close> panics.\<close>

definition blockSum :: "byte list \<Rightarrow> byte list \<Rightarrow> panic + byte list" where
  "blockSum product newProduct =
     collect (\<lambda>i. bindP (index product (int i)) (\<lambda>p. Inr (Add_gf p (newProduct ! i))))
       [0..<length newProduct]"

definition coefficient :: "int \<Rightarrow> byte" where
  "coefficient randNum = word_of_int (randNum smod FIELDSIZE)"

fun encode_loop :: "(nat \<Rightarrow> int) \<Rightarrow> nat \<Rightarrow> chunk list \<Rightarrow> byte list \<Rightarrow> byte list \<Rightarrow>
    panic + (byte list \<times> byte list)" where
  "encode_loop rander i [] product vec = Inr (product, vec)"
| "encode_loop rander i (c # cs) product vec =
     (let v = coefficient (rander i) in
      bindP (blockMultiply v (DataBlock c)) (\<lambda>newProduct.
      bindP (blockSum product newProduct) (\<lambda>product'.
      encode_loop rander (Suc i) cs product' (vec @ [v]))))"

definition encode :: "chunk list \<Rightarrow> (nat \<Rightarrow> int) \<Rightarrow> panic + (chunk \<times> byte list)" where
  "encode chunks rander =
     bindP (index chunks 0) (\<lambda>c0.
     bindP (encode_loop rander 0 chunks (replicate (length (DataBlock c0)) 0) []) (\<lambda>(product, vec).
     Inr (\<lparr>DataBlock = product, Original = False, Padding = 0\<rparr>, vec)))"

section \<open>The code word is the linear combination of the chunks\<close>

definition scale :: "byte \<Rightarrow> byte list \<Rightarrow> byte list" where
  "scale v xs = map (gf_mul v) xs"

definition plus_bytes :: "byte list \<Rightarrow> byte list \<Rightarrow> byte list" where
  "plus_bytes xs ys = map2 (\<lambda>x y. x XOR y) xs ys"

fun combination :: "byte list \<Rightarrow> byte list list \<Rightarrow> byte list \<Rightarrow> byte list" where
  "combination (v # vs) (d # ds) acc = combination vs ds (plus_bytes acc (scale v d))"
| "combination _ _ acc = acc"

lemma collect_total: "(\<And>x. x \<in> set xs \<Longrightarrow> f x = Inr (g x)) \<Longrightarrow> collect f xs = Inr (map g xs)"
  by (induction xs) simp_all

lemma blockMultiply_scale: "blockMultiply v data = Inr (scale v data)"
  by (simp add: blockMultiply_def scale_def collect_total Multiply_correct)

lemma blockSum_plus:
  assumes "length newProduct = length product"
  shows "blockSum product newProduct = Inr (plus_bytes product newProduct)"
proof -
  have "blockSum product newProduct
      = Inr (map (\<lambda>i. product ! i XOR newProduct ! i) [0..<length newProduct])"
    unfolding blockSum_def using assms
    by (intro collect_total) (simp add: index_nat Add_gf_def)
  also have "map (\<lambda>i. product ! i XOR newProduct ! i) [0..<length newProduct]
      = plus_bytes product newProduct"
    by (rule nth_equalityI) (simp_all add: plus_bytes_def assms)
  finally show ?thesis .
qed

lemma blockSum_short:
  assumes "length product < length newProduct"
  shows "\<exists>e. blockSum product newProduct = Inl e"
proof -
  have "\<exists>e. collect f xs = Inl e" if "x \<in> set xs" "f x = Inl e"
    for x :: nat and xs e and f :: "nat \<Rightarrow> panic + byte"
    using that by (induction xs) (auto simp: bindP_def split: sum.splits)
  from this [of "length product" "[0..<length newProduct]"] assms show ?thesis
    by (simp add: blockSum_def index_def)
qed

lemma length_scale [simp]: "length (scale v d) = length d"
  by (simp add: scale_def)

lemma length_plus_bytes [simp]: "length (plus_bytes xs ys) = min (length xs) (length ys)"
  by (simp add: plus_bytes_def)

lemma encode_loop_combination:
  assumes "\<forall>c \<in> set cs. length (DataBlock c) = length product"
  shows "encode_loop rander i cs product vec =
     Inr (combination (map (\<lambda>k. coefficient (rander k)) [i..<i + length cs])
            (map DataBlock cs) product,
          vec @ map (\<lambda>k. coefficient (rander k)) [i..<i + length cs])"
  using assms
proof (induction cs arbitrary: i product vec)
  case (Cons c cs)
  have "[i..<i + length (c # cs)] = i # [Suc i..<Suc i + length cs]"
    by (simp add: upt_rec)
  with Cons show ?case
    by (simp add: Let_def blockMultiply_scale blockSum_plus)
qed simp

text \<open>
  For chunks of one common length (the padded blocks), \<open>encode\<close> does not panic; it returns
  as coefficient vector the low bytes of the random numbers and as data the sum over the
  field of the chunks scaled by these coefficients.
\<close>

theorem encode_linear:
  assumes "chunks \<noteq> []"
    and "\<forall>c \<in> set chunks. length (DataBlock c) = length (DataBlock (hd chunks))"
  shows "encode chunks rander =
     (let vec = map (\<lambda>k. coefficient (rander k)) [0..<length chunks];
          zero = replicate (length (DataBlock (hd chunks))) 0
      in Inr (\<lparr>DataBlock = combination vec (map DataBlock chunks) zero,
               Original = False, Padding = 0\<rparr>, vec))"
proof -
  have "index chunks 0 = Inr (hd chunks)"
    using assms(1) by (simp add: index_def hd_conv_nth)
  with assms(2) show ?thesis
    by (simp add: encode_def encode_loop_combination Let_def)
qed

theorem encode_linear_witness:
  "encode [\<lparr>DataBlock = [1, 2], Original = True, Padding = 0\<rparr>,
           \<lparr>DataBlock = [3, 4], Original = True, Padding = 0\<rparr>] (\<lambda>i. 258 + int i) =
   Inr (\<lparr>DataBlock = combination [2, 3] [[1, 2], [3, 4]] [0, 0], Original = False, Padding = 0\<rparr>, [2, 3])"
  by (subst encode_linear)
     (simp_all add: Let_def coefficient_def FIELDSIZE_def upt_rec signed_modulo_int_def)

text \<open>
  Decoding a code word of a single chunk: when the random coefficient is not 0, dividing
  every byte of the code word by it gives the chunk's data back.
\<close>

theorem encode_single_roundtrip:
  assumes "coefficient (rander 0) \<noteq> 0"
  shows "bindP (encode [c] rander)
     (\<lambda>(code, vec). collect (\<lambda>x. Divide x (coefficient (rander 0))) (DataBlock code)) = Inr (DataBlock c)"
proof -
  let ?v = "coefficient (rander 0)"
  have "Divide (gf_mul ?v x) ?v = Inr x" for x
    using Divide_Multiply [OF assms, of x]
    by (simp add: Multiply_correct gf_mul_commute)
  then have "collect (\<lambda>x. Divide x ?v) (scale ?v xs) = Inr xs" for xs
    unfolding scale_def by (induction xs) simp_all
  moreover have "plus_bytes (replicate (length xs) 0) xs = xs" for xs
    by (rule nth_equalityI) (simp_all add: plus_bytes_def)
  ultimately show ?thesis
    by (simp add: encode_linear Let_def upt_rec) (metis length_scale)
qed

theorem encode_single_roundtrip_witness:
  "bindP (encode [\<lparr>DataBlock = [7, 0, 255], Original = True, Padding = 0\<rparr>] (\<lambda>i. 5))
     (\<lambda>(code, vec). collect (\<lambda>x. Divide x (coefficient 5)) (DataBlock code)) = Inr [7, 0, 255]"
  using encode_single_roundtrip
    [of "\<lambda>i. 5" "\<lparr>DataBlock = [7, 0, 255], Original = True, Padding = 0\<rparr>"]
  by (simp add: coefficient_def FIELDSIZE_def signed_modulo_int_def)

section \<open>The seed of the coefficients\<close>

text \<open>
  The verifiable random function is a library: \<open>Prove\<close> yields an output and a proof, or fails, and
  \<open>Verify\<close> the output that a proof stands for, or fails.
\<close>

record ('sk, 'pk) vrf =
  Prove :: "'sk \<Rightarrow> bytes \<Rightarrow> (bytes \<times> bytes) option"
  vrf_Verify :: "'pk \<Rightarrow> bytes \<Rightarrow> bytes \<Rightarrow> bytes option"
  PublicOf :: "'sk \<Rightarrow> 'pk"

text \<open>\<open>new(big.Int).SetBytes(beta).Int64()\<close>: the low 64 bits of the big-endian number, signed.\<close>

definition big_endian :: "bytes \<Rightarrow> int" where
  "big_endian bs = fold (\<lambda>b n. n * 256 + of_char b) bs 0"

definition Int64 :: "int \<Rightarrow> int" where
  "Int64 n = sint (word_of_int n :: 64 word)"

definition GenRandSeed :: "('sk, 'pk) vrf \<Rightarrow> 'sk \<Rightarrow> block \<Rightarrow> panic + (int \<times> bytes)" where
  "GenRandSeed V sk b =
     (case Prove V sk (b_Hash b) of
        None \<Rightarrow> Inl (LogPanic ''vrf'')
      | Some (beta, pi) \<Rightarrow> Inr (Int64 (big_endian beta), pi))"

definition VerifyRandSeed :: "('sk, 'pk) vrf \<Rightarrow> 'pk \<Rightarrow> block \<Rightarrow> bytes \<Rightarrow> bool" where
  "VerifyRandSeed V pk b pi = (vrf_Verify V pk (b_Hash b) pi \<noteq> None)"

text \<open>The body of \<open>Encode\<close> is commented out.\<close>

definition Encode :: "block list \<Rightarrow> int \<Rightarrow> int \<Rightarrow> chunk \<times> byte list" where
  "Encode blocks randSeed shardId = (\<lparr>DataBlock = [], Original = False, Padding = 0\<rparr>, [])"

text \<open>
  The documented law of the function, and what it gives here: a proof made for a block verifies for
  that block, and the seed is determined by key and block; the check itself does not
  look at the seed that was announced.
\<close>

definition vrf_laws :: "('sk, 'pk) vrf \<Rightarrow> bool" where
  "vrf_laws V \<longleftrightarrow> (\<forall>sk x beta pi. Prove V sk x = Some (beta, pi) \<longrightarrow> vrf_Verify V (PublicOf V sk) x pi = Some beta)"

lemma seed_bounds: "GenRandSeed V sk b = Inr (seed, pi) \<Longrightarrow> - (2 ^ 63) \<le> seed \<and> seed < 2 ^ 63"
  using sint_greater_eq [where 'a = 64] sint_lt [where 'a = 64]
  by (auto simp: GenRandSeed_def Int64_def split: option.splits)

lemma rand_seed_roundtrip:
  assumes "vrf_laws V" and "GenRandSeed V sk b = Inr (seed, pi)"
  shows "VerifyRandSeed V (PublicOf V sk) b pi \<and>
    seed = Int64 (big_endian (the (vrf_Verify V (PublicOf V sk) (b_Hash b) pi)))"
  using assms by (auto simp: vrf_laws_def GenRandSeed_def VerifyRandSeed_def split: option.splits)

lemma vrf_laws_instance: "vrf_laws \<lparr>Prove = (\<lambda>sk x. Some (sk @ x, sk @ x)), vrf_Verify = (\<lambda>pk x pi. if pi = pk @ x then Some pi else None), PublicOf = (\<lambda>sk. sk)\<rparr>"
  by (simp add: vrf_laws_def)

end
