(* ===== verification/Message.thy ===== *)
theory Message
  imports Structs
begin

text \<open>
  Messages and requests (message/) and the signature wrapper (signature/signature.go).

  The body of a network message is a gob encoding of one of the structs the handlers decode.
  A body is modelled as a value of the sum type \<open>payload\<close> with one constructor per encoded
  type and \<open>Garbage\<close> for any other bytes; \<open>utils.Decode\<close> into a given type succeeds
  exactly on its constructor and otherwise returns an error (\<open>None\<close>).  The digest of a request
  is a hash of its JSON form with the digest field zeroed; hash and JSON encoder are
  arguments.  Signatures, keys and the BLS operations come from a third-party library: the
  record \<open>bls\<close> collects the operations used, as an argument of the wrappers.
\<close>

datatype MessageType =
    MsgEmpty | MsgInit | MsgNodeReady | MsgStop | MsgInject | MsgReply | MsgQuery | MsgReplyQuery
  | MsgPropose | MsgPrePrepare | MsgPrepare | MsgCommit | MsgForward | MsgForward1 | MsgForward2
  | MsgVote | MsgQC | MsgConsensusDone | MsgRequestSeq | MsgSeq | MsgInputVerifyResult
  | MsgPreInject | MsgBlockLegal

datatype RequestType =
    ReqEmpty | ReqVerifyString | ReqVerifyBlock | ReqVerifyBlockHeader | ReqVerifyTxs | ReqVerifyInputs

type_synonym signature = bytes

record request =
  ShardId :: int
  ReqType :: RequestType
  Content :: bytes
  ReqTime :: time
  Digest :: bytes
  Sig :: "signature option"

section \<open>Requests\<close>

text \<open>A JSON error leaves the byte slice nil and is only logged; the digest is still taken.\<close>

definition CalDigest :: "(bytes \<Rightarrow> bytes) \<Rightarrow> (request \<Rightarrow> bytes option) \<Rightarrow> request \<Rightarrow> request" where
  "CalDigest sha256 json req =
     (let req = req\<lparr>Digest := replicate 32 (CHR 0x00)\<rparr>;
          b = (case json req of None \<Rightarrow> [] | Some b \<Rightarrow> b)
      in req\<lparr>Digest := sha256 b\<rparr>)"

definition NewRequest ::
  "(bytes \<Rightarrow> bytes) \<Rightarrow> (request \<Rightarrow> bytes option) \<Rightarrow> time \<Rightarrow> int \<Rightarrow> RequestType \<Rightarrow> bytes \<Rightarrow> request" where
  "NewRequest sha256 json now shardId reqType content =
     CalDigest sha256 json
       \<lparr>ShardId = shardId, ReqType = reqType, Content = content, ReqTime = now,
        Digest = replicate 32 (CHR 0x00), Sig = None\<rparr>"

definition NewRequestWithSignature ::
  "(bytes \<Rightarrow> bytes) \<Rightarrow> (request \<Rightarrow> bytes option) \<Rightarrow> time \<Rightarrow> int \<Rightarrow> RequestType \<Rightarrow> bytes \<Rightarrow>
   signature option \<Rightarrow> request" where
  "NewRequestWithSignature sha256 json now shardId reqType content sig =
     CalDigest sha256 json
       \<lparr>ShardId = shardId, ReqType = reqType, Content = content, ReqTime = now,
        Digest = replicate 32 (CHR 0x00), Sig = sig\<rparr>"

lemma CalDigest_frame [simp]:
  "ShardId (CalDigest sha json r) = ShardId r" "ReqType (CalDigest sha json r) = ReqType r"
  "Content (CalDigest sha json r) = Content r" "ReqTime (CalDigest sha json r) = ReqTime r"
  "Sig (CalDigest sha json r) = Sig r"
  by (simp_all add: CalDigest_def Let_def)

text \<open>The digest depends on the other fields only, so it can be recomputed and compared.\<close>

lemma CalDigest_overwrites: "CalDigest sha json (r\<lparr>Digest := d\<rparr>) = CalDigest sha json r"
  by (simp add: CalDigest_def Let_def)

lemma CalDigest_idem: "CalDigest sha json (CalDigest sha json r) = CalDigest sha json r"
  by (simp add: CalDigest_def Let_def)

section \<open>Message bodies\<close>

record pbft_message =
  pm_Request :: request
  Round :: int

record reply =
  rep_Req :: request
  rep_Time :: time
  rep_Sid :: int
  ReqQueueLen :: nat

record ds_sig_list =
  dl_Req :: request
  dl_SigList :: "signature option list"
  dl_NodeList :: "int list"

record tbb_sig_list =
  sl_Input :: bytes
  sl_SigList :: "signature option list"
  sl_NodeList :: "int list"

record vote_content =
  vc_NodeId :: int
  vc_Content :: bytes
  vc_Sig :: "signature option"

record qc_content =
  qc_Content :: string
  qc_Sig :: "signature option"

record reply_value =
  rv_Value :: string
  rv_QCMap :: "(string \<times> signature) list"

datatype payload =
    PRequest request
  | PPbft pbft_message
  | PReply reply
  | PTime time
  | PString string
  | PTxs "transaction list"
  | PDsSigList ds_sig_list
  | PTbbSigList tbb_sig_list
  | PVote vote_content
  | PQC qc_content
  | PReplyValue reply_value
  | Garbage bytes

record message =
  MsgType :: MessageType
  msg_Content :: payload

fun decode_request :: "payload \<Rightarrow> request option" where
  "decode_request (PRequest r) = Some r" | "decode_request _ = None"

fun decode_pbft :: "payload \<Rightarrow> pbft_message option" where
  "decode_pbft (PPbft p) = Some p" | "decode_pbft _ = None"

fun decode_reply :: "payload \<Rightarrow> reply option" where
  "decode_reply (PReply r) = Some r" | "decode_reply _ = None"

fun decode_time :: "payload \<Rightarrow> time option" where
  "decode_time (PTime t) = Some t" | "decode_time _ = None"

fun decode_string :: "payload \<Rightarrow> string option" where
  "decode_string (PString s) = Some s" | "decode_string _ = None"

fun decode_txs :: "payload \<Rightarrow> transaction list option" where
  "decode_txs (PTxs t) = Some t" | "decode_txs _ = None"

fun decode_ds_sig_list :: "payload \<Rightarrow> ds_sig_list option" where
  "decode_ds_sig_list (PDsSigList l) = Some l" | "decode_ds_sig_list _ = None"

fun decode_tbb_sig_list :: "payload \<Rightarrow> tbb_sig_list option" where
  "decode_tbb_sig_list (PTbbSigList l) = Some l" | "decode_tbb_sig_list _ = None"

fun decode_vote :: "payload \<Rightarrow> vote_content option" where
  "decode_vote (PVote v) = Some v" | "decode_vote _ = None"

fun decode_qc :: "payload \<Rightarrow> qc_content option" where
  "decode_qc (PQC q) = Some q" | "decode_qc _ = None"

fun decode_reply_value :: "payload \<Rightarrow> reply_value option" where
  "decode_reply_value (PReplyValue v) = Some v" | "decode_reply_value _ = None"

text \<open>What a handler does to its surroundings, in the order it does it.\<close>

datatype effect =
    Broadcast int message       \<comment> \<open>to every other address of \<open>config.IPMap[shard]\<close>\<close>
  | SendTo string message
  | CallHandler MessageType     \<comment> \<open>\<open>p2pMod.MsgHandlerMap[t](nil)\<close>\<close>
  | NotifyDone                  \<comment> \<open>the non-blocking send on \<open>consensusDone\<close>\<close>
  | CommitCalled request        \<comment> \<open>the addon's \<open>HandleCommitAddon\<close> was invoked\<close>

section \<open>Signatures\<close>

record bls =
  SignHash :: "bytes \<Rightarrow> bytes \<Rightarrow> signature"           \<comment> \<open>secret key, hash\<close>
  VerifyHash :: "signature \<Rightarrow> bytes \<Rightarrow> bytes \<Rightarrow> bool"  \<comment> \<open>signature, public key, hash\<close>
  Aggregate :: "signature list \<Rightarrow> signature"
  VerifyAggregateHashes :: "signature \<Rightarrow> bytes list \<Rightarrow> bytes list \<Rightarrow> bool"
  PublicKeyOf :: "bytes \<Rightarrow> bytes"

definition Sign :: "bls \<Rightarrow> (bytes \<Rightarrow> bytes) \<Rightarrow> bytes option \<Rightarrow> bytes \<Rightarrow> signature option" where
  "Sign B sha256 privateKey msg =
     (if length msg = 0 then None
      else (case privateKey of None \<Rightarrow> None | Some sk \<Rightarrow> Some (SignHash B sk (sha256 msg))))"

definition Verify :: "bls \<Rightarrow> (bytes \<Rightarrow> bytes) \<Rightarrow> bytes option \<Rightarrow> bytes \<Rightarrow> signature option \<Rightarrow> bool" where
  "Verify B sha256 publicKey msg sig =
     (if length msg = 0 then False
      else (case publicKey of None \<Rightarrow> False
            | Some pk \<Rightarrow> (case sig of None \<Rightarrow> False | Some s \<Rightarrow> VerifyHash B s pk (sha256 msg))))"

text \<open>An error (\<open>None\<close>) for an empty list and for a nil element.\<close>

definition AggregateSignatures :: "bls \<Rightarrow> signature option list \<Rightarrow> signature option" where
  "AggregateSignatures B sigs =
     (if length sigs = 0 then None
      else if None \<in> set sigs then None
      else Some (Aggregate B (map the sigs)))"

definition VerifyAggregatedSignature ::
  "bls \<Rightarrow> (bytes \<Rightarrow> bytes) \<Rightarrow> bytes option list \<Rightarrow> bytes \<Rightarrow> signature option \<Rightarrow> panic + bool" where
  "VerifyAggregatedSignature B sha256 publicKeys msg aggSignature =
     (if None \<in> set publicKeys then Inr False
      else (case aggSignature of None \<Rightarrow> Inl NilDereference
            | Some a \<Rightarrow> Inr (VerifyAggregateHashes B a (map the publicKeys)
                              (replicate (length publicKeys) (sha256 msg)))))"

text \<open>What the wrappers rely on: BLS verification accepts the matching key's signatures.\<close>

definition bls_correct :: "bls \<Rightarrow> bool" where
  "bls_correct B \<longleftrightarrow>
     (\<forall>sk h. VerifyHash B (SignHash B sk h) (PublicKeyOf B sk) h) \<and>
     (\<forall>sks h. sks \<noteq> [] \<longrightarrow>
        VerifyAggregateHashes B (Aggregate B (map (\<lambda>sk. SignHash B sk h) sks))
          (map (PublicKeyOf B) sks) (replicate (length sks) h))"

lemma Sign_Some_iff: "Sign B sha sk msg = Some s \<longleftrightarrow>
    msg \<noteq> [] \<and> (\<exists>k. sk = Some k \<and> s = SignHash B k (sha msg))"
  by (auto simp: Sign_def split: option.splits)

text \<open>
  Signing and aggregating round trip: a nonempty message signed by a list of keys yields
  signatures that verify one by one, aggregate without error, and the aggregate verifies under
  the list of public keys; an empty message is never signed and never verifies.
\<close>

theorem sign_verify_roundtrip:
  assumes "bls_correct B" and "msg \<noteq> []" and "sks \<noteq> []"
  shows "(\<forall>sk \<in> set sks. Verify B sha (Some (PublicKeyOf B sk)) msg (Sign B sha (Some sk) msg)) \<and>
    (\<exists>agg. AggregateSignatures B (map (\<lambda>sk. Sign B sha (Some sk) msg) sks) = Some agg \<and>
       VerifyAggregatedSignature B sha (map (\<lambda>sk. Some (PublicKeyOf B sk)) sks) msg (Some agg) = Inr True) \<and>
    Sign B sha sk [] = None \<and> \<not> Verify B sha pk [] sig"
proof (intro conjI)
  have s: "Sign B sha (Some sk) msg = Some (SignHash B sk (sha msg))" for sk
    using assms(2) by (simp add: Sign_def)
  show "\<forall>sk \<in> set sks. Verify B sha (Some (PublicKeyOf B sk)) msg (Sign B sha (Some sk) msg)"
    using assms(1,2) by (simp add: s Verify_def bls_correct_def)
  have "map (the \<circ> (\<lambda>sk. Some (SignHash B sk (sha msg)))) sks = map (\<lambda>sk. SignHash B sk (sha msg)) sks"
    "map (the \<circ> (\<lambda>sk. Some (PublicKeyOf B sk))) sks = map (PublicKeyOf B) sks"
    by (simp_all add: comp_def)
  with assms show "\<exists>agg. AggregateSignatures B (map (\<lambda>sk. Sign B sha (Some sk) msg) sks) = Some agg \<and>
       VerifyAggregatedSignature B sha (map (\<lambda>sk. Some (PublicKeyOf B sk)) sks) msg (Some agg) = Inr True"
    by (auto simp: s AggregateSignatures_def VerifyAggregatedSignature_def bls_correct_def comp_def)
  show "Sign B sha sk [] = None" by (simp add: Sign_def)
  show "\<not> Verify B sha pk [] sig" by (simp add: Verify_def)
qed

text \<open>A concrete instance of the library: a signature is the key paired with the hash.\<close>

definition pair_bls :: bls where
  "pair_bls =
     \<lparr>SignHash = (\<lambda>sk h. sk @ h), VerifyHash = (\<lambda>s pk h. s = pk @ h),
      Aggregate = concat, VerifyAggregateHashes = (\<lambda>a pks hs. a = concat (map2 (@) pks hs)),
      PublicKeyOf = (\<lambda>sk. sk)\<rparr>"

lemma pair_bls_correct: "bls_correct pair_bls"
proof -
  have "concat (map (\<lambda>sk. sk @ h) sks) = concat (map2 (@) sks (replicate (length sks) h))" for sks :: "bytes list" and h
    by (induction sks) simp_all
  then show ?thesis by (simp add: bls_correct_def pair_bls_def)
qed

theorem sign_verify_roundtrip_witness:
  "Verify pair_bls (\<lambda>m. m) (Some (PublicKeyOf pair_bls ''k'')) ''m'' (Sign pair_bls (\<lambda>m. m) (Some ''k'') ''m'')"
  using sign_verify_roundtrip [OF pair_bls_correct, of "''m''" "[''k'']" "\<lambda>m. m"] by simp

end
