(* ===== verification/Storage.thy ===== *)
theory Storage
  imports RFC Structs
begin

text \<open>
  The block store (storage/storage.go).  The key-value database (boltdb) is third-party code:
  the record \<open>bolt\<close> collects the operations the store calls, and \<open>bolt_laws\<close> states
  their documented behaviour.  An error returned by \<open>Put\<close> is \<open>None\<close> and makes the
  store panic.  The gob encoders and decoders are arguments; a decoder returns \<open>None\<close> when
  gob reports an error, which the readers of the store ignore: they then return the zero value.
\<close>

record 'db bolt =
  CreateBucket :: "'db \<Rightarrow> string \<Rightarrow> 'db option"
  Put :: "'db \<Rightarrow> string \<Rightarrow> bytes \<Rightarrow> bytes \<Rightarrow> 'db option"
  Get :: "'db \<Rightarrow> string \<Rightarrow> bytes \<Rightarrow> bytes option"

definition bolt_laws :: "'db bolt \<Rightarrow> bool" where
  "bolt_laws B \<longleftrightarrow>
     (\<forall>db b k v db'. Put B db b k v = Some db' \<longrightarrow>
        (\<forall>b' k'. Get B db' b' k' = (if b' = b \<and> k' = k then Some v else Get B db b' k'))) \<and>
     (\<forall>db b db'. CreateBucket B db b = Some db' \<longrightarrow> Get B db' = Get B db)"

text \<open>The gob codec of the values the store keeps.\<close>

record codec =
  enc_block :: "block \<Rightarrow> bytes"
  dec_block :: "bytes \<Rightarrow> block option"
  enc_header :: "block_header \<Rightarrow> bytes"
  dec_header :: "bytes \<Rightarrow> block_header option"

definition codec_roundtrip :: "codec \<Rightarrow> block \<Rightarrow> bool" where
  "codec_roundtrip E b \<longleftrightarrow>
     dec_block E (enc_block E b) = Some b \<and> dec_header E (enc_header E (Header b)) = Some (Header b)"

record 'db storage =
  filePath :: string
  blockBucket :: string
  blockHeaderBucket :: string
  newestBlockHashBucket :: string
  UTXOBucket :: string
  codingSchemaBucket :: string
  chunkBucket :: string
  DataBase :: 'db

datatype stat_result = StatOk | StatNotExist | StatError

text \<open>Creating a list of buckets; an error panics.\<close>

fun create_buckets :: "'db bolt \<Rightarrow> string list \<Rightarrow> 'db \<Rightarrow> panic + 'db" where
  "create_buckets B [] db = Inr db"
| "create_buckets B (b # bs) db =
     (case CreateBucket B db b of
        None \<Rightarrow> Inl (LogPanic ''create bucket failed'')
      | Some db' \<Rightarrow> create_buckets B bs db')"

text \<open>
  \<open>stat\<close> and \<open>mkdir\<close> are the results of the two calls on the storage directory,
  \<open>open1\<close> opens the database file.
\<close>

definition NewStorage ::
  "'db bolt \<Rightarrow> string \<Rightarrow> stat_result \<Rightarrow> bool \<Rightarrow> (string \<Rightarrow> 'db option) \<Rightarrow> (int \<Rightarrow> string) \<Rightarrow>
   int \<Rightarrow> int \<Rightarrow> panic + 'db storage" where
  "NewStorage B StoragePath stat mkdir_ok open1 itoa ShardID NodeID =
     (if stat = StatNotExist \<and> \<not> mkdir_ok then Inl (LogPanic ''mkdir'')
      else if stat = StatError then Inl (LogPanic ''stat'')
      else
        let path = StoragePath @ ''/'' @ itoa ShardID @ ''_'' @ itoa NodeID @ ''.data'' in
        case open1 path of
          None \<Rightarrow> Inl (LogPanic ''open'')
        | Some db \<Rightarrow>
            bindP (create_buckets B
                     [''block'', ''blockHeader'', ''newestBlockHash'', ''UTXO'', ''codingSchema'', ''chunk''] db)
              (\<lambda>db'. Inr \<lparr>filePath = path, blockBucket = ''block'', blockHeaderBucket = ''blockHeader'',
                 newestBlockHashBucket = ''newestBlockHash'', UTXOBucket = ''UTXO'',
                 codingSchemaBucket = ''codingSchema'', chunkBucket = ''chunk'', DataBase = db'\<rparr>))"

definition put_or_panic :: "'db bolt \<Rightarrow> string \<Rightarrow> bytes \<Rightarrow> bytes \<Rightarrow> 'db storage \<Rightarrow> panic + 'db storage" where
  "put_or_panic B bucket key value s =
     (case Put B (DataBase s) bucket key value of
        None \<Rightarrow> Inl (LogPanic '''')
      | Some db \<Rightarrow> Inr (s\<lparr>DataBase := db\<rparr>))"

definition newest_key :: bytes where
  "newest_key = ''theNewestBlockHash''"

definition UpdateNewestBlockHash :: "'db bolt \<Rightarrow> bytes \<Rightarrow> 'db storage \<Rightarrow> panic + 'db storage" where
  "UpdateNewestBlockHash B newestbhash s =
     put_or_panic B (newestBlockHashBucket s) newest_key newestbhash s"

definition AddBlockHeader ::
  "'db bolt \<Rightarrow> codec \<Rightarrow> bytes \<Rightarrow> block_header \<Rightarrow> 'db storage \<Rightarrow> panic + 'db storage" where
  "AddBlockHeader B E blockhash bh s = put_or_panic B (blockHeaderBucket s) blockhash (enc_header E bh) s"

definition AddBlock :: "'db bolt \<Rightarrow> codec \<Rightarrow> block \<Rightarrow> 'db storage \<Rightarrow> panic + 'db storage" where
  "AddBlock B E b s =
     bindP (put_or_panic B (blockBucket s) (b_Hash b) (enc_block E b) s) (\<lambda>s1.
     bindP (AddBlockHeader B E (b_Hash b) (Header b) s1) (\<lambda>s2.
     UpdateNewestBlockHash B (b_Hash b) s2))"

definition zero_header :: block_header where
  "zero_header = \<lparr>PrevBlockHash = [], Height = 0, bh_Nonce = 0, TimeStamp = 0, TxRoot = [],
     Miner = 0, StateRoot = []\<rparr>"

text \<open>The header of a zero block is a nil pointer in the source; the decoder of a stored block
  never leaves it so, because \<open>AddBlock\<close> dereferences it first.\<close>

definition GetBlockHeader :: "'db bolt \<Rightarrow> codec \<Rightarrow> bytes \<Rightarrow> 'db storage \<Rightarrow> block_header \<times> bool" where
  "GetBlockHeader B E bhash s =
     (case Get B (DataBase s) (blockHeaderBucket s) bhash of
        None \<Rightarrow> (zero_header, False)
      | Some e \<Rightarrow> (case dec_header E e of None \<Rightarrow> (zero_header, True) | Some h \<Rightarrow> (h, True)))"

definition zero_block :: block where
  "zero_block = \<lparr>Header = zero_header, Transactions = [], b_Hash = []\<rparr>"

definition GetBlock :: "'db bolt \<Rightarrow> codec \<Rightarrow> bytes \<Rightarrow> 'db storage \<Rightarrow> block \<times> bool" where
  "GetBlock B E bhash s =
     (case Get B (DataBase s) (blockBucket s) bhash of
        None \<Rightarrow> (zero_block, False)
      | Some e \<Rightarrow> (case dec_block E e of None \<Rightarrow> (zero_block, True) | Some b \<Rightarrow> (b, True)))"

definition GetNewestBlockHash :: "'db bolt \<Rightarrow> 'db storage \<Rightarrow> bytes option" where
  "GetNewestBlockHash B s = Get B (DataBase s) (newestBlockHashBucket s) newest_key"

text \<open>Both writers of coded data use the coding-schema bucket.\<close>

definition SaveCodingSchema ::
  "'db bolt \<Rightarrow> (bytes \<Rightarrow> bytes) \<Rightarrow> ('schema \<Rightarrow> bytes) \<Rightarrow> 'schema \<Rightarrow> 'db storage \<Rightarrow> panic + 'db storage" where
  "SaveCodingSchema B sha256 enc schema s =
     put_or_panic B (codingSchemaBucket s) (sha256 (enc schema)) (enc schema) s"

definition SaveChunks ::
  "'db bolt \<Rightarrow> (bytes \<Rightarrow> bytes) \<Rightarrow> (chunk \<Rightarrow> bytes) \<Rightarrow> chunk \<Rightarrow> 'db storage \<Rightarrow> panic + 'db storage" where
  "SaveChunks B sha256 enc c s =
     put_or_panic B (codingSchemaBucket s) (sha256 (enc c)) (enc c) s"

section \<open>Reading back what was written\<close>

text \<open>The bucket names of a store are pairwise distinct.\<close>

definition storage_inv :: "'db storage \<Rightarrow> bool" where
  "storage_inv s \<longleftrightarrow> distinct [blockBucket s, blockHeaderBucket s, newestBlockHashBucket s,
     UTXOBucket s, codingSchemaBucket s, chunkBucket s]"

lemma NewStorage_inv: "NewStorage B p st mk op itoa sid nid = Inr s \<Longrightarrow> storage_inv s"
  by (auto simp: NewStorage_def Let_def bindP_eq_Inr_iff storage_inv_def
      split: if_splits option.splits)

lemma put_or_panic_Inr:
  assumes "put_or_panic B bucket k v s = Inr s'" and "bolt_laws B"
  shows "s' = s\<lparr>DataBase := DataBase s'\<rparr> \<and>
    (\<forall>b' k'. Get B (DataBase s') b' k' = (if b' = bucket \<and> k' = k then Some v else Get B (DataBase s) b' k'))"
  using assms by (auto simp: put_or_panic_def bolt_laws_def split: option.splits)

lemma put_or_panic_buckets:
  assumes "put_or_panic B bucket k v s = Inr s'"
  shows "blockBucket s' = blockBucket s" "blockHeaderBucket s' = blockHeaderBucket s"
    "newestBlockHashBucket s' = newestBlockHashBucket s" "storage_inv s' = storage_inv s"
  using assms by (auto simp: put_or_panic_def storage_inv_def split: option.splits)

lemmas storage_write_defs = AddBlock_def AddBlockHeader_def UpdateNewestBlockHash_def bindP_eq_Inr_iff

lemma AddBlock_get:
  assumes "AddBlock B E b s = Inr s'" and "bolt_laws B" and "storage_inv s"
  shows "storage_inv s'" and "blockBucket s' = blockBucket s"
    and "Get B (DataBase s') (blockBucket s') h =
      (if h = b_Hash b then Some (enc_block E b) else Get B (DataBase s) (blockBucket s) h)"
    and "Get B (DataBase s') (blockHeaderBucket s') h =
      (if h = b_Hash b then Some (enc_header E (Header b)) else Get B (DataBase s) (blockHeaderBucket s) h)"
    and "GetNewestBlockHash B s' = Some (b_Hash b)"
proof -
  obtain s1 s2 where s:
      "put_or_panic B (blockBucket s) (b_Hash b) (enc_block E b) s = Inr s1"
      "put_or_panic B (blockHeaderBucket s1) (b_Hash b) (enc_header E (Header b)) s1 = Inr s2"
      "put_or_panic B (newestBlockHashBucket s2) newest_key (b_Hash b) s2 = Inr s'"
    using assms(1) by (auto simp: storage_write_defs)
  note b = put_or_panic_buckets [OF s(1)] put_or_panic_buckets [OF s(2)] put_or_panic_buckets [OF s(3)]
  note p = put_or_panic_Inr [OF s(1) assms(2)] put_or_panic_Inr [OF s(2) assms(2)]
    put_or_panic_Inr [OF s(3) assms(2)]
  have d: "blockBucket s \<noteq> blockHeaderBucket s" "blockBucket s \<noteq> newestBlockHashBucket s"
    "blockHeaderBucket s \<noteq> newestBlockHashBucket s"
    using assms(3) by (auto simp: storage_inv_def)
  show "storage_inv s'" "blockBucket s' = blockBucket s" using b assms(3) by simp_all
  show "Get B (DataBase s') (blockBucket s') h =
      (if h = b_Hash b then Some (enc_block E b) else Get B (DataBase s) (blockBucket s) h)"
    using b p d by simp
  show "Get B (DataBase s') (blockHeaderBucket s') h =
      (if h = b_Hash b then Some (enc_header E (Header b)) else Get B (DataBase s) (blockHeaderBucket s) h)"
    using b p d by simp
  show "GetNewestBlockHash B s' = Some (b_Hash b)"
    using b p d by (simp add: GetNewestBlockHash_def)
qed

text \<open>
  C26: after \<open>AddBlock\<close> the block and its header are read back under the block's hash, the hash
  is the newest one, and every block stored under another hash is still read as before.
\<close>

theorem storage_roundtrip:
  assumes "AddBlock B E b s = Inr s'" and "bolt_laws B" and "storage_inv s" and "codec_roundtrip E b"
  shows "GetBlock B E (b_Hash b) s' = (b, True) \<and>
    GetBlockHeader B E (b_Hash b) s' = (Header b, True) \<and>
    GetNewestBlockHash B s' = Some (b_Hash b) \<and>
    (\<forall>h. h \<noteq> b_Hash b \<longrightarrow> GetBlock B E h s' = GetBlock B E h s)"
  using AddBlock_get [OF assms(1-3)] assms(4)
  by (simp add: GetBlock_def GetBlockHeader_def codec_roundtrip_def)

text \<open>A database for concrete runs: an association list of (bucket, key) pairs.\<close>

definition list_bolt :: "((string \<times> bytes) \<times> bytes) list bolt" where
  "list_bolt =
     \<lparr>CreateBucket = (\<lambda>db b. Some db),
      Put = (\<lambda>db b k v. if k = [] then None else Some (((b, k), v) # db)),
      Get = (\<lambda>db b k. map_of db (b, k))\<rparr>"

lemma list_bolt_laws: "bolt_laws list_bolt"
  by (auto simp: bolt_laws_def list_bolt_def fun_eq_iff split: if_splits)

text \<open>A codec for concrete runs: the hash stands for the block or header listed in a table.\<close>

definition table_codec :: "block list \<Rightarrow> codec" where
  "table_codec bs =
     \<lparr>enc_block = b_Hash, dec_block = (\<lambda>e. List.find (\<lambda>b. b_Hash b = e) bs),
      enc_header = (\<lambda>h. TxRoot h @ StateRoot h),
      dec_header = (\<lambda>e. map_option Header
        (List.find (\<lambda>b. TxRoot (Header b) @ StateRoot (Header b) = e) bs))\<rparr>"

definition example_block :: "string \<Rightarrow> int \<Rightarrow> block" where
  "example_block name height =
     \<lparr>Header = zero_header\<lparr>Height := height, TxRoot := name\<rparr>, Transactions = [], b_Hash = name\<rparr>"

definition example_storage :: "((string \<times> bytes) \<times> bytes) list storage" where
  "example_storage =
     (case NewStorage list_bolt ''/data'' StatNotExist True (\<lambda>_. Some []) (\<lambda>_. ''0'') 0 0 of Inr s \<Rightarrow> s)"

lemma example_storage_inv: "storage_inv example_storage"
  by (simp add: example_storage_def NewStorage_def list_bolt_def storage_inv_def Let_def)

theorem storage_roundtrip_witness:
  "\<exists>s'. AddBlock list_bolt (table_codec [example_block ''A'' 1]) (example_block ''A'' 1) example_storage = Inr s' \<and>
     GetBlock list_bolt (table_codec [example_block ''A'' 1]) ''A'' s' = (example_block ''A'' 1, True)"
proof -
  let ?E = "table_codec [example_block ''A'' 1]" and ?b = "example_block ''A'' 1"
  obtain s' where s': "AddBlock list_bolt ?E ?b example_storage = Inr s'"
    by (simp add: storage_write_defs put_or_panic_def list_bolt_def table_codec_def example_block_def
        newest_key_def)
  have E: "codec_roundtrip ?E ?b"
    by (simp add: codec_roundtrip_def table_codec_def example_block_def)
  have h: "b_Hash ?b = ''A''" by (simp add: example_block_def)
  from storage_roundtrip [OF s' list_bolt_laws example_storage_inv E] s' show ?thesis
    by (simp add: h)
qed

end
