(* ===== verification/GoFloat.thy ===== *)
theory GoFloat
  imports Prelude
begin

text \<open>
  The \<open>float64\<close> arithmetic the configuration uses: multiplying a ratio by a node count and
  truncating the product to an integer.  A finite \<open>float64\<close> is a mantissa of at most 53
  bits and a binary exponent; multiplication and the conversion from an integer are exact
  followed by one rounding to the nearest representable value, ties to even (IEEE 754).  The
  exponent range (overflow, subnormals), infinities and NaN are left out: ratios lie between
  0 and 1 and counts are small.
\<close>

record f64 =
  mant :: int
  expo :: int

function bitlen :: "nat \<Rightarrow> nat" where
  "bitlen n = (if n = 0 then 0 else Suc (bitlen (n div 2)))"
  by pat_completeness auto
termination
  by (relation "measure id") auto

declare bitlen.simps [simp del]

text \<open>Division by \<open>2^k\<close>, rounding to nearest, ties to even; for \<open>0 < k\<close>.\<close>

definition rne :: "int \<Rightarrow> nat \<Rightarrow> int" where
  "rne m k =
     (let q = m div 2 ^ k; r = m mod 2 ^ k; half = 2 ^ (k - 1)
      in if r < half \<or> (r = half \<and> even q) then q else q + 1)"

definition round53 :: "int \<Rightarrow> int \<Rightarrow> f64" where
  "round53 m e =
     (let k = bitlen (nat \<bar>m\<bar>) - 53
      in if k = 0 then \<lparr>mant = m, expo = e\<rparr>
         else \<lparr>mant = rne m k, expo = e + int k\<rparr>)"

definition f64_of_int :: "int \<Rightarrow> f64" where
  "f64_of_int n = round53 n 0"

definition f64_mul :: "f64 \<Rightarrow> f64 \<Rightarrow> f64" where
  "f64_mul x y = round53 (mant x * mant y) (expo x + expo y)"

text \<open>Conversion to an integer type truncates towards zero.\<close>

definition f64_to_int :: "f64 \<Rightarrow> int" where
  "f64_to_int x =
     (if 0 \<le> expo x then mant x * 2 ^ nat (expo x) else mant x sdiv 2 ^ nat (- expo x))"

text \<open>Subtraction and comparison bring both numbers to the smaller exponent first.\<close>

definition align :: "f64 \<Rightarrow> int \<Rightarrow> int" where
  "align x e = mant x * 2 ^ nat (expo x - e)"

definition f64_sub :: "f64 \<Rightarrow> f64 \<Rightarrow> f64" where
  "f64_sub x y = (let e = min (expo x) (expo y) in round53 (align x e - align y e) e)"

definition f64_less :: "f64 \<Rightarrow> f64 \<Rightarrow> bool" where
  "f64_less x y \<longleftrightarrow> (let e = min (expo x) (expo y) in align x e < align y e)"

definition f64_unit :: "f64 \<Rightarrow> bool" where
  "f64_unit x \<longleftrightarrow> 0 \<le> mant x \<and> expo x \<le> 0 \<and> mant x \<le> 2 ^ nat (- expo x)"

text \<open>The \<open>float64\<close> values of the constants \<open>1./3\<close> and \<open>1./2\<close>.\<close>

definition one_third :: f64 where
  "one_third = \<lparr>mant = 6004799503160661, expo = - 54\<rparr>"

definition one_half :: f64 where
  "one_half = \<lparr>mant = 1, expo = - 1\<rparr>"

lemma less_exp_bitlen: "n < 2 ^ bitlen n"
proof (induction n rule: bitlen.induct)
  case (1 n)
  show ?case
  proof (cases "n = 0")
    case False
    with 1 have "n div 2 < 2 ^ bitlen (n div 2)" by simp
    then have "n < 2 * 2 ^ bitlen (n div 2)" by linarith
    with False show ?thesis by (simp add: bitlen.simps [of n])
  qed (simp add: bitlen.simps)
qed

lemma exp_bitlen_le: "0 < n \<Longrightarrow> 2 ^ (bitlen n - 1) \<le> n"
proof (induction n rule: bitlen.induct)
  case (1 n)
  show ?case
  proof (cases "n div 2 = 0")
    case True
    with 1 show ?thesis by (simp add: bitlen.simps [of n] bitlen.simps [of 0])
  next
    case False
    with 1 have "2 ^ (bitlen (n div 2) - 1) \<le> n div 2" by simp
    then have "2 * 2 ^ (bitlen (n div 2) - 1) \<le> n" by linarith
    moreover have "bitlen (n div 2) \<noteq> 0" using False by (simp add: bitlen.simps [of "n div 2"])
    ultimately show ?thesis
      using False 1 by (simp add: bitlen.simps [of n] power_eq_if)
  qed
qed

lemma bitlen_le: "n < 2 ^ k \<Longrightarrow> bitlen n \<le> k"
proof (rule ccontr)
  assume n: "n < 2 ^ k" and "\<not> bitlen n \<le> k"
  then have k: "k \<le> bitlen n - 1" and "0 < n"
    by (auto simp: bitlen.simps [of 0] intro: Nat.gr0I)
  have "(2::nat) ^ k \<le> 2 ^ (bitlen n - 1)" using k by simp
  also have "\<dots> \<le> n" using \<open>0 < n\<close> by (rule exp_bitlen_le)
  finally show False using n by simp
qed

lemma rne_nonneg: "0 \<le> m \<Longrightarrow> 0 \<le> rne m k"
  by (simp add: rne_def Let_def pos_imp_zdiv_nonneg_iff)

lemma int_div_less:
  assumes "m < c * b" and "0 < (b::int)"
  shows "m div b < c"
proof (rule ccontr)
  assume "\<not> m div b < c"
  then have "c * b \<le> m div b * b" using assms(2) by (intro mult_right_mono) simp_all
  also have "\<dots> \<le> m" using assms(2) by (simp add: minus_mod_eq_div_mult [symmetric])
  finally show False using assms(1) by simp
qed

lemma rne_le:
  assumes "m \<le> c * 2 ^ k" and "0 < k"
  shows "rne m k \<le> c"
proof (cases "m = c * 2 ^ k")
  case True
  then show ?thesis by (simp add: rne_def)
next
  case False
  with assms have "m < c * 2 ^ k" by simp
  then have "m div 2 ^ k < c" by (rule int_div_less) simp
  then show ?thesis by (simp add: rne_def Let_def)
qed

lemma f64_of_int_small: "0 \<le> n \<Longrightarrow> n < 2 ^ 53 \<Longrightarrow> f64_of_int n = \<lparr>mant = n, expo = 0\<rparr>"
  using bitlen_le [of "nat n" 53]
  by (simp add: f64_of_int_def round53_def nat_less_iff)

text \<open>Scaling a count by a ratio of at most 1 rounds to at most the count.\<close>

lemma f64_scale_bounds:
  assumes x: "f64_unit x" and n: "0 \<le> n" "n < 2 ^ 53"
  shows "0 \<le> f64_to_int (f64_mul x (f64_of_int n))"
    and "f64_to_int (f64_mul x (f64_of_int n)) \<le> n"
proof -
  define d where "d = nat (- expo x)"
  define p where "p = mant x * n"
  have e: "expo x = - int d" and m: "0 \<le> mant x" "mant x \<le> 2 ^ d"
    using x by (simp_all add: f64_unit_def d_def)
  have p0: "0 \<le> p" and pn: "p \<le> n * 2 ^ d"
    using m n mult_right_mono [of "mant x" "2 ^ d" n] by (simp_all add: p_def ac_simps)
  have "p < 2 ^ (d + 53)"
  proof -
    have "n * 2 ^ d < 2 ^ 53 * (2::int) ^ d" using n by (intro mult_strict_right_mono) simp_all
    also have "\<dots> = 2 ^ (d + 53)" by (simp add: power_add)
    finally show ?thesis using pn by (rule order_le_less_trans [rotated])
  qed
  then have "bitlen (nat p) \<le> d + 53" using p0 by (intro bitlen_le) (simp add: nat_less_iff)
  define k where "k = bitlen (nat p) - 53"
  have kd: "k \<le> d" using \<open>bitlen (nat p) \<le> d + 53\<close> by (simp add: k_def)
  define q where "q = (if k = 0 then p else rne p k)"
  have q0: "0 \<le> q" using p0 by (simp add: q_def rne_nonneg)
  have pk: "p \<le> (n * 2 ^ (d - k)) * 2 ^ k"
    using pn kd by (simp add: mult.assoc flip: power_add)
  have qn: "q \<le> n * 2 ^ (d - k)"
  proof (cases "k = 0")
    case False
    then show ?thesis using rne_le [OF pk] by (simp add: q_def)
  qed (use pn in \<open>simp add: q_def\<close>)
  have r: "f64_mul x (f64_of_int n) = \<lparr>mant = q, expo = - int (d - k)\<rparr>"
    using n p0 kd
    by (auto simp: f64_mul_def f64_of_int_small round53_def Let_def e p_def [symmetric]
        k_def [symmetric] q_def of_nat_diff)
  have t: "f64_to_int (f64_mul x (f64_of_int n)) = q div 2 ^ (d - k)"
    using q0 by (auto simp: r f64_to_int_def sdiv_pos_eq_div nat_minus_as_int)
  show "0 \<le> f64_to_int (f64_mul x (f64_of_int n))"
    using q0 by (simp add: t pos_imp_zdiv_nonneg_iff)
  have "q div 2 ^ (d - k) \<le> (n * 2 ^ (d - k)) div 2 ^ (d - k)"
    using qn by (rule zdiv_mono1) simp
  then show "f64_to_int (f64_mul x (f64_of_int n)) \<le> n" by (simp add: t)
qed

lemma f64_unit_examples: "f64_unit one_third" "f64_unit one_half" "f64_unit \<lparr>mant = 0, expo = 0\<rparr>"
  by (simp_all add: f64_unit_def one_third_def one_half_def)

text \<open>The product of the rounded third and 3 rounds up to exactly 1.\<close>

lemma one_third_of: "f64_to_int (f64_mul one_third (f64_of_int 3)) = 1"
    "f64_to_int (f64_mul one_third (f64_of_int 4)) = 1"
  by (simp_all add: f64_to_int_def f64_mul_def f64_of_int_def round53_def one_third_def rne_def
      bitlen.simps signed_divide_int_def)

end
