(* ===== verification/Config.thy ===== *)
theory Config
  imports GoFloat
begin

text \<open>
  The configuration (config/): the package-level variables as one record, the command-line
  arguments, \<open>InitConfig\<close> with the construction of the address table \<open>IPMap\<close>, and
  \<open>LoadConfig\<close>, which overlays the optional fields of a JSON file.  Counts, identifiers and
  ports are mathematical integers; the file system and the JSON parser are arguments.
\<close>

record config =
  ViewNodeId :: int
  ClientShard :: int
  StoragePath :: string
  ResultPath :: string
  LogPath :: string
  StartPort :: int
  ClientAddr :: string
  FileInput :: string
  DemoServerURL :: string
  NodePerServer :: int
  ServerAddrs :: "string list"
  StartTimeWait :: int
  TickInterval :: int
  BlockSize :: int
  ConsensusMethod :: string
  NodeNum :: int
  ShardNum :: int
  LogLevel :: string
  cfg_TxType :: string
  MaliciousRatio :: f64
  ResilientRatio :: f64
  IsMalicious :: bool
  IsDistributed :: bool
  ConnectRemoteDemo :: bool
  TxInjectCount :: int
  TxInjectSpeed :: int
  TxVerifyTime :: bool
  OriginShards :: int  \<comment> \<open>the variable K of config/cshard.go\<close>
  IPMap :: "int \<rightharpoonup> (int \<rightharpoonup> string)"

record args =
  arg_NodeID :: int
  arg_NodeNum :: int
  arg_ShardID :: int
  arg_ShardNum :: int
  arg_BlockSize :: int
  arg_IsClient :: bool
  arg_IsDistribute :: bool
  arg_MaliciousRatio :: f64
  arg_ResilientRatio :: f64
  arg_IsMalicious :: bool
  arg_ConsensusMethod :: string
  arg_TxType :: string
  arg_LogLevel :: string
  arg_ConnetRemoteDemo :: bool
  arg_TxInjectCount :: int
  arg_TxInjectSpeed :: int

section \<open>Decimal numerals: strconv.Itoa\<close>

definition digit :: "nat \<Rightarrow> char" where
  "digit d = char_of (48 + d)"

function digits :: "nat \<Rightarrow> string" where
  "digits n = (if n < 10 then [digit n] else digits (n div 10) @ [digit (n mod 10)])"
  by pat_completeness auto
termination
  by (relation "measure id") auto

declare digits.simps [simp del]

definition Itoa :: "int \<Rightarrow> string" where
  "Itoa n = (if n < 0 then CHR ''-'' # digits (nat (- n)) else digits (nat n))"

fun undigits :: "nat \<Rightarrow> string \<Rightarrow> nat" where
  "undigits acc [] = acc"
| "undigits acc (c # cs) = undigits (acc * 10 + (of_char c - 48)) cs"

lemma undigits_append: "undigits acc (xs @ ys) = undigits (undigits acc xs) ys"
  by (induction xs arbitrary: acc) simp_all

lemma of_char_digit: "d < 10 \<Longrightarrow> of_char (digit d) = (48 + d :: nat)"
  by (simp add: digit_def of_char_of)

lemma undigits_digits: "undigits 0 (digits n) = n"
proof (induction n rule: digits.induct)
  case (1 n)
  show ?case
  proof (cases "n < 10")
    case True
    then show ?thesis by (simp add: digits.simps [of n] of_char_digit)
  next
    case False
    with 1 have "undigits 0 (digits (n div 10)) = n div 10" by simp
    with False show ?thesis
      by (simp add: digits.simps [of n] undigits_append of_char_digit)
  qed
qed

lemma hd_digits: "hd (digits n) \<noteq> CHR ''-'' \<and> digits n \<noteq> []"
proof (induction n rule: digits.induct)
  case (1 n)
  have "digit d \<noteq> CHR ''-''" if "d < 10" for d
    using of_char_digit [OF that] by (auto simp: of_char_def)
  with 1 show ?case
    by (cases "n < 10") (simp_all add: digits.simps [of n])
qed

definition Atoi :: "string \<Rightarrow> int" where
  "Atoi s = (if hd s = CHR ''-'' then - int (undigits 0 (tl s)) else int (undigits 0 s))"

lemma Atoi_Itoa: "Atoi (Itoa n) = n"
  using hd_digits [of "nat n"] by (simp add: Atoi_def Itoa_def undigits_digits)

lemma Itoa_inj: "Itoa m = Itoa n \<Longrightarrow> m = n"
  by (metis Atoi_Itoa)

section \<open>InitConfig\<close>

text \<open>\<open>if _, ok := IPMap[i]; !ok { IPMap[i] = make(map[int]string) }\<close>\<close>

definition ensure_shard :: "int \<Rightarrow> (int \<rightharpoonup> (int \<rightharpoonup> string)) \<Rightarrow> (int \<rightharpoonup> (int \<rightharpoonup> string))" where
  "ensure_shard i m = (case m i of None \<Rightarrow> m(i \<mapsto> Map.empty) | Some _ \<Rightarrow> m)"

definition set_ip :: "int \<Rightarrow> int \<Rightarrow> string \<Rightarrow> (int \<rightharpoonup> (int \<rightharpoonup> string)) \<Rightarrow> (int \<rightharpoonup> (int \<rightharpoonup> string))" where
  "set_ip i j ip m = m(i \<mapsto> (the (m i))(j \<mapsto> ip))"

definition local_addr :: "int \<Rightarrow> int \<Rightarrow> int \<Rightarrow> string" where
  "local_addr startPort i j = ''127.0.0.1:'' @ Itoa (startPort + 100 * i + j)"

definition init_local :: "config \<Rightarrow> (int \<rightharpoonup> (int \<rightharpoonup> string)) \<Rightarrow> (int \<rightharpoonup> (int \<rightharpoonup> string))" where
  "init_local c m =
     fold (\<lambda>i m. fold (\<lambda>j m. set_ip i j (local_addr (StartPort c) i j) m)
                   [0..NodeNum c - 1] (ensure_shard i m))
       [0..ShardNum c - 1] m"

definition IPList :: "config \<Rightarrow> string list" where
  "IPList c = concat (map (\<lambda>srv. map (\<lambda>j. srv @ '':'' @ Itoa (StartPort c + j)) [0..NodePerServer c - 1])
                        (ServerAddrs c))"

fun foldP :: "('a \<Rightarrow> 's \<Rightarrow> panic + 's) \<Rightarrow> 'a list \<Rightarrow> 's \<Rightarrow> panic + 's" where
  "foldP f [] s = Inr s"
| "foldP f (x # xs) s = bindP (f x s) (foldP f xs)"

definition ip_at :: "string list \<Rightarrow> int \<Rightarrow> panic + string" where
  "ip_at ips k = (if 0 \<le> k \<and> k < int (length ips) then Inr (ips ! nat k) else Inl IndexOutOfRange)"

definition init_distributed ::
  "config \<Rightarrow> (int \<rightharpoonup> (int \<rightharpoonup> string)) \<Rightarrow> panic + (int \<rightharpoonup> (int \<rightharpoonup> string))" where
  "init_distributed c m =
     foldP (\<lambda>i m. foldP (\<lambda>j m. bindP (ip_at (IPList c) (i * NodeNum c + j)) (\<lambda>ip. Inr (set_ip i j ip m)))
                   [0..NodeNum c - 1] (ensure_shard i m))
       [0..ShardNum c - 1] m"

definition InitConfig :: "args \<Rightarrow> config \<Rightarrow> panic + (args \<times> config)" where
  "InitConfig a c =
     (let c = c\<lparr>NodeNum := arg_NodeNum a, ShardNum := arg_ShardNum a,
                BlockSize := arg_BlockSize a, IsDistributed := arg_IsDistribute a,
                ConsensusMethod := arg_ConsensusMethod a,
                MaliciousRatio := arg_MaliciousRatio a, ResilientRatio := arg_ResilientRatio a,
                IsMalicious := arg_IsMalicious a, ConnectRemoteDemo := arg_ConnetRemoteDemo a,
                cfg_TxType := arg_TxType a, LogLevel := arg_LogLevel a,
                TxInjectCount := arg_TxInjectCount a, TxInjectSpeed := arg_TxInjectSpeed a\<rparr>;
          a = (if arg_IsClient a then a\<lparr>arg_ShardID := ClientShard c, arg_NodeID := 0\<rparr> else a)
      in bindP (if \<not> IsDistributed c then Inr (init_local c (IPMap c))
                else init_distributed c (IPMap c))
         (\<lambda>m. Inr (a, c\<lparr>IPMap := m(ClientShard c \<mapsto> [0 \<mapsto> ClientAddr c])\<rparr>)))"

text \<open>The address of a node, where the table has one.\<close>

definition node_ip :: "config \<Rightarrow> int \<Rightarrow> int \<Rightarrow> string option" where
  "node_ip c i j = (case IPMap c i of None \<Rightarrow> None | Some m \<Rightarrow> m j)"

text \<open>
  The values of the package variables before the flags are applied; the two constants
  \<open>1./3\<close> and \<open>1./2\<close> are their \<open>float64\<close> values.
\<close>

definition default_config :: config where
  "default_config =
     \<lparr>ViewNodeId = 0, ClientShard = 0xfffffff, StoragePath = ''./blockchain_data/'',
      ResultPath = ''./result/'', LogPath = ''./log/'', StartPort = 28800, ClientAddr = ''127.0.0.1:23333'',
      FileInput = ''/home/pjj/Desktop/BlockChain/dataset/0to99999_Transaction.csv'',
      DemoServerURL = ''192.168.80.1:23333'', NodePerServer = 40,
      ServerAddrs =
       [''192.168.0.1'', ''192.168.0.245'', ''192.168.0.251'', ''192.168.0.243'', ''192.168.0.246'', ''192.168.0.8'',
        ''192.168.0.250'', ''192.168.0.252'', ''192.168.0.249'', ''192.168.0.5'', ''192.168.0.244'', ''192.168.0.11'',
        ''192.168.0.247'', ''192.168.0.4'', ''192.168.0.6'', ''192.168.0.14'', ''192.168.0.2'', ''192.168.0.10'',
        ''192.168.0.12'', ''192.168.0.248'', ''192.168.0.15'', ''192.168.0.7'', ''192.168.0.3'', ''192.168.0.9'',
        ''192.168.0.13''],
      StartTimeWait = 1000, TickInterval = 1000, BlockSize = 500, ConsensusMethod = [],
      NodeNum = 4, ShardNum = 1, LogLevel = ''INFO'', cfg_TxType = [],
      MaliciousRatio = one_third, ResilientRatio = one_half, IsMalicious = False, IsDistributed = False,
      ConnectRemoteDemo = False, TxInjectCount = 80000, TxInjectSpeed = 4000, TxVerifyTime = True,
      OriginShards = 0, IPMap = Map.empty\<rparr>"

section \<open>LoadConfig\<close>

record ext_config =
  x_ViewNodeId :: "int option"
  x_ClientShard :: "int option"
  x_StoragePath :: "string option"
  x_ResultPath :: "string option"
  x_LogPath :: "string option"
  x_StartPort :: "int option"
  x_ClientAddr :: "string option"
  x_FileInput :: "string option"
  x_DemoServerURL :: "string option"
  x_NodePerServer :: "int option"
  x_ServerAddrs :: "string list option"
  x_StartTimeWait :: "int option"
  x_TickInterval :: "int option"

definition keep :: "'a option \<Rightarrow> 'a \<Rightarrow> 'a" where
  [go_defs]: "keep x old = (case x of None \<Rightarrow> old | Some v \<Rightarrow> v)"

definition apply_ext :: "ext_config \<Rightarrow> config \<Rightarrow> config" where
  "apply_ext x c =
     c\<lparr>ViewNodeId := keep (x_ViewNodeId x) (ViewNodeId c),
       ClientShard := keep (x_ClientShard x) (ClientShard c),
       StoragePath := keep (x_StoragePath x) (StoragePath c),
       ResultPath := keep (x_ResultPath x) (ResultPath c),
       LogPath := keep (x_LogPath x) (LogPath c),
       StartPort := keep (x_StartPort x) (StartPort c),
       ClientAddr := keep (x_ClientAddr x) (ClientAddr c),
       FileInput := keep (x_FileInput x) (FileInput c),
       DemoServerURL := keep (x_DemoServerURL x) (DemoServerURL c),
       NodePerServer := keep (x_NodePerServer x) (NodePerServer c),
       ServerAddrs := (case x_ServerAddrs x of None \<Rightarrow> ServerAddrs c
                       | Some l \<Rightarrow> if length l > 0 then l else ServerAddrs c),
       StartTimeWait := keep (x_StartTimeWait x) (StartTimeWait c),
       TickInterval := keep (x_TickInterval x) (TickInterval c)\<rparr>"

definition LoadConfig ::
  "(string \<Rightarrow> bool) \<Rightarrow> (string \<Rightarrow> bytes option) \<Rightarrow> (bytes \<Rightarrow> ext_config option) \<Rightarrow> config \<Rightarrow> config" where
  "LoadConfig exists read_file unmarshal c =
     (case find exists [''./config.json'', ''../config.json''] of
        None \<Rightarrow> c
      | Some path \<Rightarrow>
          (case read_file path of
             None \<Rightarrow> c
           | Some data \<Rightarrow>
               (case unmarshal data of
                  None \<Rightarrow> c
                | Some x \<Rightarrow> apply_ext x c)))"

section \<open>Derived fault thresholds\<close>

text \<open>\<open>int64(config.MaliciousRatio * float64(config.NodeNum))\<close>\<close>

definition maliciousNodes :: "config \<Rightarrow> int" where
  "maliciousNodes c = f64_to_int (f64_mul (MaliciousRatio c) (f64_of_int (NodeNum c)))"

text \<open>\<open>t1\<close> and \<open>t2\<close> of the TBB protocol.\<close>

definition t1 :: "config \<Rightarrow> int" where
  "t1 c = f64_to_int (f64_mul (f64_of_int (NodeNum c)) (ResilientRatio c)) - 1"

definition t2 :: "config \<Rightarrow> int" where
  "t2 c = NodeNum c - 1"

lemma f64_mul_commute: "f64_mul x y = f64_mul y x"
  by (simp add: f64_mul_def ac_simps)

lemma threshold_bound_facts:
  assumes "f64_unit (MaliciousRatio c)" and "f64_unit (ResilientRatio c)"
    and "0 \<le> NodeNum c" and "NodeNum c < 2 ^ 53"
  shows "0 \<le> maliciousNodes c \<and> maliciousNodes c \<le> NodeNum c \<and> - 1 \<le> t1 c \<and> t1 c \<le> t2 c"
  using f64_scale_bounds [OF assms(1,3,4)] f64_scale_bounds [OF assms(2,3,4)]
  by (simp add: maliciousNodes_def t1_def t2_def f64_mul_commute [of "f64_of_int (NodeNum c)"])

text \<open>
  With ratios between 0 and 1 the fault threshold lies between 0 and the number of
  nodes, and the TBB thresholds satisfy \<open>-1 <= t1 <= t2\<close>, whatever the rounding.
\<close>

theorem threshold_bounds:
  assumes "f64_unit (MaliciousRatio c)" and "f64_unit (ResilientRatio c)"
    and "0 \<le> NodeNum c" and "NodeNum c < 2 ^ 53"
  shows "0 \<le> maliciousNodes c \<and> maliciousNodes c \<le> NodeNum c \<and> - 1 \<le> t1 c \<and> t1 c \<le> t2 c"
  by (rule threshold_bound_facts [OF assms])

section \<open>The address table\<close>

lemma fold_set_ip:
  "fold (\<lambda>j m. set_ip i j (f j) m) js m i' =
     (if i' = i \<and> js \<noteq> [] then Some (\<lambda>j. if j \<in> set js then Some (f j) else the (m i) j) else m i')"
proof (induction js arbitrary: m)
  case (Cons j js)
  show ?case
    by (subst fold_Cons, subst comp_apply, subst Cons.IH) (auto simp: set_ip_def fun_eq_iff)
qed simp

lemma ensure_shard_lookup: "ensure_shard i m i' = (if i' = i \<and> m i = None then Some Map.empty else m i')"
  by (simp add: ensure_shard_def split: option.split)

lemma init_local_fold:
  assumes "js \<noteq> []"
  shows "fold (\<lambda>i m. fold (\<lambda>j m. set_ip i j (f i j) m) js (ensure_shard i m)) is m i' =
     (if i' \<in> set is
      then Some (\<lambda>j. if j \<in> set js then Some (f i' j) else (case m i' of None \<Rightarrow> None | Some r \<Rightarrow> r j))
      else m i')"
proof (induction "is" arbitrary: m)
  case (Cons i "is")
  show ?case
    using assms
    by (subst fold_Cons, subst comp_apply, subst Cons.IH)
       (auto simp: fold_set_ip ensure_shard_lookup fun_eq_iff split: option.splits)
qed simp

lemma node_ip_local:
  assumes "InitConfig a c = Inr (a', c')" and "\<not> arg_IsDistribute a"
    and "0 \<le> i" "i < arg_ShardNum a" "0 \<le> j" "j < arg_NodeNum a" and "i \<noteq> ClientShard c"
  shows "node_ip c' i j = Some (local_addr (StartPort c) i j)"
proof -
  have "[0..arg_NodeNum a - 1] \<noteq> []" using assms by (simp add: upto_Nil2)
  with assms show ?thesis
    by (auto simp: InitConfig_def Let_def init_local_def init_local_fold node_ip_def)
qed

lemma local_addr_inj: "local_addr p i j = local_addr p i' j' \<Longrightarrow> 100 * i + j = 100 * i' + j'"
  using Itoa_inj by (fastforce simp: local_addr_def)

lemma hundreds:
  fixes i j i' j' :: int
  assumes "100 * i + j = 100 * i' + j'" and "0 \<le> j" "j < 100" "0 \<le> j'" "j' < 100"
  shows "i = i' \<and> j = j'"
proof -
  have "i = (100 * i + j) div 100" and "i' = (100 * i' + j') div 100"
    using assms(2-) by simp_all
  with assms(1) have "i = i'" by simp
  with assms(1) show ?thesis by simp
qed

text \<open>
  C38: in the local environment every node of every shard has an address after
  \<open>InitConfig\<close>, and with at most 100 nodes per shard, as the comment in the code assumes, no
  two nodes share one.
\<close>

theorem local_addresses_distinct:
  assumes "InitConfig a c = Inr (a', c')" and "\<not> arg_IsDistribute a"
    and "arg_ShardNum a \<le> ClientShard c" and "arg_NodeNum a \<le> 100"
    and "0 \<le> i" "i < arg_ShardNum a" "0 \<le> j" "j < arg_NodeNum a"
    and "0 \<le> i'" "i' < arg_ShardNum a" "0 \<le> j'" "j' < arg_NodeNum a"
  shows "\<exists>ip. node_ip c' i j = Some ip \<and> (node_ip c' i' j' = Some ip \<longleftrightarrow> i = i' \<and> j = j')"
proof -
  have 1: "node_ip c' i j = Some (local_addr (StartPort c) i j)"
    using assms by (intro node_ip_local [of a c a']) simp_all
  have 2: "node_ip c' i' j' = Some (local_addr (StartPort c) i' j')"
    using assms by (intro node_ip_local [of a c a']) simp_all
  have "j < 100" and "j' < 100" using assms by simp_all
  then have "local_addr (StartPort c) i' j' = local_addr (StartPort c) i j \<longleftrightarrow> i = i' \<and> j = j'"
    using hundreds [of i j i' j'] assms(7,11) local_addr_inj [of "StartPort c" i' j' i j] by metis
  with 1 2 show ?thesis by simp
qed

text \<open>A small configuration, for the witnesses.\<close>

definition example_config :: config where
  "example_config =
     \<lparr>ViewNodeId = 0, ClientShard = 268435455, StoragePath = ''./blockchain_data/'',
      ResultPath = ''./result/'', LogPath = ''./log/'', StartPort = 28800,
      ClientAddr = ''127.0.0.1:23333'', FileInput = [], DemoServerURL = [],
      NodePerServer = 40, ServerAddrs = [''192.168.0.1'', ''192.168.0.245''],
      StartTimeWait = 1000, TickInterval = 1000, BlockSize = 500, ConsensusMethod = ''TBB'',
      NodeNum = 4, ShardNum = 1, LogLevel = ''INFO'', cfg_TxType = ''UTXO'',
      MaliciousRatio = \<lparr>mant = 0, expo = 0\<rparr>, ResilientRatio = one_half,
      IsMalicious = False, IsDistributed = False, ConnectRemoteDemo = False,
      TxInjectCount = 80000, TxInjectSpeed = 4000, TxVerifyTime = True, OriginShards = 0,
      IPMap = Map.empty\<rparr>"

definition example_args :: args where
  "example_args =
     \<lparr>arg_NodeID = 0, arg_NodeNum = 4, arg_ShardID = 0, arg_ShardNum = 2, arg_BlockSize = 500,
      arg_IsClient = False, arg_IsDistribute = False, arg_MaliciousRatio = one_third,
      arg_ResilientRatio = one_half, arg_IsMalicious = False, arg_ConsensusMethod = ''TBB'',
      arg_TxType = ''UTXO'', arg_LogLevel = ''INFO'', arg_ConnetRemoteDemo = False,
      arg_TxInjectCount = 80000, arg_TxInjectSpeed = 4000\<rparr>"

theorem threshold_bounds_witness:
  "maliciousNodes example_config \<le> 4 \<and> t1 example_config \<le> 3"
  using threshold_bounds [of example_config] f64_unit_examples
  by (simp add: example_config_def t2_def)

theorem local_addresses_distinct_witness:
  "\<exists>a' c' ip. InitConfig example_args example_config = Inr (a', c') \<and> node_ip c' 1 3 = Some ip \<and>
     node_ip c' 0 3 \<noteq> Some ip"
proof -
  obtain a' c' where *: "InitConfig example_args example_config = Inr (a', c')"
    by (simp add: InitConfig_def Let_def example_args_def)
  then have "\<exists>ip. node_ip c' 1 3 = Some ip \<and> (node_ip c' 0 3 = Some ip \<longleftrightarrow> (1::int) = 0 \<and> (3::int) = 3)"
    by (rule local_addresses_distinct) (simp_all add: example_args_def example_config_def)
  with * show ?thesis by auto
qed

end
