(* ===== verification/Shard.thy ===== *)
theory Shard
  imports Config
begin

text \<open>
  Address helpers (utils/shard.go): \<open>Addr2Shard\<close> maps the last 8 bytes of an address to a
  shard, \<open>GetNeighbours\<close> lists the other addresses of a shard, \<open>GetIP\<close> drops the port.
  The accumulator of \<open>Addr2Shard\<close> is a 64-bit \<open>int\<close>, here a word whose signed reading
  is reduced with Go's truncating \<open>%\<close>.
\<close>

unbundle bit_operations_syntax

definition shard_step :: "char \<Rightarrow> 64 word \<Rightarrow> 64 word" where
  "shard_step b num = push_bit 8 num OR of_char b"

definition go_mod :: "int \<Rightarrow> int \<Rightarrow> panic + int" where
  "go_mod a b = (if b = 0 then Inl DivideByZero else Inr (a smod b))"

definition Addr2Shard :: "config \<Rightarrow> string \<Rightarrow> panic + int" where
  "Addr2Shard c addr =
     (if length addr < 8 then Inl SliceOutOfBounds
      else
        let subaddr = drop (length addr - 8) addr;
            num = fold shard_step subaddr 0
        in if ConsensusMethod c = ''CShard'' then go_mod (sint num) (OriginShards c)
           else go_mod (sint num) (ShardNum c))"

text \<open>\<open>range\<close> over the map visits its keys in the order \<open>keys\<close>.\<close>

definition GetNeighbours :: "int list \<Rightarrow> (int \<rightharpoonup> string) \<Rightarrow> string \<Rightarrow> string list" where
  "GetNeighbours keys IPs SelfIP = filter (\<lambda>ip. ip \<noteq> SelfIP) (List.map_filter IPs keys)"

definition GetIP :: "string \<Rightarrow> string" where
  "GetIP ip = takeWhile (\<lambda>ch. ch \<noteq> CHR '':'') ip"

section \<open>The shard number is the big-endian value modulo the shard count\<close>

definition be_value :: "string \<Rightarrow> int" where
  "be_value cs = fold (\<lambda>b n. n * 256 + of_char b) cs 0"

lemma of_char_bounds: "0 \<le> (of_char b :: int)" "(of_char b :: int) < 256"
  using pos_mod_bound [of 256 "of_char b :: int"] pos_mod_sign [of 256 "of_char b :: int"]
  by simp_all

lemma uint_of_char: "uint (of_char b :: 64 word) = of_char b"
proof -
  have "(of_char b :: 64 word) = word_of_int (of_char b)" by (rule of_int_of_char [symmetric])
  then have "uint (of_char b :: 64 word) = take_bit 64 (of_char b)"
    by (simp only: uint_word_of_int_eq) simp
  also have "\<dots> = of_char b"
    using of_char_bounds [of b] by (intro take_bit_int_eq_self) simp_all
  finally show ?thesis .
qed

lemma shard_step_plus: "shard_step b num = num * 256 + of_char b"
proof -
  have "\<not> bit (of_char b :: 64 word) n" if "8 \<le> n" for n
    using that unfolding of_char_def bit_horner_sum_bit_word_iff by simp
  then have "push_bit 8 num + of_char b = push_bit 8 num OR of_char b"
    by (intro disjunctive_add) (auto simp: bit_push_bit_iff)
  then show ?thesis by (simp add: shard_step_def push_bit_eq_mult)
qed

lemma uint_shard_step:
  assumes "uint num < 2 ^ 56"
  shows "uint (shard_step b num) = uint num * 256 + of_char b"
proof -
  have "uint num * 256 + of_char b < 2 ^ 64"
    using assms of_char_bounds [of b] by simp
  then show ?thesis
    using of_char_bounds [of b]
    by (simp add: shard_step_plus uint_word_ariths uint_of_char mod_simps)
qed

lemma uint_fold_shard_step:
  assumes "uint num * 256 ^ length cs + 256 ^ length cs \<le> (2::int) ^ 64"
  shows "uint (fold shard_step cs num) = fold (\<lambda>b n. n * 256 + of_char b) cs (uint num)"
  using assms
proof (induction cs arbitrary: num)
  case (Cons b cs)
  have "(uint num + 1) * 256 * 1 \<le> (uint num + 1) * 256 * 256 ^ length cs"
    by (intro mult_left_mono) simp_all
  also have "\<dots> \<le> 2 ^ 64" using Cons.prems by (simp add: algebra_simps)
  finally have "uint num < 2 ^ 56" by simp
  then have u: "uint (shard_step b num) = uint num * 256 + of_char b" by (rule uint_shard_step)
  have "(uint num * 256 + of_char b + 1) * 256 ^ length cs \<le> (uint num * 256 + 256) * 256 ^ length cs"
    using of_char_bounds [of b] by (intro mult_right_mono) simp_all
  also have "\<dots> \<le> 2 ^ 64" using Cons.prems by (simp add: algebra_simps)
  finally have "uint (shard_step b num) * 256 ^ length cs + 256 ^ length cs \<le> 2 ^ 64"
    by (simp add: u algebra_simps)
  then show ?case by (simp add: Cons.IH u)
qed simp

lemma uint_shard_fold:
  assumes "length cs = 8"
  shows "uint (fold shard_step cs 0) = be_value cs"
  using assms by (simp add: uint_fold_shard_step be_value_def)

lemma be_fold_bounds:
  fixes n :: int
  shows "0 \<le> n \<Longrightarrow> n \<le> fold (\<lambda>b n. n * 256 + of_char b) cs n \<and>
     fold (\<lambda>b n. n * 256 + of_char b) cs n < (n + 1) * 256 ^ length cs"
proof (induction cs arbitrary: n)
  case (Cons b cs)
  let ?n = "n * 256 + of_char b"
  have n: "0 \<le> ?n" "n \<le> ?n" using Cons.prems of_char_bounds [of b] by simp_all
  have "(?n + 1) * 256 ^ length cs \<le> (n + 1) * 256 * 256 ^ length cs"
    using of_char_bounds [of b] by (intro mult_right_mono) simp_all
  also have "(n + 1) * 256 * 256 ^ length cs = (n + 1) * 256 ^ length (b # cs)" by simp
  finally have "fold (\<lambda>b n. n * 256 + of_char b) cs ?n < (n + 1) * 256 ^ length (b # cs)"
    using Cons.IH [OF n(1)] by (blast intro: order_less_le_trans)
  with Cons.IH [OF n(1)] n(2) show ?case by simp
qed simp

lemma Addr2Shard_value:
  assumes "ConsensusMethod c \<noteq> ''CShard''" and "0 < ShardNum c"
  shows "(length addr < 8 \<longrightarrow> Addr2Shard c addr = Inl SliceOutOfBounds) \<and>
    (8 \<le> length addr \<longrightarrow> of_char (addr ! (length addr - 8)) < (128 :: int) \<longrightarrow>
      (let r = be_value (drop (length addr - 8) addr) mod ShardNum c
       in Addr2Shard c addr = Inr r \<and> 0 \<le> r \<and> r < ShardNum c))"
proof (intro conjI impI)
  assume "8 \<le> length addr" and hi: "of_char (addr ! (length addr - 8)) < (128 :: int)"
  then have len: "length (drop (length addr - 8) addr) = 8" by simp
  then obtain b cs where *: "drop (length addr - 8) addr = b # cs"
    by (cases "drop (length addr - 8) addr") auto
  have "b = hd (drop (length addr - 8) addr)" by (simp add: *)
  also have "\<dots> = addr ! (length addr - 8)"
    using \<open>8 \<le> length addr\<close> by (simp add: hd_drop_conv_nth)
  finally have cs: "drop (length addr - 8) addr = b # cs" "length cs = 7" "b = addr ! (length addr - 8)"
    using len by (simp_all add: *)
  let ?w = "fold shard_step (b # cs) 0"
  have u: "uint ?w = be_value (b # cs)" using cs by (intro uint_shard_fold) simp
  have "be_value (b # cs) < (of_char b + 1) * 256 ^ 7"
    using be_fold_bounds [of "of_char b" cs] of_char_bounds [of b] cs by (simp add: be_value_def)
  also have "\<dots> \<le> 128 * 256 ^ 7" using hi cs by (intro mult_right_mono) simp_all
  finally have small: "be_value (b # cs) < 2 ^ 63" by simp
  have pos: "0 \<le> be_value (b # cs)" using u uint_ge_0 by metis
  have "sint ?w = be_value (b # cs)"
    using small pos u by (simp add: sint_uint signed_take_bit_int_eq_self)
  with assms cs pos show "let r = be_value (drop (length addr - 8) addr) mod ShardNum c
       in Addr2Shard c addr = Inr r \<and> 0 \<le> r \<and> r < ShardNum c"
    using \<open>8 \<le> length addr\<close>
    by (simp add: Addr2Shard_def Let_def go_mod_def signed_modulo_int_def sgn_if)
qed (simp add: Addr2Shard_def)

text \<open>
  C40: for an address whose eighth byte from the end is below 128 (in particular any hex or ASCII
  address) and a positive shard count, \<open>Addr2Shard\<close> returns the big-endian value of the
  last 8 bytes modulo the shard count, a valid shard number; an address shorter than 8 bytes
  panics.
\<close>

theorem Addr2Shard_correct:
  assumes "ConsensusMethod c \<noteq> ''CShard''" and "0 < ShardNum c"
  shows "(length addr < 8 \<longrightarrow> Addr2Shard c addr = Inl SliceOutOfBounds) \<and>
    (8 \<le> length addr \<longrightarrow> of_char (addr ! (length addr - 8)) < (128 :: int) \<longrightarrow>
      (let r = be_value (drop (length addr - 8) addr) mod ShardNum c
       in Addr2Shard c addr = Inr r \<and> 0 \<le> r \<and> r < ShardNum c))"
  by (rule Addr2Shard_value [OF assms])

theorem Addr2Shard_correct_witness:
  "Addr2Shard (example_config\<lparr>ShardNum := 4\<rparr>) ''addr'' = Inl SliceOutOfBounds \<and>
   Addr2Shard (example_config\<lparr>ShardNum := 4\<rparr>) ''0123456789'' = Inr (be_value ''23456789'' mod 4)"
  using Addr2Shard_correct [of "example_config\<lparr>ShardNum := 4\<rparr>" "''addr''"]
    Addr2Shard_correct [of "example_config\<lparr>ShardNum := 4\<rparr>" "''0123456789''"]
  by (simp add: example_config_def Let_def)

text \<open>
  Without the restriction to ASCII the result can be negative: a byte of 128 or more in that
  position makes the signed accumulator negative, and Go's remainder keeps its sign.
\<close>

theorem Addr2Shard_negative:
  "Addr2Shard (example_config\<lparr>ShardNum := 4\<rparr>) (CHR 0xFF # ''AAAAAAA'') = Inr (- 3)"
  by (simp add: Addr2Shard_def Let_def go_mod_def example_config_def shard_step_plus
      signed_modulo_int_def)

section \<open>Neighbours\<close>

lemma GetNeighbours_set:
  assumes "set keys = dom IPs"
  shows "set (GetNeighbours keys IPs self) = ran IPs - {self}"
  using assms by (force simp: GetNeighbours_def List.map_filter_def ran_def dom_def image_iff)

lemma GetNeighbours_length:
  assumes "set keys = dom IPs" and "distinct keys" and "inj_on IPs (dom IPs)"
    and "self \<in> ran IPs"
  shows "Suc (length (GetNeighbours keys IPs self)) = length keys"
proof -
  from assms(4) obtain k where k: "IPs k = Some self" by (auto simp: ran_def)
  have "filter (\<lambda>ip. ip \<noteq> self) (List.map_filter IPs xs) =
      map (\<lambda>i. the (IPs i)) (filter (\<lambda>i. i \<noteq> k) xs)" if "set xs \<subseteq> dom IPs" for xs
    using that k assms(3)
    by (induction xs) (auto simp: List.map_filter_simps dom_def inj_on_def split: option.splits)
  then have "length (GetNeighbours keys IPs self) = length (filter (\<lambda>i. i \<noteq> k) keys)"
    using assms(1) by (simp add: GetNeighbours_def)
  also have "filter (\<lambda>i. i \<noteq> k) keys = remove1 k keys"
    using assms(2) by (simp add: distinct_remove1_removeAll removeAll_filter_not_eq eq_commute)
  also have "length \<dots> = length keys - 1"
    using assms(1) k by (simp add: length_remove1 domIff)
  finally show ?thesis using assms(1) k by (cases keys) auto
qed

end
