(* ===== verification/Blockchain.thy ===== *)
theory Blockchain
  imports Storage Shard "HOL-Library.AList"
begin

text \<open>
  The chain of a node (blockchain/blockchain.go) and its state manager
  (blockchain/stateManager.go).

  The Merkle trie and its database (go-ethereum) are third-party code; \<open>chain_env\<close>
  collects the operations the source calls, together with the encoders and the package
  variables it reads.  \<open>TrieNew db root\<close> is \<open>trie.New(trie.TrieID(common.BytesToHash(root)), db)\<close>
  and is \<open>None\<close> on an error.  A nil \<open>*AccountState\<close> or \<open>*ContractState\<close> is
  \<open>None\<close>.  The big integers the account states point to are the field \<open>sm_heap\<close>.
  \<open>DirtyState\<close> is an association list with distinct keys, \<open>range\<close> visits it in the
  order \<open>map_range\<close>.
\<close>

datatype state = AccountS account_state | ContractS contract_state

record ('tr, 'tdb, 'ns) chain_env =
  e_cfg :: config
  ExecTimeDelay :: int
  Init_Balance :: "bigptr option"
  e_codec :: codec
  sha256 :: "bytes \<Rightarrow> bytes"
  enc_tx :: "transaction \<Rightarrow> bytes"
  enc_utxo :: "utxo_transaction \<Rightarrow> bytes"
  enc_state :: "bigheap \<Rightarrow> state \<Rightarrow> bytes"
  map_range :: "(Address \<times> state) list \<Rightarrow> (Address \<times> state) list"
  TrieEmpty :: 'tr
  TrieNew :: "'tdb \<Rightarrow> bytes \<Rightarrow> 'tr option"
  TrieGet :: "'tr \<Rightarrow> bytes \<Rightarrow> bytes option"
  TrieUpdate :: "'tr \<Rightarrow> bytes \<Rightarrow> bytes \<Rightarrow> 'tr"
  TrieHash :: "'tr \<Rightarrow> bytes"
  TrieCommit :: "'tr \<Rightarrow> bytes \<times> 'ns"
  TdbUpdate :: "'tdb \<Rightarrow> 'ns \<Rightarrow> 'tdb option"
  TdbCommit :: "'tdb \<Rightarrow> bytes \<Rightarrow> 'tdb option"

section \<open>The state manager\<close>

record 'tdb state_manager =
  sm_ShardID :: int
  triedb :: 'tdb
  DirtyState :: "(Address \<times> state) list"
  sm_heap :: bigheap

definition NewStateManager :: "int \<Rightarrow> 'tdb \<Rightarrow> bigheap \<Rightarrow> 'tdb state_manager" where
  "NewStateManager shardID db h =
     \<lparr>sm_ShardID = shardID, triedb = db, DirtyState = [], sm_heap = h\<rparr>"

text \<open>
  A state read from the trie is decoded into a nil pointer: gob reports an error, which is
  ignored, and the pointer stays nil.  A method that reads a field of a nil pointer panics.
\<close>

definition load_account ::
  "('tr, 'tdb, 'ns) chain_env \<Rightarrow> Address \<Rightarrow> 'tr \<Rightarrow> 'tdb state_manager \<Rightarrow> panic + account_state option" where
  "load_account E addr st sm =
     (case map_of (DirtyState sm) addr of
        None \<Rightarrow>
          (case TrieGet E st addr of
             None \<Rightarrow> Inr (Some \<lparr>AcAddress = addr, as_Nonce = 0, Balance = Init_Balance E, DirtyBalance = None\<rparr>)
           | Some stateBytes \<Rightarrow> Inr None)
      | Some (AccountS a) \<Rightarrow> Inr (Some a)
      | Some (ContractS c) \<Rightarrow> Inl (LogPanic ''interface conversion''))"

definition UpdateAccountState ::
  "('tr, 'tdb, 'ns) chain_env \<Rightarrow> Address \<Rightarrow> bigptr option \<Rightarrow> 'tr \<Rightarrow> bool \<Rightarrow> 'tdb state_manager \<Rightarrow>
   panic + 'tdb state_manager" where
  "UpdateAccountState E addr amount st deposit sm =
     bindP (load_account E addr st sm) (\<lambda>p.
     (case p of
        None \<Rightarrow> Inl NilDereference
      | Some a \<Rightarrow>
          bindP (if deposit then Deposit (sm_heap sm) amount a
                 else bindP (Deduct (sm_heap sm) amount a) (\<lambda>(ok, h). Inr h)) (\<lambda>h.
          Inr (sm\<lparr>sm_heap := h, DirtyState := AList.update (as_GetKey a) (AccountS a) (DirtyState sm)\<rparr>))))"

text \<open>One iteration of the loop of \<open>UpdateStates\<close>.\<close>

fun update_tx ::
  "('tr, 'tdb, 'ns) chain_env \<Rightarrow> 'tr \<Rightarrow> transaction \<Rightarrow> bool \<times> 'tdb state_manager \<Rightarrow>
   panic + (bool \<times> 'tdb state_manager)" where
  "update_tx E st (UTXOTransaction u) (flag, sm) = Inr (flag, sm)"
| "update_tx E st (AccountTransaction tx) (flag, sm) =
     bindP (Addr2Shard (e_cfg E) (a_Sender tx)) (\<lambda>s1.
     bindP (if s1 = sm_ShardID sm then UpdateAccountState E (a_Sender tx) (a_Value tx) st False sm
            else Inr sm) (\<lambda>sm1.
     bindP (Addr2Shard (e_cfg E) (a_Recipient tx)) (\<lambda>s2.
     bindP (if s2 = sm_ShardID sm1 then UpdateAccountState E (a_Recipient tx) (a_Value tx) st True sm1
            else Inr sm1) (\<lambda>sm2. Inr (flag, sm2)))))"
| "update_tx E st (ContractTransaction tx) (flag, sm) =
     (let receiver = hd (To (ContractTransaction tx)) in
      bindP (Addr2Shard (e_cfg E) receiver) (\<lambda>s.
      if s \<noteq> sm_ShardID sm then Inr (flag, sm)
      else
        (case map_of (DirtyState sm) receiver of
           None \<Rightarrow> (case TrieGet E st receiver of
                      None \<Rightarrow> Inr (flag, sm)
                    | Some stateBytes \<Rightarrow> Inl NilDereference)
         | Some (AccountS a) \<Rightarrow> Inl (LogPanic ''interface conversion'')
         | Some (ContractS c) \<Rightarrow>
             Inr (if \<not> cs_Update (ContractTransaction tx) c then False else flag,
                  sm\<lparr>DirtyState := AList.update (cs_GetKey c) (ContractS c) (DirtyState sm)\<rparr>))))"

fun update_txs ::
  "('tr, 'tdb, 'ns) chain_env \<Rightarrow> 'tr \<Rightarrow> transaction list \<Rightarrow> bool \<times> 'tdb state_manager \<Rightarrow>
   panic + (bool \<times> 'tdb state_manager)" where
  "update_txs E st [] s = Inr s"
| "update_txs E st (tx # txs) s = bindP (update_tx E st tx s) (update_txs E st txs)"

text \<open>In the estimating mode the manager only sleeps; \<open>rand.Intn\<close> panics on a bound \<open>\<le> 0\<close>.\<close>

definition UpdateStates ::
  "('tr, 'tdb, 'ns) chain_env \<Rightarrow> transaction list \<Rightarrow> bytes \<Rightarrow> 'tdb state_manager \<Rightarrow>
   panic + (bool \<times> 'tdb state_manager)" where
  "UpdateStates E txs stateRoot sm =
     (if TxVerifyTime (e_cfg E) then
        (if ExecTimeDelay E * 2 \<le> 0 then Inl (LogPanic ''invalid argument to Intn'') else Inr (True, sm))
      else
        (case TrieNew E (triedb sm) stateRoot of
           None \<Rightarrow> Inl (LogPanic ''trie.New'')
         | Some st \<Rightarrow> update_txs E st txs (True, sm)))"

fun commit_state :: "state \<Rightarrow> state" where
  "commit_state (AccountS a) = AccountS (as_Commit a)"
| "commit_state (ContractS c) = ContractS (cs_Commit c)"

fun state_GetKey :: "state \<Rightarrow> bytes" where
  "state_GetKey (AccountS a) = as_GetKey a"
| "state_GetKey (ContractS c) = cs_GetKey c"

definition CommitStates ::
  "('tr, 'tdb, 'ns) chain_env \<Rightarrow> bytes \<Rightarrow> 'tdb state_manager \<Rightarrow> panic + (bytes \<times> 'tdb state_manager)" where
  "CommitStates E stateRoot sm =
     (if TxVerifyTime (e_cfg E) then Inr (stateRoot, sm)
      else
        (case TrieNew E (triedb sm) stateRoot of
           None \<Rightarrow> Inl (LogPanic ''trie.New'')
         | Some st \<Rightarrow>
             let dirty = map (\<lambda>(k, s). (k, commit_state s)) (DirtyState sm);
                 st' = fold (\<lambda>(k, s) t. TrieUpdate E t (state_GetKey s) (enc_state E (sm_heap sm) s))
                         (map_range E dirty) st;
                 (rootHash, nodeSet) = TrieCommit E st'
             in (case TdbUpdate E (triedb sm) nodeSet of
                   None \<Rightarrow> Inl (LogPanic ''triedb.Update'')
                 | Some db1 \<Rightarrow>
                     (case TdbCommit E db1 rootHash of
                        None \<Rightarrow> Inl (LogPanic ''triedb.Commit'')
                      | Some db2 \<Rightarrow> Inr (rootHash, sm\<lparr>triedb := db2, DirtyState := dirty\<rparr>)))))"

section \<open>The chain\<close>

record ('db, 'tdb) blockchain =
  CurrentBlock :: block
  bc_Storage :: "'db storage"
  StateManager :: "'tdb state_manager"

definition GetTxTreeRoot :: "('tr, 'tdb, 'ns) chain_env \<Rightarrow> transaction list \<Rightarrow> bytes" where
  "GetTxTreeRoot E txs =
     TrieHash E (fold (\<lambda>tx t. TrieUpdate E t (TxHashOf (sha256 E) (enc_utxo E) tx) (enc_tx E tx))
       txs (TrieEmpty E))"

text \<open>The block proposed on top of the current one; its \<open>StateRoot\<close> and \<open>Miner\<close> are zero.\<close>

definition bc_NewBlock ::
  "('tr, 'tdb, 'ns) chain_env \<Rightarrow> time \<Rightarrow> transaction list \<Rightarrow> ('db, 'tdb) blockchain \<Rightarrow> block" where
  "bc_NewBlock E now txs bc =
     (let bh = \<lparr>PrevBlockHash = b_Hash (CurrentBlock bc),
                Height = Height (Header (CurrentBlock bc)) + 1, bh_Nonce = 0, TimeStamp = now,
                TxRoot = GetTxTreeRoot E txs, Miner = 0, StateRoot = []\<rparr>;
          block = NewBlock (sha256 E) (enc_header (e_codec E)) bh txs
      in block\<lparr>b_Hash := HeaderHash (sha256 E) (enc_header (e_codec E)) (Header block)\<rparr>)"

definition NewGenisisBlock :: "('tr, 'tdb, 'ns) chain_env \<Rightarrow> time \<Rightarrow> block" where
  "NewGenisisBlock E now =
     (let bh = \<lparr>PrevBlockHash = [], Height = 0, bh_Nonce = 0, TimeStamp = now,
                TxRoot = GetTxTreeRoot E [], Miner = 0, StateRoot = TrieHash E (TrieEmpty E)\<rparr>;
          block = NewBlock (sha256 E) (enc_header (e_codec E)) bh []
      in block\<lparr>b_Hash := HeaderHash (sha256 E) (enc_header (e_codec E)) (Header block)\<rparr>)"

text \<open>The errors of the two reads are only logged.\<close>

definition AddGenesisBlock ::
  "'db bolt \<Rightarrow> ('tr, 'tdb, 'ns) chain_env \<Rightarrow> block \<Rightarrow> ('db, 'tdb) blockchain \<Rightarrow>
   panic + ('db, 'tdb) blockchain" where
  "AddGenesisBlock B E b bc =
     bindP (AddBlock B (e_codec E) b (bc_Storage bc)) (\<lambda>s.
     let newestHash = (case GetNewestBlockHash B s of None \<Rightarrow> [] | Some h \<Rightarrow> h);
         current_b = fst (GetBlock B (e_codec E) newestHash s)
     in Inr (bc\<lparr>bc_Storage := s, CurrentBlock := current_b\<rparr>))"

text \<open>
  \<open>storage\<close> is the result of \<open>NewStorage\<close> and \<open>leveldb\<close> the result of opening the
  state database.
\<close>

definition NewBlockChain ::
  "'db bolt \<Rightarrow> ('tr, 'tdb, 'ns) chain_env \<Rightarrow> int \<Rightarrow> panic + 'db storage \<Rightarrow> 'tdb option \<Rightarrow> bigheap \<Rightarrow>
   time \<Rightarrow> panic + ('db, 'tdb) blockchain" where
  "NewBlockChain B E shardID storage leveldb h now =
     bindP storage (\<lambda>s.
     (case leveldb of
        None \<Rightarrow> Inl (LogPanic ''leveldb'')
      | Some db \<Rightarrow>
          let bc = \<lparr>CurrentBlock = zero_block, bc_Storage = s, StateManager = NewStateManager shardID db h\<rparr> in
          (case GetNewestBlockHash B s of
             None \<Rightarrow> AddGenesisBlock B E (NewGenisisBlock E now) bc
           | Some curHash \<Rightarrow>
               (case GetBlock B (e_codec E) curHash s of
                  (b, False) \<Rightarrow> Inl (LogPanic '''')
                | (b, True) \<Rightarrow>
                    (case TrieNew E db (StateRoot (Header b)) of
                       None \<Rightarrow> Inl (LogPanic ''trie.New'')
                     | Some t \<Rightarrow> Inr (bc\<lparr>CurrentBlock := b\<rparr>))))))"

definition CommitBlock ::
  "'db bolt \<Rightarrow> ('tr, 'tdb, 'ns) chain_env \<Rightarrow> block \<Rightarrow> ('db, 'tdb) blockchain \<Rightarrow>
   panic + ('db, 'tdb) blockchain" where
  "CommitBlock B E b bc =
     bindP (CommitStates E (StateRoot (Header (CurrentBlock bc))) (StateManager bc)) (\<lambda>(root, sm).
     let b' = b\<lparr>Header := (Header b)\<lparr>StateRoot := root\<rparr>\<rparr> in
     bindP (AddBlock B (e_codec E) b' (bc_Storage bc)) (\<lambda>s.
     Inr (bc\<lparr>StateManager := sm, CurrentBlock := b', bc_Storage := s\<rparr>)))"

section \<open>Growing the chain\<close>

lemma CommitBlock_parts:
  assumes "CommitBlock B E b bc = Inr bc'"
  obtains root sm where
    "CommitStates E (StateRoot (Header (CurrentBlock bc))) (StateManager bc) = Inr (root, sm)"
    "CurrentBlock bc' = b\<lparr>Header := (Header b)\<lparr>StateRoot := root\<rparr>\<rparr>"
    "AddBlock B (e_codec E) (CurrentBlock bc') (bc_Storage bc) = Inr (bc_Storage bc')"
    "StateManager bc' = sm"
  using assms by (auto simp: CommitBlock_def bindP_eq_Inr_iff Let_def)

lemma CommitBlock_current:
  assumes "CommitBlock B E b bc = Inr bc'"
  shows "b_Hash (CurrentBlock bc') = b_Hash b"
    "PrevBlockHash (Header (CurrentBlock bc')) = PrevBlockHash (Header b)"
    "Height (Header (CurrentBlock bc')) = Height (Header b)"
  using assms by (auto elim: CommitBlock_parts)

text \<open>Proposing and committing a list of (time, transactions) on a chain, and reading it back.\<close>

fun grow ::
  "'db bolt \<Rightarrow> ('tr, 'tdb, 'ns) chain_env \<Rightarrow> (time \<times> transaction list) list \<Rightarrow>
   ('db, 'tdb) blockchain \<Rightarrow> panic + (block list \<times> ('db, 'tdb) blockchain)" where
  "grow B E [] bc = Inr ([], bc)"
| "grow B E ((now, txs) # ops) bc =
     bindP (CommitBlock B E (bc_NewBlock E now txs bc) bc) (\<lambda>bc1.
     bindP (grow B E ops bc1) (\<lambda>(bs, bc2). Inr (CurrentBlock bc1 # bs, bc2)))"

fun walk :: "'db bolt \<Rightarrow> codec \<Rightarrow> 'db storage \<Rightarrow> bytes \<Rightarrow> nat \<Rightarrow> block list" where
  "walk B C s h 0 = []"
| "walk B C s h (Suc n) = (let b = fst (GetBlock B C h s) in b # walk B C s (PrevBlockHash (Header b)) n)"

fun linked :: "bytes \<Rightarrow> int \<Rightarrow> block list \<Rightarrow> bool" where
  "linked h n [] = True"
| "linked h n (b # bs) =
     (PrevBlockHash (Header b) = h \<and> Height (Header b) = n + 1 \<and> linked (b_Hash b) (n + 1) bs)"

lemma linked_snoc:
  "linked h n (bs @ [b]) \<longleftrightarrow> linked h n bs \<and>
     PrevBlockHash (Header b) = (if bs = [] then h else b_Hash (last bs)) \<and>
     Height (Header b) = n + int (length bs) + 1"
  by (induction bs arbitrary: h n) auto

lemma walk_linked:
  assumes "linked h n bs" and "bs \<noteq> []"
    and "\<forall>b \<in> set bs. GetBlock B C (b_Hash b) s = (b, True)"
  shows "walk B C s (b_Hash (last bs)) (length bs) = rev bs"
  using assms
proof (induction bs rule: rev_induct)
  case (snoc b bs)
  show ?case
  proof (cases "bs = []")
    case True
    with snoc.prems show ?thesis by (simp add: Let_def)
  next
    case False
    with snoc show ?thesis by (simp add: linked_snoc Let_def)
  qed
qed simp

lemma AddBlock_GetBlock:
  assumes "AddBlock B C b s = Inr s'" and "bolt_laws B" and "storage_inv s"
  shows "codec_roundtrip C b \<Longrightarrow> GetBlock B C (b_Hash b) s' = (b, True)"
    and "h \<noteq> b_Hash b \<Longrightarrow> GetBlock B C h s' = GetBlock B C h s"
  using AddBlock_get [OF assms] by (simp_all add: GetBlock_def codec_roundtrip_def)

lemma grow_spec:
  assumes "grow B E ops bc = Inr (bs, bc')" and "bolt_laws B" and "storage_inv (bc_Storage bc)"
    and "\<forall>b \<in> set bs. codec_roundtrip (e_codec E) b" and "distinct (map b_Hash bs)"
  shows "linked (b_Hash (CurrentBlock bc)) (Height (Header (CurrentBlock bc))) bs \<and>
    storage_inv (bc_Storage bc') \<and> length bs = length ops \<and>
    CurrentBlock bc' = (if bs = [] then CurrentBlock bc else last bs) \<and>
    (\<forall>b \<in> set bs. GetBlock B (e_codec E) (b_Hash b) (bc_Storage bc') = (b, True)) \<and>
    (\<forall>h. h \<notin> b_Hash ` set bs \<longrightarrow>
       GetBlock B (e_codec E) h (bc_Storage bc') = GetBlock B (e_codec E) h (bc_Storage bc))"
  using assms
proof (induction ops arbitrary: bc bs)
  case (Cons op ops)
  obtain now txs where op: "op = (now, txs)" by (cases op)
  from Cons.prems(1) op obtain bc1 bs1 where
    c: "CommitBlock B E (bc_NewBlock E now txs bc) bc = Inr bc1" and
    g: "grow B E ops bc1 = Inr (bs1, bc')" and bs: "bs = CurrentBlock bc1 # bs1"
    by (auto simp: bindP_eq_Inr_iff)
  from c obtain a: "AddBlock B (e_codec E) (CurrentBlock bc1) (bc_Storage bc) = Inr (bc_Storage bc1)"
    by (rule CommitBlock_parts)
  note get = AddBlock_GetBlock [OF a Cons.prems(2,3)]
  have inv: "storage_inv (bc_Storage bc1)" by (rule AddBlock_get(1) [OF a Cons.prems(2,3)])
  from Cons.IH [OF g Cons.prems(2) inv] Cons.prems(4,5) bs
  have IH: "linked (b_Hash (CurrentBlock bc1)) (Height (Header (CurrentBlock bc1))) bs1"
    "storage_inv (bc_Storage bc')" "length bs1 = length ops"
    "CurrentBlock bc' = (if bs1 = [] then CurrentBlock bc1 else last bs1)"
    "\<forall>b \<in> set bs1. GetBlock B (e_codec E) (b_Hash b) (bc_Storage bc') = (b, True)"
    "\<forall>h. h \<notin> b_Hash ` set bs1 \<longrightarrow>
       GetBlock B (e_codec E) h (bc_Storage bc') = GetBlock B (e_codec E) h (bc_Storage bc1)"
    by auto
  have l: "linked (b_Hash (CurrentBlock bc)) (Height (Header (CurrentBlock bc))) bs"
    using IH(1) bs CommitBlock_current [OF c] by (simp add: bc_NewBlock_def NewBlock_def Let_def)
  have "codec_roundtrip (e_codec E) (CurrentBlock bc1)" "b_Hash (CurrentBlock bc1) \<notin> b_Hash ` set bs1"
    using Cons.prems(4,5) bs by auto
  with IH(5,6) get bs have
    "\<forall>b \<in> set bs. GetBlock B (e_codec E) (b_Hash b) (bc_Storage bc') = (b, True)"
    "\<forall>h. h \<notin> b_Hash ` set bs \<longrightarrow>
       GetBlock B (e_codec E) h (bc_Storage bc') = GetBlock B (e_codec E) h (bc_Storage bc)"
    by auto
  with l IH(2-4) bs show ?case by simp
qed simp

text \<open>
  C14: blocks proposed and committed one after the other form a chain in the store: walking back
  from the current block along the previous-block hashes reads exactly the committed blocks in
  reverse order, their heights are consecutive, and the current block is the newest one stored.
\<close>

theorem chain_walk:
  assumes "grow B E ops bc = Inr (bs, bc')" and "ops \<noteq> []" and "bolt_laws B"
    and "storage_inv (bc_Storage bc)"
    and "\<forall>b \<in> set bs. codec_roundtrip (e_codec E) b" and "distinct (map b_Hash bs)"
  shows "walk B (e_codec E) (bc_Storage bc') (b_Hash (CurrentBlock bc')) (length ops) = rev bs \<and>
    linked (b_Hash (CurrentBlock bc)) (Height (Header (CurrentBlock bc))) bs \<and>
    CurrentBlock bc' = last bs"
proof -
  note g = grow_spec [OF assms(1,3-6)]
  then have l: "length bs = length ops"
    "linked (b_Hash (CurrentBlock bc)) (Height (Header (CurrentBlock bc))) bs"
    "\<forall>b \<in> set bs. GetBlock B (e_codec E) (b_Hash b) (bc_Storage bc') = (b, True)"
    "CurrentBlock bc' = (if bs = [] then CurrentBlock bc else last bs)" by simp_all
  with assms(2) have ne: "bs \<noteq> []" by force
  with walk_linked [OF l(2) ne l(3)] l(1,2,4) show ?thesis by simp
qed

section \<open>Restarting a node\<close>

text \<open>
  C27: a node restarted on its databases after a commit comes up with the block it had committed
  last as its current block (the trie of its state root being loadable).
\<close>

theorem restart_after_commit:
  assumes "CommitBlock B E b bc = Inr bc'" and "bolt_laws B" and "storage_inv (bc_Storage bc)"
    and "codec_roundtrip (e_codec E) (CurrentBlock bc')"
    and "TrieNew E db (StateRoot (Header (CurrentBlock bc'))) = Some t"
  shows "\<exists>bc''. NewBlockChain B E shardID (Inr (bc_Storage bc')) (Some db) h now = Inr bc'' \<and>
    CurrentBlock bc'' = CurrentBlock bc' \<and> bc_Storage bc'' = bc_Storage bc'"
proof -
  from assms(1) obtain a: "AddBlock B (e_codec E) (CurrentBlock bc') (bc_Storage bc) = Inr (bc_Storage bc')"
    by (rule CommitBlock_parts)
  from AddBlock_get(5) [OF a assms(2,3)] AddBlock_GetBlock(1) [OF a assms(2,3,4)] assms(5)
  show ?thesis by (simp add: NewBlockChain_def Let_def)
qed

text \<open>
  A fresh store is initialised with the genesis block of height 0, which becomes the current
  block and is found again under the newest hash.
\<close>

theorem genesis_initialised:
  assumes "GetNewestBlockHash B s = None" and "AddBlock B (e_codec E) (NewGenisisBlock E now) s = Inr s'"
    and "bolt_laws B" and "storage_inv s" and "codec_roundtrip (e_codec E) (NewGenisisBlock E now)"
  shows "\<exists>bc. NewBlockChain B E shardID (Inr s) (Some db) h now = Inr bc \<and>
    CurrentBlock bc = NewGenisisBlock E now \<and> Height (Header (CurrentBlock bc)) = 0 \<and>
    GetNewestBlockHash B (bc_Storage bc) = Some (b_Hash (CurrentBlock bc)) \<and>
    StateRoot (Header (CurrentBlock bc)) = TrieHash E (TrieEmpty E)"
  using assms AddBlock_get(5) [OF assms(2-4)] AddBlock_GetBlock(1) [OF assms(2-5)]
  by (simp add: NewBlockChain_def AddGenesisBlock_def Let_def)
     (simp add: NewGenisisBlock_def NewBlock_def Let_def)

section \<open>What the block hash covers\<close>

text \<open>
  The hash of a committed block is the hash of its header with an empty state root:
  \<open>CommitBlock\<close> fills in the state root after the hash was taken and does not renew it.
  If the hash does not collide on the two headers, the stored hash is never the hash of the stored
  header unless the state root is empty.
\<close>

theorem hash_omits_state_root:
  assumes "CommitBlock B E (bc_NewBlock E now txs bc) bc = Inr bc'"
    and "inj_on (HeaderHash (sha256 E) (enc_header (e_codec E)))
      {Header (CurrentBlock bc'), (Header (CurrentBlock bc'))\<lparr>StateRoot := []\<rparr>}"
    and "StateRoot (Header (CurrentBlock bc')) \<noteq> []"
  shows "b_Hash (CurrentBlock bc') = HeaderHash (sha256 E) (enc_header (e_codec E))
      ((Header (CurrentBlock bc'))\<lparr>StateRoot := []\<rparr>) \<and>
    b_Hash (CurrentBlock bc') \<noteq> HeaderHash (sha256 E) (enc_header (e_codec E)) (Header (CurrentBlock bc'))"
proof -
  let ?h = "HeaderHash (sha256 E) (enc_header (e_codec E))"
  have e: "b_Hash (CurrentBlock bc') = ?h ((Header (CurrentBlock bc'))\<lparr>StateRoot := []\<rparr>)"
    using assms(1) by (rule CommitBlock_parts) (simp add: bc_NewBlock_def NewBlock_def Let_def)
  have "(Header (CurrentBlock bc'))\<lparr>StateRoot := []\<rparr> \<noteq> Header (CurrentBlock bc')"
    using assms(3) by (metis block_header.select_convs(7) block_header.surjective block_header.update_convs(7))
  then have "?h ((Header (CurrentBlock bc'))\<lparr>StateRoot := []\<rparr>) \<noteq> ?h (Header (CurrentBlock bc'))"
    using inj_onD [OF assms(2)] by blast
  with e show ?thesis by simp
qed

section \<open>Account states\<close>

lemma UpdateAccountState_fresh:
  assumes "map_of (DirtyState sm) addr = None"
  shows "UpdateAccountState E addr amount st deposit sm = Inl NilDereference"
  using assms by (simp add: UpdateAccountState_def load_account_def nil_dirty_panics split: option.split)

lemma update_tx_dirty_empty:
  assumes "update_tx E st tx (flag, sm) = Inr r" and "DirtyState sm = []"
  shows "r = (flag, sm)"
proof -
  have u: "UpdateAccountState E addr amount st dep sm = Inl NilDereference" for addr amount dep
    using assms(2) by (simp add: UpdateAccountState_fresh)
  show ?thesis
  proof (cases tx)
    case (UTXOTransaction x)
    with assms(1) show ?thesis by simp
  next
    case (AccountTransaction x)
    with assms(1) show ?thesis
      by (cases "Addr2Shard (e_cfg E) (a_Sender x)"; cases "Addr2Shard (e_cfg E) (a_Recipient x)")
        (simp_all add: u split: if_split_asm)
  next
    case (ContractTransaction x)
    with assms show ?thesis
      by (cases "Addr2Shard (e_cfg E) (c_Recipient x)")
        (simp_all add: Let_def split: if_split_asm option.split_asm)
  qed
qed

lemma update_txs_dirty_empty:
  assumes "update_txs E st txs (flag, sm) = Inr (flag', sm')" and "DirtyState sm = []"
  shows "flag' = flag \<and> sm' = sm"
  using assms
proof (induction txs)
  case (Cons tx txs)
  from Cons.prems(1) obtain r where
    1: "update_tx E st tx (flag, sm) = Inr r" "update_txs E st txs r = Inr (flag', sm')"
    unfolding update_txs.simps bindP_eq_Inr_iff by blast
  from update_tx_dirty_empty [OF 1(1) Cons.prems(2)] 1(2) Cons.IH Cons.prems(2) show ?case by simp
qed simp

text \<open>
  With real execution switched on, a state manager never gets past its first account: as long
  as no state is dirty, an account transaction whose sender or recipient lives in the shard
  panics (a new account has a nil dirty balance, a stored one is decoded into a nil pointer),
  and every run of \<open>UpdateStates\<close> that returns has changed nothing.
\<close>

theorem account_execution_panics:
  assumes "\<not> TxVerifyTime (e_cfg E)" and "DirtyState sm = []" and "TrieNew E (triedb sm) root = Some st"
  shows "(\<forall>tx. Addr2Shard (e_cfg E) (a_Sender tx) = Inr (sm_ShardID sm) \<longrightarrow>
      UpdateStates E [AccountTransaction tx] root sm = Inl NilDereference) \<and>
    (\<forall>tx s. Addr2Shard (e_cfg E) (a_Sender tx) = Inr s \<longrightarrow> s \<noteq> sm_ShardID sm \<longrightarrow>
      Addr2Shard (e_cfg E) (a_Recipient tx) = Inr (sm_ShardID sm) \<longrightarrow>
      UpdateStates E [AccountTransaction tx] root sm = Inl NilDereference) \<and>
    (\<forall>txs flag sm'. UpdateStates E txs root sm = Inr (flag, sm') \<longrightarrow> flag \<and> sm' = sm)"
proof -
  have u: "UpdateAccountState E addr amount st dep sm = Inl NilDereference" for addr amount dep
    using assms(2) by (simp add: UpdateAccountState_fresh)
  have b: "UpdateStates E [AccountTransaction tx] root sm = Inl NilDereference"
    if "Addr2Shard (e_cfg E) (a_Sender tx) = Inr (sm_ShardID sm) \<or>
      Addr2Shard (e_cfg E) (a_Sender tx) = Inr s \<and> s \<noteq> sm_ShardID sm \<and>
      Addr2Shard (e_cfg E) (a_Recipient tx) = Inr (sm_ShardID sm)" for tx s
    using assms that by (elim disjE conjE) (simp_all add: UpdateStates_def u)
  have c: "flag \<and> sm' = sm" if "UpdateStates E txs root sm = Inr (flag, sm')" for txs flag sm'
    using that assms update_txs_dirty_empty [of E st txs True sm flag sm'] by (simp add: UpdateStates_def)
  show ?thesis using b c by blast
qed

section \<open>A concrete chain\<close>

text \<open>
  A toy instance of the libraries for concrete runs: a trie is the concatenation of its keys,
  the hash is the identity, the codec a table of the blocks of the run.
\<close>

definition example_env :: "bool \<Rightarrow> block list \<Rightarrow> (string, unit, unit) chain_env" where
  "example_env estimate bs =
     \<lparr>e_cfg = example_config\<lparr>TxVerifyTime := estimate\<rparr>, ExecTimeDelay = 2, Init_Balance = Some 0,
      e_codec = table_codec bs, sha256 = (\<lambda>b. b), enc_tx = (\<lambda>tx. []), enc_utxo = (\<lambda>tx. []),
      enc_state = (\<lambda>h s. state_GetKey s), map_range = (\<lambda>xs. xs),
      TrieEmpty = [], TrieNew = (\<lambda>db root. Some root), TrieGet = (\<lambda>t k. None),
      TrieUpdate = (\<lambda>t k v. t @ k), TrieHash = (\<lambda>t. if t = [] then ''E'' else t), TrieCommit = (\<lambda>t. (t, ())),
      TdbUpdate = (\<lambda>db n. Some db), TdbCommit = (\<lambda>db r. Some db)\<rparr>"

definition example_tx :: "string \<Rightarrow> transaction" where
  "example_tx name = ContractTransaction
     \<lparr>c_Sender = [], c_Recipient = [], c_Nounce = 0, c_TxHash = name, c_Time = 0, Code = [],
      RelatedContract = [], c_IsCrossShard = False\<rparr>"

definition root_block :: block where
  "root_block = \<lparr>Header = zero_header\<lparr>StateRoot := ''R''\<rparr>, Transactions = [], b_Hash = ''G''\<rparr>"

definition child_block :: "string \<Rightarrow> string \<Rightarrow> int \<Rightarrow> block" where
  "child_block name prev height =
     \<lparr>Header = \<lparr>PrevBlockHash = prev, Height = height, bh_Nonce = 0, TimeStamp = 0, TxRoot = name,
        Miner = 0, StateRoot = ''R''\<rparr>, Transactions = [example_tx name], b_Hash = name\<rparr>"

definition example_blocks :: "block list" where
  "example_blocks = [child_block ''A'' ''G'' 1, child_block ''B'' ''A'' 2]"

definition example_chain :: "(((string \<times> bytes) \<times> bytes) list, unit) blockchain" where
  "example_chain = \<lparr>CurrentBlock = root_block, bc_Storage = example_storage,
     StateManager = NewStateManager 0 () (\<lambda>_. None)\<rparr>"

lemma example_codec:
  assumes "b \<in> set example_blocks"
  shows "codec_roundtrip (e_codec (example_env est example_blocks)) b"
proof -
  have e: "e_codec (example_env est example_blocks) = table_codec example_blocks"
    by (simp add: example_env_def)
  have "codec_roundtrip (table_codec example_blocks) (child_block ''A'' ''G'' 1)"
    "codec_roundtrip (table_codec example_blocks) (child_block ''B'' ''A'' 2)"
    by (simp_all add: codec_roundtrip_def table_codec_def example_blocks_def child_block_def)
  moreover have "b = child_block ''A'' ''G'' 1 \<or> b = child_block ''B'' ''A'' 2"
    using assms unfolding example_blocks_def by simp
  ultimately show ?thesis unfolding e by blast
qed

lemma list_bolt_put:
  "k \<noteq> [] \<Longrightarrow> \<exists>s'. put_or_panic list_bolt b k v s = Inr s'"
  by (simp add: put_or_panic_def list_bolt_def)

lemma list_bolt_AddBlock:
  assumes "b_Hash b \<noteq> []"
  shows "\<exists>s'. AddBlock list_bolt E b s = Inr s'"
proof -
  obtain s1 where 1: "put_or_panic list_bolt (blockBucket s) (b_Hash b) (enc_block E b) s = Inr s1"
    using list_bolt_put [OF assms] by blast
  obtain s2 where 2: "AddBlockHeader list_bolt E (b_Hash b) (Header b) s1 = Inr s2"
    using list_bolt_put [OF assms] unfolding AddBlockHeader_def by blast
  have "\<exists>s3. UpdateNewestBlockHash list_bolt (b_Hash b) s2 = Inr s3"
    unfolding UpdateNewestBlockHash_def by (rule list_bolt_put) (simp add: newest_key_def)
  with 1 2 show ?thesis by (auto simp: AddBlock_def)
qed

lemma example_commit_step:
  assumes "name \<noteq> []" and "StateRoot (Header (CurrentBlock bc)) = ''R''"
  shows "\<exists>bc1. CommitBlock list_bolt (example_env True bs)
      (bc_NewBlock (example_env True bs) 0 [example_tx name] bc) bc = Inr bc1 \<and>
    CurrentBlock bc1 = child_block name (b_Hash (CurrentBlock bc)) (Height (Header (CurrentBlock bc)) + 1)"
proof -
  let ?b = "child_block name (b_Hash (CurrentBlock bc)) (Height (Header (CurrentBlock bc)) + 1)"
  let ?n = "bc_NewBlock (example_env True bs) 0 [example_tx name] bc"
  have n: "?n\<lparr>Header := (Header ?n)\<lparr>StateRoot := ''R''\<rparr>\<rparr> = ?b"
    using assms(1) by (simp add: bc_NewBlock_def NewBlock_def HeaderHash_def GetTxTreeRoot_def
        example_env_def table_codec_def child_block_def example_tx_def Let_def)
  have c: "CommitStates (example_env True bs) root sm = Inr (root, sm)" for root and sm :: "unit state_manager"
    by (simp add: CommitStates_def example_env_def)
  have "b_Hash ?b \<noteq> []" using assms(1) by (simp add: child_block_def)
  then obtain s' where "AddBlock list_bolt (e_codec (example_env True bs)) ?b (bc_Storage bc) = Inr s'"
    using list_bolt_AddBlock by blast
  then show ?thesis
    by (simp only: CommitBlock_def Let_def c assms(2) bindP_simps prod.case n) simp
qed

lemma example_commit:
  "\<exists>bc1. CommitBlock list_bolt (example_env True example_blocks)
      (bc_NewBlock (example_env True example_blocks) 0 [example_tx ''A''] example_chain) example_chain = Inr bc1 \<and>
    CurrentBlock bc1 = child_block ''A'' ''G'' 1"
  using example_commit_step [of "''A''" example_chain example_blocks]
  by (simp add: example_chain_def root_block_def zero_header_def)

lemma example_grow:
  "\<exists>bc'. grow list_bolt (example_env True example_blocks)
      [(0, [example_tx ''A'']), (0, [example_tx ''B''])] example_chain = Inr (example_blocks, bc')"
proof -
  let ?E = "example_env True example_blocks"
  obtain bc1 where 1: "CommitBlock list_bolt ?E (bc_NewBlock ?E 0 [example_tx ''A''] example_chain)
      example_chain = Inr bc1" and c1: "CurrentBlock bc1 = child_block ''A'' ''G'' 1"
    using example_commit by blast
  have r: "StateRoot (Header (CurrentBlock bc1)) = ''R''" "b_Hash (CurrentBlock bc1) = ''A''"
    "Height (Header (CurrentBlock bc1)) = 1"
    unfolding c1 by (simp_all add: child_block_def)
  obtain bc2 where 2: "CommitBlock list_bolt ?E (bc_NewBlock ?E 0 [example_tx ''B''] bc1) bc1 = Inr bc2"
    and c2: "CurrentBlock bc2 = child_block ''B'' ''A'' 2"
    using example_commit_step [of "''B''" bc1 example_blocks] r by auto
  show ?thesis by (simp add: 1 2 c1 c2) (simp add: example_blocks_def)
qed

lemma example_chain_inv: "storage_inv (bc_Storage example_chain)"
  by (simp add: example_chain_def example_storage_inv)

theorem chain_walk_witness:
  "\<exists>bc'. grow list_bolt (example_env True example_blocks)
      [(0, [example_tx ''A'']), (0, [example_tx ''B''])] example_chain = Inr (example_blocks, bc') \<and>
    walk list_bolt (table_codec example_blocks) (bc_Storage bc') ''B'' 2 = rev example_blocks"
proof -
  obtain bc' where g: "grow list_bolt (example_env True example_blocks)
      [(0, [example_tx ''A'']), (0, [example_tx ''B''])] example_chain = Inr (example_blocks, bc')"
    using example_grow by blast
  have d: "distinct (map b_Hash example_blocks)"
    by (simp add: example_blocks_def child_block_def)
  have l: "b_Hash (last example_blocks) = ''B''" by (simp add: example_blocks_def child_block_def)
  have e: "e_codec (example_env True example_blocks) = table_codec example_blocks"
    by (simp add: example_env_def)
  have n: "length [(0::time, [example_tx ''A'']), (0, [example_tx ''B''])] = 2" by simp
  have "walk list_bolt (table_codec example_blocks) (bc_Storage bc') ''B'' 2 = rev example_blocks"
    using chain_walk [OF g _ list_bolt_laws example_chain_inv _ d] example_codec [where est = True]
    unfolding n e by (metis l list.distinct(1) e)
  with g show ?thesis by blast
qed

theorem restart_after_commit_witness:
  "\<exists>bc1 bc2. CommitBlock list_bolt (example_env True example_blocks)
      (bc_NewBlock (example_env True example_blocks) 0 [example_tx ''A''] example_chain) example_chain = Inr bc1 \<and>
    NewBlockChain list_bolt (example_env True example_blocks) 0 (Inr (bc_Storage bc1)) (Some ()) (\<lambda>_. None) 0 = Inr bc2 \<and>
    CurrentBlock bc2 = child_block ''A'' ''G'' 1"
proof -
  let ?E = "example_env True example_blocks"
  obtain bc1 where c: "CommitBlock list_bolt ?E (bc_NewBlock ?E 0 [example_tx ''A''] example_chain)
      example_chain = Inr bc1" and cur: "CurrentBlock bc1 = child_block ''A'' ''G'' 1"
    using example_commit by blast
  have r: "codec_roundtrip (e_codec ?E) (CurrentBlock bc1)"
    unfolding cur by (rule example_codec) (simp add: example_blocks_def)
  have t: "TrieNew ?E () (StateRoot (Header (CurrentBlock bc1))) = Some ''R''"
    by (simp add: cur child_block_def example_env_def)
  from restart_after_commit [OF c list_bolt_laws example_chain_inv r t] c cur show ?thesis by fastforce
qed

definition genesis_env :: "(string, unit, unit) chain_env" where
  "genesis_env = example_env True [NewGenisisBlock (example_env True []) 7]"

theorem genesis_initialised_witness:
  "\<exists>bc. NewBlockChain list_bolt genesis_env 0 (Inr example_storage) (Some ()) (\<lambda>_. None) 7 = Inr bc \<and>
    Height (Header (CurrentBlock bc)) = 0"
proof -
  note d = genesis_env_def example_env_def NewGenisisBlock_def NewBlock_def HeaderHash_def
    GetTxTreeRoot_def table_codec_def Let_def
  have n: "GetNewestBlockHash list_bolt example_storage = None"
    by (simp add: GetNewestBlockHash_def list_bolt_def example_storage_def NewStorage_def Let_def)
  obtain s' where s': "AddBlock list_bolt (e_codec genesis_env) (NewGenisisBlock genesis_env 7) example_storage = Inr s'"
    by (simp add: d storage_write_defs put_or_panic_def list_bolt_def newest_key_def)
  have r: "codec_roundtrip (e_codec genesis_env) (NewGenisisBlock genesis_env 7)"
    by (simp add: d codec_roundtrip_def)
  from genesis_initialised [OF n s' list_bolt_laws example_storage_inv r] show ?thesis by blast
qed

theorem hash_omits_state_root_witness:
  "\<exists>bc1. CommitBlock list_bolt (example_env True example_blocks)
      (bc_NewBlock (example_env True example_blocks) 0 [example_tx ''A''] example_chain) example_chain = Inr bc1 \<and>
    b_Hash (CurrentBlock bc1) \<noteq> HeaderHash (\<lambda>b. b) (\<lambda>h. TxRoot h @ StateRoot h) (Header (CurrentBlock bc1))"
proof -
  let ?E = "example_env True example_blocks"
  obtain bc1 where c: "CommitBlock list_bolt ?E (bc_NewBlock ?E 0 [example_tx ''A''] example_chain)
      example_chain = Inr bc1" and cur: "CurrentBlock bc1 = child_block ''A'' ''G'' 1"
    using example_commit by blast
  have h: "HeaderHash (sha256 ?E) (enc_header (e_codec ?E)) = HeaderHash (\<lambda>b. b) (\<lambda>h. TxRoot h @ StateRoot h)"
    by (simp add: example_env_def table_codec_def)
  have i: "inj_on (HeaderHash (sha256 ?E) (enc_header (e_codec ?E)))
      {Header (CurrentBlock bc1), (Header (CurrentBlock bc1))\<lparr>StateRoot := []\<rparr>}"
    unfolding h by (simp add: inj_on_def HeaderHash_def cur child_block_def)
  have r: "StateRoot (Header (CurrentBlock bc1)) \<noteq> []" by (simp add: cur child_block_def)
  from hash_omits_state_root [OF c i r] c show ?thesis unfolding h by blast
qed

definition zero_addr :: Address where
  "zero_addr = replicate 8 (CHR 0x00)"

lemma zero_addr_shard: "Addr2Shard (e_cfg (example_env False [])) zero_addr = Inr 0"
  by (simp add: Addr2Shard_def zero_addr_def example_env_def example_config_def shard_step_def
      go_mod_def Let_def numeral_eq_Suc)

theorem account_execution_panics_witness:
  "UpdateStates (example_env False [])
     [AccountTransaction \<lparr>a_Sender = zero_addr, a_Recipient = zero_addr,
        a_Nounce = 0, a_Value = Some 0, a_TxHash = [], a_Time = 0, Relayed = False,
        OriginalSender = [], FinalRecipient = [], Siganature = []\<rparr>] [] (NewStateManager 0 () (\<lambda>_. None))
   = Inl NilDereference"
proof -
  have "TrieNew (example_env False []) () [] = Some []" by (simp add: example_env_def)
  moreover have "\<not> TxVerifyTime (e_cfg (example_env False []))" by (simp add: example_env_def)
  ultimately show ?thesis
    using account_execution_panics [of "example_env False []" "NewStateManager 0 () (\<lambda>_. None)" "[]"]
      zero_addr_shard
    by (simp add: NewStateManager_def)
qed

end
