(* ===== verification/PBFT.thy ===== *)
theory PBFT
  imports Message Blockchain
begin

text \<open>
  The PBFT module of a node (consensusMod/pbft/handler_pbft.go, structs.go), its addons
  (addon_interface.go, addon_simple.go, addon_tbd.go) and the four handlers as functions of
  the node's state.

  A handler may return, wait for ever (an addon polls a flag no one else sets while the handler
  runs alone) or panic; \<open>outcome\<close> has these three cases, a returned value carries the
  effects in order.  Effects before a panic are dropped with the process.  A map entry that is
  absent is Go's nil \<open>*RequestInfo\<close>, since only non-nil pointers are stored.  Theory
  PBFT_Run splits the handlers into the critical sections of the source and lets the goroutines
  of a node interleave.
\<close>

datatype 'a outcome = Returns 'a "effect list" | Blocks | Panics panic

definition bindO :: "'a outcome \<Rightarrow> ('a \<Rightarrow> 'b outcome) \<Rightarrow> 'b outcome" where
  "bindO m f = (case m of
      Returns x e \<Rightarrow> (case f x of Returns y e' \<Rightarrow> Returns y (e @ e') | Blocks \<Rightarrow> Blocks | Panics p \<Rightarrow> Panics p)
    | Blocks \<Rightarrow> Blocks | Panics p \<Rightarrow> Panics p)"

lemma bindO_simps [simp]:
  "bindO (Returns x []) f = f x"
  "bindO Blocks f = Blocks" "bindO (Panics p) f = Panics p"
  by (simp_all add: bindO_def split: outcome.split)

lemma bindO_Returns_iff:
  "bindO m f = Returns y e \<longleftrightarrow> (\<exists>x e1 e2. m = Returns x e1 \<and> f x = Returns y e2 \<and> e = e1 @ e2)"
  by (auto simp: bindO_def split: outcome.splits)

section \<open>State\<close>

record request_info =
  ri_Req :: request
  cntPrepareConfirm :: int
  cntCommitConfirm :: int
  isCommitBroadcast :: bool
  isReply :: bool

definition NewRequestInfo :: "request \<Rightarrow> request_info" where
  "NewRequestInfo req =
     \<lparr>ri_Req = req, cntPrepareConfirm = 0, cntCommitConfirm = 0, isCommitBroadcast = False, isReply = False\<rparr>"

text \<open>What an addon reads of its node: identity, length of the request queue, the clock.\<close>

record addon_ctx =
  ctx_Nid :: int
  ctx_Sid :: int
  ctx_QueueLen :: nat
  ctx_now :: time

type_synonym 'ad addon_op = "addon_ctx \<Rightarrow> request \<Rightarrow> 'ad \<Rightarrow> (bool \<times> 'ad) outcome"

record 'ad addon =
  HandleProposeAddon :: "'ad addon_op"
  HandlePrePrepareAddon :: "'ad addon_op"
  HandlePrepareAddon :: "'ad addon_op"
  HandleCommitAddon :: "'ad addon_op"

record 'ad pbft =
  Nid :: int
  Sid :: int
  Ipaddr :: string
  view :: int
  pbft_num :: int
  malicious_num :: int
  requestQueue :: "request queue"
  requestPool :: "bytes \<rightharpoonup> request_info"
  currentRound :: int
  addonState :: 'ad

datatype addon_kind = SimpleKind | TBDKind

definition NewPbftAddon :: "string \<Rightarrow> addon_kind option" where
  "NewPbftAddon addonType =
     (if addonType = ''Test'' then Some SimpleKind
      else if addonType = ''Simple'' then Some SimpleKind
      else if addonType = ''TBD'' then Some TBDKind
      else None)"

definition NewPbftCosensusMod ::
  "config \<Rightarrow> int \<Rightarrow> int \<Rightarrow> string \<Rightarrow> (addon_kind \<Rightarrow> 'ad) \<Rightarrow> panic + 'ad pbft" where
  "NewPbftCosensusMod c nid sid ip new_addon =
     (case NewPbftAddon (ConsensusMethod c) of
        None \<Rightarrow> Inl (LogPanic ''Error creating pbft addon module'')
      | Some k \<Rightarrow> Inr \<lparr>Nid = nid, Sid = sid, Ipaddr = ip, view = ViewNodeId c,
          pbft_num = NodeNum c, malicious_num = (NodeNum c - 1) sdiv 3,
          requestQueue = NewQueue, requestPool = Map.empty, currentRound = 0,
          addonState = new_addon k\<rparr>)"

definition getCurrentRound :: "'ad pbft \<Rightarrow> int" where
  "getCurrentRound s = currentRound s"

definition IncCurrentRound :: "'ad pbft \<Rightarrow> 'ad pbft" where
  "IncCurrentRound s = s\<lparr>currentRound := currentRound s + 1\<rparr>"

definition isCommitBroadcasted :: "bytes \<Rightarrow> 'ad pbft \<Rightarrow> bool" where
  "isCommitBroadcasted digestStr s =
     (case requestPool s digestStr of None \<Rightarrow> False | Some i \<Rightarrow> isCommitBroadcast i)"

definition setCommitBroadcasted :: "bytes \<Rightarrow> 'ad pbft \<Rightarrow> bool \<times> 'ad pbft" where
  "setCommitBroadcasted digestStr s =
     (case requestPool s digestStr of
        None \<Rightarrow> (False, s)
      | Some i \<Rightarrow> (True, s\<lparr>requestPool := (requestPool s)(digestStr \<mapsto> i\<lparr>isCommitBroadcast := True\<rparr>)\<rparr>))"

definition isReplySent :: "bytes \<Rightarrow> 'ad pbft \<Rightarrow> bool" where
  "isReplySent digestStr s =
     (case requestPool s digestStr of None \<Rightarrow> False | Some i \<Rightarrow> isReply i)"

definition setReplySent :: "bytes \<Rightarrow> 'ad pbft \<Rightarrow> bool \<times> 'ad pbft" where
  "setReplySent digestStr s =
     (case requestPool s digestStr of
        None \<Rightarrow> (False, s)
      | Some i \<Rightarrow> (True, s\<lparr>requestPool := (requestPool s)(digestStr \<mapsto> i\<lparr>isReply := True\<rparr>)\<rparr>))"

text \<open>\<open>range\<close> over the address map visits its keys in the order \<open>keys\<close>.\<close>

definition getNeighbours :: "int list \<Rightarrow> (int \<rightharpoonup> string) \<Rightarrow> 'ad pbft \<Rightarrow> string list" where
  "getNeighbours keys shardIPs s = filter (\<lambda>ip. ip \<noteq> Ipaddr s) (List.map_filter shardIPs keys)"

section \<open>The critical sections of the handlers\<close>

definition call_addon ::
  "'ad addon_op \<Rightarrow> time \<Rightarrow> request \<Rightarrow> 'ad pbft \<Rightarrow> (bool \<times> 'ad pbft) outcome" where
  "call_addon op now req s =
     bindO (op \<lparr>ctx_Nid = Nid s, ctx_Sid = Sid s, ctx_QueueLen = QueueSize (requestQueue s), ctx_now = now\<rparr>
              req (addonState s))
       (\<lambda>(flag, a). Returns (flag, s\<lparr>addonState := a\<rparr>) [])"

text \<open>Create the pool entry of a request that is not yet known.\<close>

definition ensure_info :: "request \<Rightarrow> 'ad pbft \<Rightarrow> 'ad pbft" where
  "ensure_info req s =
     (if requestPool s (Digest req) = None
      then s\<lparr>requestPool := (requestPool s)(Digest req \<mapsto> NewRequestInfo req)\<rparr> else s)"

definition count_prepare :: "request \<Rightarrow> 'ad pbft \<Rightarrow> int \<times> 'ad pbft" where
  "count_prepare req s =
     (let s1 = ensure_info req s; i = the (requestPool s1 (Digest req)); n = cntPrepareConfirm i + 1
      in (n, s1\<lparr>requestPool := (requestPool s1)(Digest req \<mapsto> i\<lparr>cntPrepareConfirm := n\<rparr>)\<rparr>))"

definition count_commit :: "request \<Rightarrow> 'ad pbft \<Rightarrow> int \<times> 'ad pbft" where
  "count_commit req s =
     (let s1 = ensure_info req s; i = the (requestPool s1 (Digest req)); n = cntCommitConfirm i + 1
      in (n, s1\<lparr>requestPool := (requestPool s1)(Digest req \<mapsto> i\<lparr>cntCommitConfirm := n\<rparr>)\<rparr>))"

definition needCnt :: "'ad pbft \<Rightarrow> int" where
  "needCnt s = (if Nid s = view s then 2 * malicious_num s else 2 * malicious_num s - 1)"

definition pbft_msg :: "MessageType \<Rightarrow> request \<Rightarrow> int \<Rightarrow> message" where
  "pbft_msg t req round = \<lparr>MsgType = t, msg_Content = PPbft \<lparr>pm_Request = req, Round = round\<rparr>\<rparr>"

section \<open>The handlers\<close>

definition handlePropose :: "'ad addon \<Rightarrow> time \<Rightarrow> message \<Rightarrow> 'ad pbft \<Rightarrow> 'ad pbft outcome" where
  "handlePropose A now msg s =
     (case decode_request (msg_Content msg) of
        None \<Rightarrow> Returns s []
      | Some req \<Rightarrow>
          let s1 = s\<lparr>requestPool := (requestPool s)(Digest req \<mapsto> NewRequestInfo req)\<rparr> in
          bindO (call_addon (HandleProposeAddon A) now req s1) (\<lambda>(flag, s2).
          if \<not> flag then Returns s2 []
          else Returns (s2\<lparr>requestQueue := Enqueue req (requestQueue s2)\<rparr>) []))"

definition handlePrePrepare :: "'ad addon \<Rightarrow> time \<Rightarrow> message \<Rightarrow> 'ad pbft \<Rightarrow> 'ad pbft outcome" where
  "handlePrePrepare A now msg s =
     (case decode_pbft (msg_Content msg) of
        None \<Rightarrow> Returns s []
      | Some pbftMsg \<Rightarrow>
          let req = pm_Request pbftMsg; round = Round pbftMsg in
          if round < getCurrentRound s then Returns s []
          else
            bindO (call_addon (HandlePrePrepareAddon A) now req (ensure_info req s)) (\<lambda>(flag, s2).
            if \<not> flag then Returns s2 []
            else Returns s2 [Broadcast (ShardId req) (pbft_msg MsgPrepare req round)]))"

definition handlePrepare :: "'ad addon \<Rightarrow> time \<Rightarrow> message \<Rightarrow> 'ad pbft \<Rightarrow> 'ad pbft outcome" where
  "handlePrepare A now msg s =
     (case decode_pbft (msg_Content msg) of
        None \<Rightarrow> Returns s []
      | Some pbftMsg \<Rightarrow>
          let req = pm_Request pbftMsg; round = Round pbftMsg in
          if round < getCurrentRound s then Returns s []
          else
            bindO (call_addon (HandlePrepareAddon A) now req s) (\<lambda>(_, s1).
            let isAlreadyCommitted = isCommitBroadcasted (Digest req) s1 in
            if isAlreadyCommitted then Returns s1 []
            else
              let (prepareCnt, s2) = count_prepare req s1 in
              if prepareCnt \<ge> needCnt s2 \<and> \<not> isAlreadyCommitted then
                let (ok, s3) = setCommitBroadcasted (Digest req) s2 in
                if ok then Returns s3 [Broadcast (ShardId req) (pbft_msg MsgCommit req round)]
                else Returns s3 []
              else Returns s2 []))"

definition handleCommit :: "'ad addon \<Rightarrow> time \<Rightarrow> message \<Rightarrow> 'ad pbft \<Rightarrow> 'ad pbft outcome" where
  "handleCommit A now msg s =
     (case decode_pbft (msg_Content msg) of
        None \<Rightarrow> Returns s []
      | Some pbftMsg \<Rightarrow>
          let req = pm_Request pbftMsg; round = Round pbftMsg in
          if round < getCurrentRound s then Returns s []
          else
            let isAlreadyReplied = isReplySent (Digest req) s;
                (commitCnt, s1) = count_commit req s in
            if commitCnt \<ge> 2 * malicious_num s1 \<and> \<not> isAlreadyReplied then
              let (_, s2) = setReplySent (Digest req) s1 in
              bindO (bindO (Returns () [CommitCalled req]) (\<lambda>_. call_addon (HandleCommitAddon A) now req s2)) (\<lambda>(_, s3).
              if Nid s3 = view s3 then Returns (IncCurrentRound s3) [NotifyDone]
              else Returns s3 [])
            else Returns s1 [])"

text \<open>\<open>RegisterHandlers\<close>: the messages the module listens to.\<close>

definition pbft_handler ::
  "MessageType \<Rightarrow> ('ad addon \<Rightarrow> time \<Rightarrow> message \<Rightarrow> 'ad pbft \<Rightarrow> 'ad pbft outcome) option" where
  "pbft_handler t =
     (case t of
        MsgPropose \<Rightarrow> Some handlePropose
      | MsgPrePrepare \<Rightarrow> Some handlePrePrepare
      | MsgPrepare \<Rightarrow> Some handlePrepare
      | MsgCommit \<Rightarrow> Some handleCommit
      | _ \<Rightarrow> None)"

section \<open>The addons\<close>

definition SimpleAddon :: "unit addon" where
  "SimpleAddon =
     \<lparr>HandleProposeAddon = (\<lambda>ctx req a. Returns (True, a) []),
      HandlePrePrepareAddon = (\<lambda>ctx req a. Returns (True, a) []),
      HandlePrepareAddon = (\<lambda>ctx req a. Returns (True, a) []),
      HandleCommitAddon = (\<lambda>ctx req a. Returns (True, a) [])\<rparr>"

record ('db, 'tdb) tbd =
  stateUpdateDone :: bool
  CurChain :: "('db, 'tdb) blockchain"

definition NewTBDPbftCosensusAddon :: "('db, 'tdb) blockchain \<Rightarrow> ('db, 'tdb) tbd" where
  "NewTBDPbftCosensusAddon bc = \<lparr>stateUpdateDone = False, CurChain = bc\<rparr>"

definition SetStateUpdateDone :: "bool \<Rightarrow> ('db, 'tdb) tbd \<Rightarrow> ('db, 'tdb) tbd" where
  [simp]: "SetStateUpdateDone flag a = a\<lparr>stateUpdateDone := flag\<rparr>"

definition GetStateUpdateDone :: "('db, 'tdb) tbd \<Rightarrow> bool" where
  [simp]: "GetStateUpdateDone a = stateUpdateDone a"

text \<open>The warning that is logged about a block; nothing depends on it.\<close>

definition block_warning :: "('tr, 'tdb, 'ns) chain_env \<Rightarrow> ('db, 'tdb) blockchain \<Rightarrow> block \<Rightarrow> string option" where
  "block_warning E bc b =
     (if Height (Header b) \<noteq> Height (Header (CurrentBlock bc)) + 1
      then Some ''the block height is not equal to the current block height''
      else if GetTxTreeRoot E (Transactions b) \<noteq> TxRoot (Header b)
      then Some ''the transaction root is wrong''
      else None)"

definition tbd_HandlePrePrepare ::
  "('tr, 'tdb, 'ns) chain_env \<Rightarrow> ('db, 'tdb) tbd addon_op" where
  "tbd_HandlePrePrepare E ctx req a =
     (case dec_block (e_codec E) (Content req) of
        None \<Rightarrow> Returns (False, a) []
      | Some b \<Rightarrow>
          let bc = CurChain a; warned = block_warning E bc b in
          (case UpdateStates E (Transactions b) (StateRoot (Header (CurrentBlock bc))) (StateManager bc) of
             Inl p \<Rightarrow> Panics p
           | Inr (_, sm) \<Rightarrow>
               Returns (True, SetStateUpdateDone True (a\<lparr>CurChain := bc\<lparr>StateManager := sm\<rparr>\<rparr>)) []))"

definition tbd_HandlePrepare :: "('db, 'tdb) tbd addon_op" where
  "tbd_HandlePrepare ctx req a = (if \<not> GetStateUpdateDone a then Blocks else Returns (True, a) [])"

definition tbd_HandleCommit ::
  "'db bolt \<Rightarrow> ('tr, 'tdb, 'ns) chain_env \<Rightarrow> ('db, 'tdb) tbd addon_op" where
  "tbd_HandleCommit B E ctx req a =
     (if \<not> GetStateUpdateDone a then Blocks
      else
        (case dec_block (e_codec E) (Content req) of
           None \<Rightarrow> Returns (False, a) []
         | Some b \<Rightarrow>
             (case CommitBlock B E b (CurChain a) of
                Inl p \<Rightarrow> Panics p
              | Inr bc \<Rightarrow>
                  Returns (True, SetStateUpdateDone False (a\<lparr>CurChain := bc\<rparr>))
                    (if ctx_Nid ctx = ViewNodeId (e_cfg E) then
                       [SendTo (ClientAddr (e_cfg E))
                          \<lparr>MsgType = MsgReply,
                           msg_Content = PReply \<lparr>rep_Req = req, rep_Time = ctx_now ctx,
                             rep_Sid = ctx_Sid ctx, ReqQueueLen = ctx_QueueLen ctx\<rparr>\<rparr>]
                     else []))))"

definition TBDAddon :: "'db bolt \<Rightarrow> ('tr, 'tdb, 'ns) chain_env \<Rightarrow> ('db, 'tdb) tbd addon" where
  "TBDAddon B E =
     \<lparr>HandleProposeAddon = (\<lambda>ctx req a. Returns (True, a) []),
      HandlePrePrepareAddon = tbd_HandlePrePrepare E,
      HandlePrepareAddon = tbd_HandlePrepare,
      HandleCommitAddon = tbd_HandleCommit B E\<rparr>"

section \<open>The contract of an addon\<close>

text \<open>
  The module relies on its addon for one thing beyond the flag it returns: an addon talks to
  other parties by direct sends only, it neither broadcasts in the name of the module nor ends a
  round.
\<close>

definition sends_only :: "effect list \<Rightarrow> bool" where
  "sends_only es \<longleftrightarrow> (\<forall>e \<in> set es. case e of SendTo _ _ \<Rightarrow> True | _ \<Rightarrow> False)"

locale pbft_addon =
  fixes A :: "'ad addon"
  assumes propose_sends: "HandleProposeAddon A ctx req a = Returns r e \<Longrightarrow> sends_only e"
    and prePrepare_sends: "HandlePrePrepareAddon A ctx req a = Returns r e \<Longrightarrow> sends_only e"
    and prepare_sends: "HandlePrepareAddon A ctx req a = Returns r e \<Longrightarrow> sends_only e"
    and commit_sends: "HandleCommitAddon A ctx req a = Returns r e \<Longrightarrow> sends_only e"

interpretation simple: pbft_addon SimpleAddon
  by unfold_locales (simp_all add: SimpleAddon_def sends_only_def)

interpretation tbd: pbft_addon "TBDAddon B E"
  by unfold_locales
    (auto simp: TBDAddon_def sends_only_def tbd_HandlePrePrepare_def tbd_HandlePrepare_def
      tbd_HandleCommit_def Let_def split: option.splits sum.splits if_splits)

lemma call_addon_cases:
  assumes "call_addon op now req s = Returns (flag, s') e"
  obtains ctx a where "op ctx req (addonState s) = Returns (flag, a) e" "s' = s\<lparr>addonState := a\<rparr>"
  using assms unfolding call_addon_def by (auto simp: bindO_Returns_iff)

lemma call_SimpleAddon [simp]:
  "call_addon (HandleProposeAddon SimpleAddon) now req s = Returns (True, s) []"
  "call_addon (HandlePrePrepareAddon SimpleAddon) now req s = Returns (True, s) []"
  "call_addon (HandlePrepareAddon SimpleAddon) now req s = Returns (True, s) []"
  "call_addon (HandleCommitAddon SimpleAddon) now req s = Returns (True, s) []"
  by (simp_all add: call_addon_def SimpleAddon_def)

section \<open>The request pool\<close>

lemmas pool_defs = ensure_info_def count_prepare_def count_commit_def NewRequestInfo_def
  isCommitBroadcasted_def setCommitBroadcasted_def isReplySent_def setReplySent_def Let_def

lemma count_commit_pool:
  assumes "count_commit req s = (n, s')"
  shows "\<exists>i. requestPool s' = (requestPool s)(Digest req \<mapsto> i) \<and> n = cntCommitConfirm i \<and>
    isReply i = isReplySent (Digest req) s \<and> isCommitBroadcast i = isCommitBroadcasted (Digest req) s \<and>
    s' = s\<lparr>requestPool := requestPool s'\<rparr>"
  using assms by (cases "requestPool s (Digest req)") (auto simp: pool_defs)

lemma count_prepare_pool:
  assumes "count_prepare req s = (n, s')"
  shows "\<exists>i. requestPool s' = (requestPool s)(Digest req \<mapsto> i) \<and> n = cntPrepareConfirm i \<and>
    isReply i = isReplySent (Digest req) s \<and> isCommitBroadcast i = isCommitBroadcasted (Digest req) s \<and>
    s' = s\<lparr>requestPool := requestPool s'\<rparr>"
  using assms by (cases "requestPool s (Digest req)") (auto simp: pool_defs)

text \<open>What each pool operation does to the flag \<open>isReply\<close>.\<close>

lemma isReplySent_simps [simp]:
  "isReplySent d (s\<lparr>addonState := a\<rparr>) = isReplySent d s"
  "isReplySent d (IncCurrentRound s) = isReplySent d s"
  "isReplySent d (ensure_info req s) = isReplySent d s"
  "isReplySent d (snd (count_prepare req s)) = isReplySent d s"
  "isReplySent d (snd (count_commit req s)) = isReplySent d s"
  "isReplySent d (snd (setCommitBroadcasted d' s)) = isReplySent d s"
  "isReplySent d (s\<lparr>requestQueue := q\<rparr>) = isReplySent d s"
  "isReplySent d (s\<lparr>requestPool := (requestPool s)(d' \<mapsto> i)\<rparr>) = (if d = d' then isReply i else isReplySent d s)"
  by (auto simp: pool_defs IncCurrentRound_def split: option.splits)

lemma isReplySent_set: "requestPool s d' \<noteq> None \<Longrightarrow>
    isReplySent d (snd (setReplySent d' s)) \<longleftrightarrow> d = d' \<or> isReplySent d s"
  by (auto simp: pool_defs split: option.splits)

lemma count_commit_known: "requestPool (snd (count_commit req s)) (Digest req) \<noteq> None"
  by (simp add: pool_defs)

section \<open>Serving messages one after the other\<close>

definition dispatch :: "'ad addon \<Rightarrow> time \<Rightarrow> message \<Rightarrow> 'ad pbft \<Rightarrow> 'ad pbft outcome" where
  "dispatch A now m s = (case pbft_handler (MsgType m) of None \<Rightarrow> Returns s [] | Some h \<Rightarrow> h A now m s)"

fun serve :: "'ad addon \<Rightarrow> time \<Rightarrow> message list \<Rightarrow> 'ad pbft \<Rightarrow> 'ad pbft outcome" where
  "serve A now [] s = Returns s []"
| "serve A now (m # ms) s = bindO (dispatch A now m s) (serve A now ms)"

definition proposes :: "bytes \<Rightarrow> message \<Rightarrow> bool" where
  "proposes d m \<longleftrightarrow> MsgType m = MsgPropose \<and>
     (\<exists>req. decode_request (msg_Content m) = Some req \<and> Digest req = d)"

definition commits_of :: "bytes \<Rightarrow> effect list \<Rightarrow> nat" where
  "commits_of d es = length (filter (\<lambda>e. case e of CommitCalled req \<Rightarrow> Digest req = d | _ \<Rightarrow> False) es)"

lemma commits_of_simps [simp]:
  "commits_of d [] = 0"
  "commits_of d (es @ es') = commits_of d es + commits_of d es'"
  "commits_of d (CommitCalled req # es) = (if Digest req = d then 1 else 0) + commits_of d es"
  "commits_of d (Broadcast n m # es) = commits_of d es"
  "commits_of d (NotifyDone # es) = commits_of d es"
  by (simp_all add: commits_of_def)

lemma sends_only_commits: "sends_only es \<Longrightarrow> commits_of d es = 0"
  by (auto simp: commits_of_def sends_only_def filter_empty_conv split: effect.splits)

lemma call_addon_reply: "call_addon op now req s = Returns (f, s') e \<Longrightarrow> isReplySent d s' = isReplySent d s"
  by (auto elim: call_addon_cases)

context pbft_addon
begin

lemma call_sends:
  "call_addon (HandleProposeAddon A) now req s = Returns (f, s') e \<Longrightarrow> sends_only e"
  "call_addon (HandlePrePrepareAddon A) now req s = Returns (f, s') e \<Longrightarrow> sends_only e"
  "call_addon (HandlePrepareAddon A) now req s = Returns (f, s') e \<Longrightarrow> sends_only e"
  "call_addon (HandleCommitAddon A) now req s = Returns (f, s') e \<Longrightarrow> sends_only e"
  by (auto elim!: call_addon_cases dest: propose_sends prePrepare_sends prepare_sends commit_sends)

lemmas call_commits = call_sends [THEN sends_only_commits]

lemma handlePropose_commits:
  assumes "handlePropose A now m s = Returns s' e" and "\<not> proposes d m" and "MsgType m = MsgPropose"
  shows "commits_of d e = 0 \<and> (isReplySent d s \<longrightarrow> isReplySent d s')"
  using assms
  by (auto simp: handlePropose_def Let_def bindO_Returns_iff proposes_def call_commits
      dest: call_addon_reply [where d = d] split: option.splits if_splits)

lemma handlePrePrepare_commits:
  assumes "handlePrePrepare A now m s = Returns s' e"
  shows "commits_of d e = 0 \<and> (isReplySent d s \<longrightarrow> isReplySent d s')"
proof (cases "decode_pbft (msg_Content m)")
  case (Some p)
  show ?thesis
    using assms Some
    by (auto simp: handlePrePrepare_def Let_def bindO_Returns_iff call_commits
        dest: call_addon_reply [where d = d] split: if_splits)
qed (use assms in \<open>simp add: handlePrePrepare_def\<close>)

lemma handlePrepare_commits:
  assumes "handlePrepare A now m s = Returns s' e"
  shows "commits_of d e = 0 \<and> (isReplySent d s \<longrightarrow> isReplySent d s')"
proof (cases "decode_pbft (msg_Content m)")
  case (Some p)
  let ?r = "pm_Request p"
  show ?thesis
  proof (cases "Round p < getCurrentRound s")
    case False
    with assms Some obtain f s1 e1 where c: "call_addon (HandlePrepareAddon A) now ?r s = Returns (f, s1) e1"
      by (cases "call_addon (HandlePrepareAddon A) now ?r s") (auto simp: handlePrepare_def Let_def)
    obtain n s2 where n: "count_prepare ?r s1 = (n, s2)" by fastforce
    obtain ok s3 where o: "setCommitBroadcasted (Digest ?r) s2 = (ok, s3)" by fastforce
    have "isReplySent d s2 = isReplySent d s1" "isReplySent d s3 = isReplySent d s2"
      using isReplySent_simps(4) [of d ?r s1] isReplySent_simps(6) [of d "Digest ?r" s2] n o by simp_all
    moreover have "isReplySent d s1 = isReplySent d s" using c by (auto elim: call_addon_cases)
    ultimately show ?thesis
      using assms Some False sends_only_commits [OF call_sends(3) [OF c]]
      by (auto simp: handlePrepare_def c n o Let_def bindO_def split: if_splits)
  qed (use assms Some in \<open>simp add: handlePrepare_def\<close>)
qed (use assms in \<open>simp add: handlePrepare_def\<close>)

lemma handleCommit_commits:
  assumes "handleCommit A now m s = Returns s' e"
  shows "commits_of d e + (if isReplySent d s then 1 else 0) \<le> (if isReplySent d s' then 1 else 0)"
proof (cases "decode_pbft (msg_Content m)")
  case (Some p)
  let ?r = "pm_Request p"
  show ?thesis
  proof (cases "Round p < getCurrentRound s")
    case False
    obtain n s1 where n: "count_commit ?r s = (n, s1)" by fastforce
    obtain ok s2 where o: "setReplySent (Digest ?r) s1 = (ok, s2)" by fastforce
    have 1: "isReplySent d s1 = isReplySent d s" and k: "requestPool s1 (Digest ?r) \<noteq> None"
      using isReplySent_simps(5) [of d ?r s] count_commit_known [of ?r s] n by simp_all
    have 2: "isReplySent d s2 \<longleftrightarrow> d = Digest ?r \<or> isReplySent d s"
      using isReplySent_set [OF k, of d] o 1 by simp
    show ?thesis
    proof (cases "2 * malicious_num s1 \<le> n \<and> \<not> isReplySent (Digest ?r) s")
      case True
      with assms Some False obtain f s3 e1 where
        c: "call_addon (HandleCommitAddon A) now ?r s2 = Returns (f, s3) e1"
        by (cases "call_addon (HandleCommitAddon A) now ?r s2") (auto simp: handleCommit_def n o bindO_def)
      with assms Some False True have e: "e = CommitCalled ?r # e1 \<or> e = CommitCalled ?r # e1 @ [NotifyDone]"
           "isReplySent d s' = isReplySent d s3"
        by (auto simp: handleCommit_def n o bindO_def split: if_splits)
      have "isReplySent d s3 = isReplySent d s2" using c by (auto elim: call_addon_cases)
      with e 2 True sends_only_commits [OF call_sends(4) [OF c], of d] show ?thesis by auto
    qed (use assms Some False 1 in \<open>auto simp: handleCommit_def n\<close>)
  qed (use assms Some in \<open>simp add: handleCommit_def\<close>)
qed (use assms in \<open>simp add: handleCommit_def\<close>)

lemma dispatch_commits:
  assumes "dispatch A now m s = Returns s' e" and "\<not> proposes d m"
  shows "commits_of d e + (if isReplySent d s then 1 else 0) \<le> (if isReplySent d s' then 1 else 0)"
  using assms handlePropose_commits [of now m s s' e d] handlePrePrepare_commits [of now m s s' e d]
    handlePrepare_commits [of now m s s' e d] handleCommit_commits [of now m s s' e d]
  by (cases "MsgType m") (simp_all add: dispatch_def pbft_handler_def)

lemma serve_commits:
  "serve A now ms s = Returns s' e \<Longrightarrow> \<forall>m \<in> set ms. \<not> proposes d m \<Longrightarrow>
    commits_of d e + (if isReplySent d s then 1 else 0) \<le> (if isReplySent d s' then 1 else 0)"
proof (induction ms arbitrary: s e)
  case (Cons m ms)
  then obtain s1 e1 e2 where "dispatch A now m s = Returns s1 e1" "serve A now ms s1 = Returns s' e2"
    "e = e1 @ e2" by (auto simp: bindO_Returns_iff)
  with Cons.IH [of s1 e2] Cons.prems(2) dispatch_commits [of now m s s1 e1 d] show ?case by force
qed simp

end

section \<open>Properties of the sequential module\<close>


subsection \<open>The commit quorum\<close>

definition commit_msgs :: "request \<Rightarrow> int \<Rightarrow> nat \<Rightarrow> message list" where
  "commit_msgs req round k = replicate k (pbft_msg MsgCommit req round)"

definition commit_count :: "bytes \<Rightarrow> 'ad pbft \<Rightarrow> int" where
  "commit_count d s = (case requestPool s d of None \<Rightarrow> 0 | Some i \<Rightarrow> cntCommitConfirm i)"

lemma dispatch_commit:
  assumes "currentRound s \<le> round" and "\<not> isReplySent (Digest req) s"
  shows "\<exists>s'. (if 2 * malicious_num s \<le> commit_count (Digest req) s + 1
      then isReplySent (Digest req) s' \<and>
        dispatch SimpleAddon now (pbft_msg MsgCommit req round) s =
          Returns s' (CommitCalled req # (if Nid s = view s then [NotifyDone] else []))
      else dispatch SimpleAddon now (pbft_msg MsgCommit req round) s = Returns s' [] \<and>
        \<not> isReplySent (Digest req) s' \<and> commit_count (Digest req) s' = commit_count (Digest req) s + 1 \<and>
        currentRound s' = currentRound s \<and> malicious_num s' = malicious_num s)"
  using assms
  by (cases "2 * malicious_num s \<le> commit_count (Digest req) s + 1"; cases "Nid s = view s";
      cases "requestPool s (Digest req)")
    (simp_all add: dispatch_def pbft_handler_def pbft_msg_def handleCommit_def getCurrentRound_def pool_defs
      commit_count_def IncCurrentRound_def bindO_def)

lemma serve_commit_replied:
  assumes "isReplySent (Digest req) s"
  shows "\<exists>s'. serve SimpleAddon now (commit_msgs req round k) s = Returns s' [] \<and> isReplySent (Digest req) s'"
  using assms
proof (induction k arbitrary: s)
  case (Suc k)
  have "\<exists>s1. dispatch SimpleAddon now (pbft_msg MsgCommit req round) s = Returns s1 [] \<and> isReplySent (Digest req) s1"
    using Suc.prems by (cases "requestPool s (Digest req)")
      (auto simp: dispatch_def pbft_handler_def pbft_msg_def handleCommit_def pool_defs)
  with Suc.IH show ?case by (fastforce simp: commit_msgs_def)
qed (simp add: commit_msgs_def)

lemma serve_commits_from:
  assumes "currentRound s \<le> round" and "\<not> isReplySent (Digest req) s"
  shows "\<exists>s' es. serve SimpleAddon now (commit_msgs req round k) s = Returns s' es \<and>
    (isReplySent (Digest req) s' \<longleftrightarrow> 1 \<le> k \<and> 2 * malicious_num s \<le> commit_count (Digest req) s + int k) \<and>
    commits_of (Digest req) es = (if isReplySent (Digest req) s' then 1 else 0)"
  using assms
proof (induction k arbitrary: s)
  case (Suc k)
  show ?case
  proof (cases "2 * malicious_num s \<le> commit_count (Digest req) s + 1")
    case True
    with dispatch_commit [OF Suc.prems, of now] obtain s1 where
      "isReplySent (Digest req) s1"
      "dispatch SimpleAddon now (pbft_msg MsgCommit req round) s =
        Returns s1 (CommitCalled req # (if Nid s = view s then [NotifyDone] else []))" by auto
    with serve_commit_replied [of req s1 now round k] True show ?thesis
      by (auto simp: commit_msgs_def bindO_def)
  next
    case False
    with dispatch_commit [OF Suc.prems, of now] obtain s1 where s1:
      "dispatch SimpleAddon now (pbft_msg MsgCommit req round) s = Returns s1 []"
      "\<not> isReplySent (Digest req) s1" "commit_count (Digest req) s1 = commit_count (Digest req) s + 1"
      "currentRound s1 = currentRound s" "malicious_num s1 = malicious_num s" by auto
    with Suc.IH [of s1] Suc.prems False show ?thesis
      by (fastforce simp: commit_msgs_def)
  qed
qed (simp add: commit_msgs_def)

text \<open>
  With the simple addon a node commits a fresh request on exactly the \<open>max 1 (2f)\<close>-th commit
  message of the current round, where \<open>f\<close> is \<open>malicious_num\<close>: after \<open>k\<close> messages the
  request is replied, and was committed once, if and only if \<open>k \<ge> 1\<close> and \<open>k \<ge> 2f\<close>.
\<close>

theorem commit_quorum_exact:
  assumes "currentRound s \<le> round" and "requestPool s (Digest req) = None"
  shows "\<exists>s' es. serve SimpleAddon now (commit_msgs req round k) s = Returns s' es \<and>
    (isReplySent (Digest req) s' \<longleftrightarrow> 1 \<le> k \<and> 2 * malicious_num s \<le> int k) \<and>
    commits_of (Digest req) es = (if isReplySent (Digest req) s' then 1 else 0)"
  using serve_commits_from [OF assms(1), of req now k] assms(2)
  by (simp add: isReplySent_def commit_count_def)

subsection \<open>The TBD addon\<close>

text \<open>
  The TBD addon validates nothing: in the estimating mode its pre-prepare step accepts every
  block that decodes, whatever its height, its previous hash and its transaction root, and a
  following commit makes that block the current one, so that the height of the chain becomes the
  height the block claims.
\<close>

theorem tbd_accepts_any_block:
  assumes "TxVerifyTime (e_cfg E)" and "0 < ExecTimeDelay E" and "dec_block (e_codec E) (Content req) = Some b"
  shows "tbd_HandlePrePrepare E ctx req a = Returns (True, a\<lparr>stateUpdateDone := True\<rparr>) [] \<and>
    (\<forall>ok a' es. tbd_HandleCommit B E ctx req (a\<lparr>stateUpdateDone := True\<rparr>) = Returns (ok, a') es \<longrightarrow>
       ok \<and> \<not> stateUpdateDone a' \<and>
       Height (Header (CurrentBlock (CurChain a'))) = Height (Header b) \<and>
       PrevBlockHash (Header (CurrentBlock (CurChain a'))) = PrevBlockHash (Header b) \<and>
       b_Hash (CurrentBlock (CurChain a')) = b_Hash b)"
  using assms
  by (auto simp: tbd_HandlePrePrepare_def tbd_HandleCommit_def UpdateStates_def Let_def
      split: sum.splits dest: CommitBlock_current)

text \<open>The addon calls of a node as a sequence; the number of blocks appended to the chain.\<close>

datatype tbd_call = CallPrePrepare addon_ctx request | CallPrepare addon_ctx request | CallCommit addon_ctx request

fun tbd_run ::
  "'db bolt \<Rightarrow> ('tr, 'tdb, 'ns) chain_env \<Rightarrow> tbd_call list \<Rightarrow> ('db, 'tdb) tbd \<Rightarrow> (nat \<times> ('db, 'tdb) tbd) outcome" where
  "tbd_run B E [] a = Returns (0, a) []"
| "tbd_run B E (CallPrePrepare ctx req # cs) a =
     bindO (tbd_HandlePrePrepare E ctx req a) (\<lambda>(_, a'). tbd_run B E cs a')"
| "tbd_run B E (CallPrepare ctx req # cs) a =
     bindO (tbd_HandlePrepare ctx req a) (\<lambda>(_, a'). tbd_run B E cs a')"
| "tbd_run B E (CallCommit ctx req # cs) a =
     bindO (tbd_HandleCommit B E ctx req a) (\<lambda>(ok, a').
     bindO (tbd_run B E cs a') (\<lambda>(n, a''). Returns (if ok then n + 1 else n, a'') []))"

definition is_prePrepare :: "tbd_call \<Rightarrow> bool" where
  "is_prePrepare c = (case c of CallPrePrepare _ _ \<Rightarrow> True | _ \<Rightarrow> False)"

lemma tbd_flag:
  "tbd_HandlePrepare ctx req a = Returns (ok, a') e \<Longrightarrow> a' = a"
  "tbd_HandleCommit B E ctx req a = Returns (ok, a') e \<Longrightarrow>
     stateUpdateDone a \<and> stateUpdateDone a' = (\<not> ok)"
  by (auto simp: tbd_HandlePrepare_def tbd_HandleCommit_def split: if_splits option.splits sum.splits)

text \<open>
  The update flag of the TBD addon hands over one block per pre-prepare: in every sequence of
  addon calls that returns, the number of blocks appended is at most the number of pre-prepare
  calls (plus one if the flag was already set), and a commit with the flag cleared waits.
\<close>

theorem tbd_handover:
  assumes "tbd_run B E cs a = Returns (n, a') es"
  shows "n + (if stateUpdateDone a' then 1 else 0)
      \<le> length (filter is_prePrepare cs) + (if stateUpdateDone a then 1 else 0)"
  using assms
proof (induction B E cs a arbitrary: n a' es rule: tbd_run.induct)
  case (2 B E ctx req cs a)
  then obtain ok a1 e1 e2 where "tbd_run B E cs a1 = Returns (n, a') e2"
    "tbd_HandlePrePrepare E ctx req a = Returns (ok, a1) e1"
    by (auto simp: bindO_Returns_iff)
  from "2.IH" [OF this(1)] show ?case
    by (simp add: is_prePrepare_def split: if_splits)
next
  case (3 B E ctx req cs a)
  then obtain ok a1 e1 e2 where "tbd_run B E cs a1 = Returns (n, a') e2"
    "tbd_HandlePrepare ctx req a = Returns (ok, a1) e1"
    by (auto simp: bindO_Returns_iff)
  from "3.IH" [OF this(1)] tbd_flag(1) [OF this(2)] show ?case
    by (simp add: is_prePrepare_def)
next
  case (4 B E ctx req cs a)
  then obtain ok a1 e1 m e2 where r: "tbd_run B E cs a1 = Returns (m, a') e2"
    "tbd_HandleCommit B E ctx req a = Returns (ok, a1) e1" and n: "n = (if ok then m + 1 else m)"
    by (fastforce simp: bindO_Returns_iff)
  from "4.IH" [OF r(1)] tbd_flag(2) [OF r(2)] n show ?case
    by (cases ok) (simp_all add: is_prePrepare_def)
qed simp

section \<open>Concrete runs\<close>

definition example_req :: "string \<Rightarrow> request" where
  "example_req content = \<lparr>ShardId = 0, ReqType = ReqVerifyBlock, Content = content, ReqTime = 0,
     Digest = content, Sig = None\<rparr>"

text \<open>Node 1 of a shard of four nodes with view node 0.\<close>

definition example_node :: "'ad \<Rightarrow> 'ad pbft" where
  "example_node a = \<lparr>Nid = 1, Sid = 0, Ipaddr = ''n1'', view = 0, pbft_num = 4, malicious_num = 1,
     requestQueue = NewQueue, requestPool = Map.empty, currentRound = 0, addonState = a\<rparr>"

definition ex_env :: "(string, unit, unit) chain_env" where
  "ex_env = example_env True example_blocks"

definition ex_tbd :: "(((string \<times> bytes) \<times> bytes) list, unit) tbd" where
  "ex_tbd = NewTBDPbftCosensusAddon example_chain"

lemma ex_env_simps [simp]:
  "dec_block (e_codec ex_env) ''A'' = Some (child_block ''A'' ''G'' 1)"
  "dec_block (e_codec ex_env) ''B'' = Some (child_block ''B'' ''A'' 2)"
  "UpdateStates ex_env txs root sm = Inr (True, sm)"
  "ViewNodeId (e_cfg ex_env) = 0" "TxVerifyTime (e_cfg ex_env)" "0 < ExecTimeDelay ex_env"
  by (simp_all add: ex_env_def example_env_def table_codec_def example_blocks_def child_block_def
      UpdateStates_def example_config_def)

lemma ex_commit:
  obtains f where "\<And>bc. CommitBlock list_bolt ex_env (child_block ''A'' ''G'' 1) bc = Inr (f bc)"
proof -
  have "\<exists>bc1. CommitBlock list_bolt ex_env (child_block ''A'' ''G'' 1) bc = Inr bc1"
    for bc :: "(((string \<times> bytes) \<times> bytes) list, unit) blockchain"
  proof -
    let ?b = "child_block ''A'' ''G'' 1\<lparr>Header := (Header (child_block ''A'' ''G'' 1))
      \<lparr>StateRoot := StateRoot (Header (CurrentBlock bc))\<rparr>\<rparr>"
    have "b_Hash ?b \<noteq> []" by (simp add: child_block_def)
    then obtain s' where "AddBlock list_bolt (e_codec ex_env) ?b (bc_Storage bc) = Inr s'"
      using list_bolt_AddBlock by blast
    then show ?thesis
      by (simp add: CommitBlock_def CommitStates_def ex_env_def example_env_def)
  qed
  then show ?thesis using that by metis
qed


theorem commit_quorum_exact_witness:
  "(\<exists>s' es. serve SimpleAddon 0 (commit_msgs (example_req ''A'') 0 1) (example_node ()) = Returns s' es \<and>
      \<not> isReplySent ''A'' s') \<and>
   (\<exists>s' es. serve SimpleAddon 0 (commit_msgs (example_req ''A'') 0 2) (example_node ()) = Returns s' es \<and>
      isReplySent ''A'' s' \<and> commits_of ''A'' es = 1)"
  using commit_quorum_exact [of "example_node ()" 0 "example_req ''A''" 0 1]
    commit_quorum_exact [of "example_node ()" 0 "example_req ''A''" 0 2]
  by (auto simp: example_node_def example_req_def)

definition ex_ctx :: addon_ctx where
  "ex_ctx = \<lparr>ctx_Nid = 1, ctx_Sid = 0, ctx_QueueLen = 0, ctx_now = 0\<rparr>"

theorem tbd_accepts_any_block_witness:
  "block_warning ex_env example_chain (child_block ''B'' ''A'' 2) \<noteq> None \<and>
   tbd_HandlePrePrepare ex_env ex_ctx (example_req ''B'') ex_tbd = Returns (True, ex_tbd\<lparr>stateUpdateDone := True\<rparr>) []"
proof -
  have "block_warning ex_env example_chain (child_block ''B'' ''A'' 2) \<noteq> None"
    by (simp add: block_warning_def child_block_def example_chain_def root_block_def zero_header_def)
  moreover have "dec_block (e_codec ex_env) (Content (example_req ''B'')) = Some (child_block ''B'' ''A'' 2)"
    by (simp add: example_req_def)
  ultimately show ?thesis
    using tbd_accepts_any_block [of ex_env "example_req ''B''" "child_block ''B'' ''A'' 2" ex_ctx ex_tbd] by simp
qed

theorem tbd_handover_witness:
  "\<exists>a' es. tbd_run list_bolt ex_env [CallPrePrepare ex_ctx (example_req ''A''), CallPrepare ex_ctx (example_req ''A''),
      CallCommit ex_ctx (example_req ''A'')] ex_tbd = Returns (1, a') es \<and>
    1 + (if stateUpdateDone a' then 1 else 0) \<le> (1::nat)"
proof -
  obtain f where f: "\<And>bc. CommitBlock list_bolt ex_env (child_block ''A'' ''G'' 1) bc = Inr (f bc)"
    using ex_commit by blast
  obtain a' es where *: "tbd_run list_bolt ex_env [CallPrePrepare ex_ctx (example_req ''A''),
      CallPrepare ex_ctx (example_req ''A''), CallCommit ex_ctx (example_req ''A'')] ex_tbd = Returns (1, a') es"
    by (simp add: tbd_HandlePrePrepare_def tbd_HandlePrepare_def tbd_HandleCommit_def example_req_def
        ex_tbd_def ex_ctx_def NewTBDPbftCosensusAddon_def f bindO_def)
  from tbd_handover [OF *] * show ?thesis
    by (auto simp: is_prePrepare_def ex_tbd_def NewTBDPbftCosensusAddon_def)
qed

end
