(* ===== verification/PBFT_Run.thy ===== *)
theory PBFT_Run
  imports PBFT
begin

text \<open>
  The goroutines of a PBFT node.  The network layer starts one goroutine per message
  (\<open>go handler(msg)\<close> in node/p2p/p2p.go), so handlers interleave.  A handler is cut at the
  points where it takes a lock or calls its addon: \<open>pc\<close> says where a goroutine stands,
  \<open>tstep\<close> is one critical section.  Run alone, a goroutine computes the handler of theory PBFT
  (\<open>exec_handler\<close>).  \<open>sys\<close> is the node with its goroutines and the loop \<open>Run\<close> of the
  view node; \<open>sys_step\<close> is one step of any of them.  The ghost fields \<open>received\<close> and
  \<open>log\<close> record the messages delivered and the effects, \<open>rounds\<close> counts the tokens the
  loop has consumed and \<open>proposed\<close> the pre-prepare messages it has sent.
\<close>

datatype pc =
    ProposeStart message | ProposeCall request | ProposeEnqueue request
  | PrePrepareStart message | PrePrepareInsert request int | PrePrepareCall request int
  | PrePrepareSend request int
  | PrepareStart message | PrepareCall request int | PrepareCheck request int
  | PrepareCount request int | PrepareSet request int int | PrepareSend request int
  | CommitStart message | CommitCheck request | CommitCount request bool
  | CommitSet request bool int | CommitCall request | CommitInc | CommitNotify
  | Finished

definition call_then ::
  "'ad addon_op \<Rightarrow> time \<Rightarrow> request \<Rightarrow> 'ad pbft \<Rightarrow> (bool \<Rightarrow> pc) \<Rightarrow> (pc \<times> 'ad pbft) outcome" where
  "call_then op now req s next = bindO (call_addon op now req s) (\<lambda>(flag, s'). Returns (next flag, s') [])"

fun tstep :: "'ad addon \<Rightarrow> time \<Rightarrow> pc \<Rightarrow> 'ad pbft \<Rightarrow> (pc \<times> 'ad pbft) outcome" where
  "tstep A now (ProposeStart msg) s =
     (case decode_request (msg_Content msg) of
        None \<Rightarrow> Returns (Finished, s) []
      | Some req \<Rightarrow> Returns (ProposeCall req,
          s\<lparr>requestPool := (requestPool s)(Digest req \<mapsto> NewRequestInfo req)\<rparr>) [])"
| "tstep A now (ProposeCall req) s =
     call_then (HandleProposeAddon A) now req s (\<lambda>flag. if flag then ProposeEnqueue req else Finished)"
| "tstep A now (ProposeEnqueue req) s = Returns (Finished, s\<lparr>requestQueue := Enqueue req (requestQueue s)\<rparr>) []"
| "tstep A now (PrePrepareStart msg) s =
     (case decode_pbft (msg_Content msg) of
        None \<Rightarrow> Returns (Finished, s) []
      | Some p \<Rightarrow> Returns (if Round p < getCurrentRound s then Finished
                           else PrePrepareInsert (pm_Request p) (Round p), s) [])"
| "tstep A now (PrePrepareInsert req round) s = Returns (PrePrepareCall req round, ensure_info req s) []"
| "tstep A now (PrePrepareCall req round) s =
     call_then (HandlePrePrepareAddon A) now req s (\<lambda>flag. if flag then PrePrepareSend req round else Finished)"
| "tstep A now (PrePrepareSend req round) s =
     Returns (Finished, s) [Broadcast (ShardId req) (pbft_msg MsgPrepare req round)]"
| "tstep A now (PrepareStart msg) s =
     (case decode_pbft (msg_Content msg) of
        None \<Rightarrow> Returns (Finished, s) []
      | Some p \<Rightarrow> Returns (if Round p < getCurrentRound s then Finished
                           else PrepareCall (pm_Request p) (Round p), s) [])"
| "tstep A now (PrepareCall req round) s =
     call_then (HandlePrepareAddon A) now req s (\<lambda>_. PrepareCheck req round)"
| "tstep A now (PrepareCheck req round) s =
     Returns (if isCommitBroadcasted (Digest req) s then Finished else PrepareCount req round, s) []"
| "tstep A now (PrepareCount req round) s =
     (let (n, s') = count_prepare req s in Returns (PrepareSet req round n, s') [])"
| "tstep A now (PrepareSet req round n) s =
     (if n \<ge> needCnt s then
        (let (ok, s') = setCommitBroadcasted (Digest req) s
         in Returns (if ok then PrepareSend req round else Finished, s') [])
      else Returns (Finished, s) [])"
| "tstep A now (PrepareSend req round) s =
     Returns (Finished, s) [Broadcast (ShardId req) (pbft_msg MsgCommit req round)]"
| "tstep A now (CommitStart msg) s =
     (case decode_pbft (msg_Content msg) of
        None \<Rightarrow> Returns (Finished, s) []
      | Some p \<Rightarrow> Returns (if Round p < getCurrentRound s then Finished else CommitCheck (pm_Request p), s) [])"
| "tstep A now (CommitCheck req) s = Returns (CommitCount req (isReplySent (Digest req) s), s) []"
| "tstep A now (CommitCount req replied) s =
     (let (n, s') = count_commit req s in Returns (CommitSet req replied n, s') [])"
| "tstep A now (CommitSet req replied n) s =
     (if n \<ge> 2 * malicious_num s \<and> \<not> replied then
        (let (ok, s') = setReplySent (Digest req) s in Returns (CommitCall req, s') [])
      else Returns (Finished, s) [])"
| "tstep A now (CommitCall req) s =
     bindO (Returns () [CommitCalled req]) (\<lambda>_.
       call_then (HandleCommitAddon A) now req s (\<lambda>_. if Nid s = view s then CommitInc else Finished))"
| "tstep A now CommitInc s = Returns (CommitNotify, IncCurrentRound s) []"
| "tstep A now CommitNotify s = Returns (Finished, s) [NotifyDone]"
| "tstep A now Finished s = Returns (Finished, s) []"

fun start_pc :: "message \<Rightarrow> pc option" where
  "start_pc m =
     (case MsgType m of
        MsgPropose \<Rightarrow> Some (ProposeStart m)
      | MsgPrePrepare \<Rightarrow> Some (PrePrepareStart m)
      | MsgPrepare \<Rightarrow> Some (PrepareStart m)
      | MsgCommit \<Rightarrow> Some (CommitStart m)
      | _ \<Rightarrow> None)"

section \<open>A goroutine that runs alone computes its handler\<close>

fun exec :: "nat \<Rightarrow> 'ad addon \<Rightarrow> time \<Rightarrow> pc \<Rightarrow> 'ad pbft \<Rightarrow> 'ad pbft outcome" where
  "exec 0 A now pc s = Returns s []"
| "exec (Suc k) A now pc s = bindO (tstep A now pc s) (\<lambda>(pc', s'). exec k A now pc' s')"

lemma exec_Finished [simp]: "exec k A now Finished s = Returns s []"
  by (induction k) simp_all

lemma bindO_assoc: "bindO (bindO m f) g = bindO m (\<lambda>x. bindO (f x) g)"
  by (cases m) (auto simp: bindO_def split: outcome.splits)

lemma bindO_assoc_pair [simp]:
  "bindO (bindO m (\<lambda>(x, y). f x y)) g = bindO m (\<lambda>(x, y). bindO (f x y) g)"
  by (simp add: bindO_assoc split_def)

lemma exec_call_then [simp]:
  "bindO (call_then op now req s next) (\<lambda>(pc', s'). exec k A now pc' s')
   = bindO (call_addon op now req s) (\<lambda>(flag, s'). exec k A now (next flag) s')"
  by (simp add: call_then_def)

text \<open>The part of each handler after its addon call, or after its round check.\<close>

lemma exec_prepare_tail:
  "exec 5 A now (PrepareCheck req round) s =
     (let isAlreadyCommitted = isCommitBroadcasted (Digest req) s in
      if isAlreadyCommitted then Returns s []
      else let (prepareCnt, s2) = count_prepare req s in
        if prepareCnt \<ge> needCnt s2 \<and> \<not> isAlreadyCommitted then
          let (ok, s3) = setCommitBroadcasted (Digest req) s2 in
          if ok then Returns s3 [Broadcast (ShardId req) (pbft_msg MsgCommit req round)] else Returns s3 []
        else Returns s2 [])"
  by (cases "count_prepare req s"; cases "setCommitBroadcasted (Digest req) (snd (count_prepare req s))")
    (simp add: eval_nat_numeral Let_def bindO_def)

lemma exec_commit_call:
  "exec 3 A now (CommitCall req) s =
     bindO (bindO (Returns () [CommitCalled req]) (\<lambda>_. call_addon (HandleCommitAddon A) now req s)) (\<lambda>(_, s3).
       if Nid s3 = view s3 then Returns (IncCurrentRound s3) [NotifyDone] else Returns s3 [])"
proof (cases "call_addon (HandleCommitAddon A) now req s")
  case (Returns r e)
  moreover obtain f s3 where "r = (f, s3)" by (cases r)
  moreover from calculation have "Nid s3 = Nid s \<and> view s3 = view s"
    by (auto elim: call_addon_cases)
  ultimately show ?thesis by (simp add: eval_nat_numeral call_then_def bindO_def)
qed (simp_all add: eval_nat_numeral call_then_def bindO_def)

lemma exec_Suc_eq: "n = Suc k \<Longrightarrow>
    exec n A now pc s = bindO (tstep A now pc s) (\<lambda>(pc', s'). exec k A now pc' s')"
  by (simp only: exec.simps(2))

lemma exec_unfold:
  "exec 7 A now pc s = bindO (tstep A now pc s) (\<lambda>(pc', s'). exec 6 A now pc' s')"
  "exec 6 A now pc s = bindO (tstep A now pc s) (\<lambda>(pc', s'). exec 5 A now pc' s')"
  "exec 5 A now pc s = bindO (tstep A now pc s) (\<lambda>(pc', s'). exec 4 A now pc' s')"
  "exec 4 A now pc s = bindO (tstep A now pc s) (\<lambda>(pc', s'). exec 3 A now pc' s')"
  by (rule exec_Suc_eq, simp)+

lemma exec_PrepareStart: "exec 7 A now (PrepareStart m) s = handlePrepare A now m s"
  by (cases "decode_pbft (msg_Content m)")
    (simp_all add: handlePrepare_def exec_unfold(1,2) exec_prepare_tail Let_def)

lemma exec_CommitStart: "exec 7 A now (CommitStart m) s = handleCommit A now m s"
proof (cases "decode_pbft (msg_Content m)")
  case (Some p)
  obtain n s1 where n: "count_commit (pm_Request p) s = (n, s1)" by fastforce
  obtain ok s2 where o: "setReplySent (Digest (pm_Request p)) s1 = (ok, s2)" by fastforce
  have "exec 7 A now (CommitStart m) s =
      (if Round p < getCurrentRound s then Returns s []
       else if n \<ge> 2 * malicious_num s1 \<and> \<not> isReplySent (Digest (pm_Request p)) s
       then exec 3 A now (CommitCall (pm_Request p)) s2 else Returns s1 [])"
    by (simp add: exec_unfold(1-4) Some n o del: tstep.simps(18))
  then show ?thesis by (simp add: handleCommit_def Some n o exec_commit_call Let_def)
qed (simp add: handleCommit_def exec_unfold(1))

lemma exec_PrePrepareStart: "exec 7 A now (PrePrepareStart m) s = handlePrePrepare A now m s"
proof -
  have t: "exec 4 A now (if flag then PrePrepareSend req round else Finished) s =
      (if \<not> flag then Returns s [] else Returns s [Broadcast (ShardId req) (pbft_msg MsgPrepare req round)])"
    for flag req round and s :: "'a pbft"
    by (simp add: exec_unfold(4) bindO_def)
  show ?thesis
    by (cases "decode_pbft (msg_Content m)")
      (simp_all add: handlePrePrepare_def exec_unfold(1-3) t Let_def cong: if_cong)
qed

lemma exec_ProposeStart: "exec 7 A now (ProposeStart m) s = handlePropose A now m s"
proof -
  have t: "exec 5 A now (if flag then ProposeEnqueue req else Finished) s =
      (if \<not> flag then Returns s [] else Returns (s\<lparr>requestQueue := Enqueue req (requestQueue s)\<rparr>) [])"
    for flag req and s :: "'a pbft"
    by (simp add: exec_unfold(3))
  show ?thesis
    by (cases "decode_request (msg_Content m)")
      (simp_all add: handlePropose_def exec_unfold(1,2) t Let_def)
qed


section \<open>The node as a system of goroutines\<close>

text \<open>
  The loop \<open>Run\<close>: polling the queue, between the broadcast of a pre-prepare message and the
  receive on \<open>consensusDone\<close>, blocked in that receive, returned.  The channel is unbuffered and
  the send is in a \<open>select\<close> with a default case, so it only succeeds in state
  \<open>RunWaiting\<close>; otherwise the notification is lost.
\<close>

datatype run_pc = RunTop | RunSent | RunWaiting | RunStopped

record 'ad sys =
  node :: "'ad pbft"
  threads :: "pc list"
  run :: run_pc
  log :: "effect list"
  received :: "message list"
  rounds :: nat
  proposed :: nat
  crashed :: bool

definition init_sys :: "'ad pbft \<Rightarrow> 'ad sys" where
  "init_sys s = \<lparr>node = s, threads = [], run = (if Nid s \<noteq> view s then RunStopped else RunTop),
     log = [], received = [], rounds = 0, proposed = 0, crashed = False\<rparr>"

definition after_effects :: "effect list \<Rightarrow> 'ad sys \<Rightarrow> 'ad sys" where
  "after_effects es g =
     (if NotifyDone \<in> set es \<and> run g = RunWaiting
      then g\<lparr>log := log g @ es, run := RunTop, rounds := rounds g + 1\<rparr>
      else g\<lparr>log := log g @ es\<rparr>)"

definition run_propose :: "request \<Rightarrow> request queue \<Rightarrow> 'ad sys \<Rightarrow> 'ad sys" where
  "run_propose req q g =
     (let m = pbft_msg MsgPrePrepare req (getCurrentRound (node g)) in
      g\<lparr>node := (node g)\<lparr>requestQueue := q\<rparr>, log := log g @ [Broadcast (ShardId req) m],
        threads := threads g @ [PrePrepareStart m], run := RunSent, proposed := proposed g + 1\<rparr>)"

inductive sys_step :: "'ad addon \<Rightarrow> 'ad sys \<Rightarrow> 'ad sys \<Rightarrow> bool" for A where
  deliver: "\<not> crashed g \<Longrightarrow> start_pc m = Some pc \<Longrightarrow>
    sys_step A g (g\<lparr>threads := threads g @ [pc], received := received g @ [m]\<rparr>)"
| thread: "\<not> crashed g \<Longrightarrow> i < length (threads g) \<Longrightarrow>
    tstep A now (threads g ! i) (node g) = Returns (pc, s) es \<Longrightarrow>
    sys_step A g (after_effects es (g\<lparr>node := s, threads := (threads g)[i := pc]\<rparr>))"
| panic: "\<not> crashed g \<Longrightarrow> i < length (threads g) \<Longrightarrow>
    tstep A now (threads g ! i) (node g) = Panics p \<Longrightarrow> sys_step A g (g\<lparr>crashed := True\<rparr>)"
| propose: "\<not> crashed g \<Longrightarrow> run g = RunTop \<Longrightarrow> Dequeue (requestQueue (node g)) = Some (req, q) \<Longrightarrow>
    sys_step A g (run_propose req q g)"
| wait: "\<not> crashed g \<Longrightarrow> run g = RunSent \<Longrightarrow> sys_step A g (g\<lparr>run := RunWaiting\<rparr>)"
| stop: "\<not> crashed g \<Longrightarrow> run g = RunTop \<or> run g = RunWaiting \<Longrightarrow> sys_step A g (g\<lparr>run := RunStopped\<rparr>)"

inductive reachable :: "'ad addon \<Rightarrow> 'ad pbft \<Rightarrow> 'ad sys \<Rightarrow> bool" for A s0 where
  init: "reachable A s0 (init_sys s0)"
| step: "reachable A s0 g \<Longrightarrow> sys_step A g g' \<Longrightarrow> reachable A s0 g'"

text \<open>A node as its constructor leaves it.\<close>

definition fresh_node :: "'ad pbft \<Rightarrow> bool" where
  "fresh_node s \<longleftrightarrow> requestPool s = Map.empty \<and> currentRound s = 0"

lemma NewPbft_fresh: "NewPbftCosensusMod c nid sid ip mk = Inr s \<Longrightarrow> fresh_node s"
  by (auto simp: NewPbftCosensusMod_def fresh_node_def split: option.splits)

section \<open>Counting messages\<close>

text \<open>How many messages of a type and digest a list holds.\<close>

definition count_msgs :: "MessageType \<Rightarrow> bytes \<Rightarrow> message list \<Rightarrow> int" where
  "count_msgs t d ms = int (length (filter (\<lambda>m. MsgType m = t \<and>
     (\<exists>p. decode_pbft (msg_Content m) = Some p \<and> Digest (pm_Request p) = d)) ms))"

lemma count_msgs_simps [simp]:
  "count_msgs t d [] = 0"
  "count_msgs t d (ms @ ms') = count_msgs t d ms + count_msgs t d ms'"
  by (simp_all add: count_msgs_def)

lemma count_msgs_nonneg: "0 \<le> count_msgs t d ms"
  by (simp add: count_msgs_def)

lemma count_msgs_single: "count_msgs t d [m] = (if MsgType m = t \<and>
    (\<exists>p. decode_pbft (msg_Content m) = Some p \<and> Digest (pm_Request p) = d) then 1 else 0)"
  by (simp add: count_msgs_def)

text \<open>Goroutines that may still count a message of a digest.\<close>

fun pend_prepare :: "bytes \<Rightarrow> pc \<Rightarrow> int" where
  "pend_prepare d (PrepareStart m) = count_msgs MsgPrepare d [m]"
| "pend_prepare d (PrepareCall req _) = (if Digest req = d then 1 else 0)"
| "pend_prepare d (PrepareCheck req _) = (if Digest req = d then 1 else 0)"
| "pend_prepare d (PrepareCount req _) = (if Digest req = d then 1 else 0)"
| "pend_prepare d _ = 0"

fun pend_commit :: "bytes \<Rightarrow> pc \<Rightarrow> int" where
  "pend_commit d (CommitStart m) = count_msgs MsgCommit d [m]"
| "pend_commit d (CommitCheck req) = (if Digest req = d then 1 else 0)"
| "pend_commit d (CommitCount req _) = (if Digest req = d then 1 else 0)"
| "pend_commit d _ = 0"

definition prepare_count :: "bytes \<Rightarrow> 'ad pbft \<Rightarrow> int" where
  "prepare_count d s = (case requestPool s d of None \<Rightarrow> 0 | Some i \<Rightarrow> cntPrepareConfirm i)"

text \<open>Facts about a state that only depend on how many messages were received.\<close>

definition pool_ok :: "(bytes \<Rightarrow> int) \<Rightarrow> (bytes \<Rightarrow> int) \<Rightarrow> 'ad pbft \<Rightarrow> bool" where
  "pool_ok np nc s \<longleftrightarrow>
     (\<forall>d. (isCommitBroadcasted d s \<longrightarrow> needCnt s \<le> np d) \<and>
          (isReplySent d s \<longrightarrow> 2 * malicious_num s \<le> nc d) \<and>
          0 \<le> prepare_count d s \<and> 0 \<le> commit_count d s)"

fun pc_ok :: "(bytes \<Rightarrow> int) \<Rightarrow> (bytes \<Rightarrow> int) \<Rightarrow> 'ad pbft \<Rightarrow> pc \<Rightarrow> bool" where
  "pc_ok np nc s (PrepareStart m) = (MsgType m = MsgPrepare)"
| "pc_ok np nc s (PrepareSet req round n) = (n \<le> np (Digest req))"
| "pc_ok np nc s (PrepareSend req round) = (needCnt s \<le> np (Digest req))"
| "pc_ok np nc s (CommitStart m) = (MsgType m = MsgCommit)"
| "pc_ok np nc s (CommitSet req replied n) = (n \<le> nc (Digest req))"
| "pc_ok np nc s (CommitCall req) = (2 * malicious_num s \<le> nc (Digest req))"
| "pc_ok np nc s _ = True"

fun effect_ok :: "(bytes \<Rightarrow> int) \<Rightarrow> (bytes \<Rightarrow> int) \<Rightarrow> 'ad pbft \<Rightarrow> effect \<Rightarrow> bool" where
  "effect_ok np nc s (Broadcast n m) =
     (case decode_pbft (msg_Content m) of
        Some p \<Rightarrow> MsgType m = MsgCommit \<longrightarrow> needCnt s \<le> np (Digest (pm_Request p))
      | None \<Rightarrow> True)"
| "effect_ok np nc s (CommitCalled req) = (2 * malicious_num s \<le> nc (Digest req))"
| "effect_ok np nc s _ = True"

lemma sends_only_ok: "sends_only es \<Longrightarrow> e \<in> set es \<Longrightarrow> effect_ok np nc s e"
  by (cases e) (fastforce simp: sends_only_def split: effect.splits)+

definition same_params :: "'ad pbft \<Rightarrow> 'ad pbft \<Rightarrow> bool" where
  "same_params s s' \<longleftrightarrow> Nid s' = Nid s \<and> view s' = view s \<and> malicious_num s' = malicious_num s"

lemma same_params_ok:
  assumes "same_params s s'"
  shows "pc_ok np nc s' pc = pc_ok np nc s pc" "effect_ok np nc s' e = effect_ok np nc s e"
    "needCnt s' = needCnt s"
proof -
  have n: "needCnt s' = needCnt s" "malicious_num s' = malicious_num s"
    using assms by (auto simp: same_params_def needCnt_def)
  then show "pc_ok np nc s' pc = pc_ok np nc s pc" by (cases pc) simp_all
  from n show "effect_ok np nc s' e = effect_ok np nc s e" by (cases e) (simp_all split: option.split)
  from n show "needCnt s' = needCnt s" by simp
qed

section \<open>One critical section\<close>

text \<open>
  What a critical section keeps, given bounds \<open>np\<close> and \<open>nc\<close> on the messages received per
  digest: the facts above, and the messages counted plus those still to be counted do not grow.
\<close>

definition step_ok ::
  "(bytes \<Rightarrow> int) \<Rightarrow> (bytes \<Rightarrow> int) \<Rightarrow> 'ad pbft \<Rightarrow> pc \<Rightarrow> pc \<Rightarrow> 'ad pbft \<Rightarrow> effect list \<Rightarrow> bool" where
  "step_ok np nc s pc pc' s' es \<longleftrightarrow>
     same_params s s' \<and> pool_ok np nc s' \<and> pc_ok np nc s' pc' \<and> (\<forall>e \<in> set es. effect_ok np nc s' e) \<and>
     (\<forall>d. prepare_count d s' + pend_prepare d pc' \<le> prepare_count d s + pend_prepare d pc \<and>
          commit_count d s' + pend_commit d pc' \<le> commit_count d s + pend_commit d pc)"

definition enabled_ok :: "(bytes \<Rightarrow> int) \<Rightarrow> (bytes \<Rightarrow> int) \<Rightarrow> 'ad pbft \<Rightarrow> pc \<Rightarrow> bool" where
  "enabled_ok np nc s pc \<longleftrightarrow> pool_ok np nc s \<and> pc_ok np nc s pc \<and>
     (\<forall>d. prepare_count d s + pend_prepare d pc \<le> np d \<and> commit_count d s + pend_commit d pc \<le> nc d)"

lemmas step_ok_defs = step_ok_def enabled_ok_def same_params_def needCnt_def pool_ok_def
  prepare_count_def commit_count_def

lemma pool_frame [simp]:
  "isCommitBroadcasted d (s\<lparr>addonState := a\<rparr>) = isCommitBroadcasted d s"
  "isCommitBroadcasted d (s\<lparr>requestQueue := q\<rparr>) = isCommitBroadcasted d s"
  "isCommitBroadcasted d (IncCurrentRound s) = isCommitBroadcasted d s"
  by (simp_all add: isCommitBroadcasted_def IncCurrentRound_def)

lemma step_ok_frame:
  assumes "enabled_ok np nc s pc" and "requestPool s' = requestPool s" and "same_params s s'"
    and "pc_ok np nc s pc'" and "\<forall>e \<in> set es. effect_ok np nc s e"
    and "\<And>d. pend_prepare d pc' \<le> pend_prepare d pc" and "\<And>d. pend_commit d pc' \<le> pend_commit d pc"
  shows "step_ok np nc s pc pc' s' es"
  using assms same_params_ok [OF assms(3)]
  by (simp add: step_ok_def enabled_ok_def pool_ok_def prepare_count_def commit_count_def
      isCommitBroadcasted_def isReplySent_def same_params_def)

text \<open>The observable effect of the pool operations.\<close>

definition info_of :: "request \<Rightarrow> 'ad pbft \<Rightarrow> request_info" where
  "info_of req s = (case requestPool s (Digest req) of None \<Rightarrow> NewRequestInfo req | Some i \<Rightarrow> i)"

lemma info_of_obs [simp]:
  "isCommitBroadcast (info_of req s) = isCommitBroadcasted (Digest req) s"
  "isReply (info_of req s) = isReplySent (Digest req) s"
  "cntPrepareConfirm (info_of req s) = prepare_count (Digest req) s"
  "cntCommitConfirm (info_of req s) = commit_count (Digest req) s"
  by (simp_all add: info_of_def isCommitBroadcasted_def isReplySent_def prepare_count_def
      commit_count_def NewRequestInfo_def split: option.split)

lemma put_obs [simp]:
  "isCommitBroadcasted d (s\<lparr>requestPool := (requestPool s)(d' \<mapsto> i)\<rparr>) =
     (if d = d' then isCommitBroadcast i else isCommitBroadcasted d s)"
  "prepare_count d (s\<lparr>requestPool := (requestPool s)(d' \<mapsto> i)\<rparr>) =
     (if d = d' then cntPrepareConfirm i else prepare_count d s)"
  "commit_count d (s\<lparr>requestPool := (requestPool s)(d' \<mapsto> i)\<rparr>) =
     (if d = d' then cntCommitConfirm i else commit_count d s)"
  "same_params s (s\<lparr>requestPool := p\<rparr>)"
  by (simp_all add: isCommitBroadcasted_def prepare_count_def commit_count_def same_params_def)

lemma pool_op_eqs:
  "ensure_info req s = s\<lparr>requestPool := (requestPool s)(Digest req \<mapsto> info_of req s)\<rparr>"
  "count_prepare req s = (prepare_count (Digest req) s + 1, s\<lparr>requestPool := (requestPool s)
     (Digest req \<mapsto> (info_of req s)\<lparr>cntPrepareConfirm := prepare_count (Digest req) s + 1\<rparr>)\<rparr>)"
  "count_commit req s = (commit_count (Digest req) s + 1, s\<lparr>requestPool := (requestPool s)
     (Digest req \<mapsto> (info_of req s)\<lparr>cntCommitConfirm := commit_count (Digest req) s + 1\<rparr>)\<rparr>)"
  by (cases "requestPool s (Digest req)";
      simp add: pool_defs info_of_def prepare_count_def commit_count_def fun_upd_idem)+

lemma ensure_info_obs:
  "isCommitBroadcasted d (ensure_info req s) = isCommitBroadcasted d s"
  "prepare_count d (ensure_info req s) = prepare_count d s"
  "commit_count d (ensure_info req s) = commit_count d s"
  "same_params s (ensure_info req s)"
  by (simp_all add: pool_op_eqs(1))

lemma count_prepare_obs:
  assumes "count_prepare req s = (n, s')"
  shows "n = prepare_count (Digest req) s + 1" "isCommitBroadcasted d s' = isCommitBroadcasted d s"
    "isReplySent d s' = isReplySent d s"
    "prepare_count d s' = prepare_count d s + (if Digest req = d then 1 else 0)"
    "commit_count d s' = commit_count d s" "same_params s s'"
  using assms unfolding pool_op_eqs(2) by (auto split: if_splits)

lemma count_commit_obs:
  assumes "count_commit req s = (n, s')"
  shows "n = commit_count (Digest req) s + 1" "isCommitBroadcasted d s' = isCommitBroadcasted d s"
    "isReplySent d s' = isReplySent d s" "prepare_count d s' = prepare_count d s"
    "commit_count d s' = commit_count d s + (if Digest req = d then 1 else 0)" "same_params s s'"
  using assms unfolding pool_op_eqs(3) by (auto split: if_splits)

lemma setCommitBroadcasted_obs:
  assumes "setCommitBroadcasted d' s = (ok, s')"
  shows "isCommitBroadcasted d s' \<longrightarrow> d = d' \<or> isCommitBroadcasted d s"
    "isReplySent d s' = isReplySent d s" "prepare_count d s' = prepare_count d s"
    "commit_count d s' = commit_count d s" "same_params s s'"
proof -
  have "s' = s \<or> (\<exists>i. requestPool s d' = Some i \<and>
      s' = s\<lparr>requestPool := (requestPool s)(d' \<mapsto> i\<lparr>isCommitBroadcast := True\<rparr>)\<rparr>)"
    using assms by (auto simp: setCommitBroadcasted_def split: option.splits)
  then show "isCommitBroadcasted d s' \<longrightarrow> d = d' \<or> isCommitBroadcasted d s"
    "isReplySent d s' = isReplySent d s" "prepare_count d s' = prepare_count d s"
    "commit_count d s' = commit_count d s" "same_params s s'"
    by (auto simp: isReplySent_def prepare_count_def commit_count_def same_params_def split: if_splits option.splits)
qed

lemma setReplySent_obs:
  assumes "setReplySent d' s = (ok, s')"
  shows "isCommitBroadcasted d s' = isCommitBroadcasted d s"
    "isReplySent d s' \<longrightarrow> d = d' \<or> isReplySent d s" "prepare_count d s' = prepare_count d s"
    "commit_count d s' = commit_count d s" "same_params s s'"
proof -
  have "s' = s \<or> (\<exists>i. requestPool s d' = Some i \<and>
      s' = s\<lparr>requestPool := (requestPool s)(d' \<mapsto> i\<lparr>isReply := True\<rparr>)\<rparr>)"
    using assms by (auto simp: setReplySent_def split: option.splits)
  then show "isCommitBroadcasted d s' = isCommitBroadcasted d s"
    "isReplySent d s' \<longrightarrow> d = d' \<or> isReplySent d s" "prepare_count d s' = prepare_count d s"
    "commit_count d s' = commit_count d s" "same_params s s'"
    by (auto simp: isCommitBroadcasted_def prepare_count_def commit_count_def same_params_def split: if_splits option.splits)
qed

lemma step_okI:
  assumes "enabled_ok np nc s pc" and "same_params s s'"
    and "\<And>d. isCommitBroadcasted d s' \<Longrightarrow> isCommitBroadcasted d s \<or> needCnt s \<le> np d"
    and "\<And>d. isReplySent d s' \<Longrightarrow> isReplySent d s \<or> 2 * malicious_num s \<le> nc d"
    and "\<And>d. 0 \<le> prepare_count d s' \<and> prepare_count d s' + pend_prepare d pc' \<le> prepare_count d s + pend_prepare d pc"
    and "\<And>d. 0 \<le> commit_count d s' \<and> commit_count d s' + pend_commit d pc' \<le> commit_count d s + pend_commit d pc"
    and "pc_ok np nc s pc'" and "\<And>e. e \<in> set es \<Longrightarrow> effect_ok np nc s e"
  shows "step_ok np nc s pc pc' s' es"
proof -
  have "malicious_num s' = malicious_num s" using assms(2) by (simp add: same_params_def)
  moreover have "isCommitBroadcasted d s' \<longrightarrow> needCnt s \<le> np d" "isReplySent d s' \<longrightarrow> 2 * malicious_num s \<le> nc d" for d
    using assms(1) assms(3,4) [of d] by (auto simp: enabled_ok_def pool_ok_def)
  ultimately show ?thesis
    using assms(2,5-8) same_params_ok [OF assms(2)] unfolding step_ok_def pool_ok_def by simp
qed

lemma enabled_nonneg:
  assumes "enabled_ok np nc s pc"
  shows "0 \<le> prepare_count d s" "0 \<le> commit_count d s" "prepare_count d s + pend_prepare d pc \<le> np d"
    "commit_count d s + pend_commit d pc \<le> nc d" "pc_ok np nc s pc"
  using assms by (auto simp: enabled_ok_def pool_ok_def)

lemma step_ok_ensure:
  assumes "enabled_ok np nc s (PrePrepareInsert req round)"
  shows "step_ok np nc s (PrePrepareInsert req round) (PrePrepareCall req round) (ensure_info req s) []"
  using enabled_nonneg [OF assms] by (intro step_okI [OF assms]) (simp_all add: ensure_info_obs)

lemma step_ok_propose:
  assumes "enabled_ok np nc s (ProposeStart m)"
  shows "step_ok np nc s (ProposeStart m) (ProposeCall req)
    (s\<lparr>requestPool := (requestPool s)(Digest req \<mapsto> NewRequestInfo req)\<rparr>) []"
  using enabled_nonneg [OF assms]
  by (intro step_okI [OF assms]) (auto simp: NewRequestInfo_def split: if_splits)

lemma step_ok_count_prepare:
  assumes "enabled_ok np nc s (PrepareCount req round)" and "count_prepare req s = (n, s')"
  shows "step_ok np nc s (PrepareCount req round) (PrepareSet req round n) s' []"
  using enabled_nonneg [OF assms(1)] enabled_nonneg(3) [OF assms(1), of "Digest req"] count_prepare_obs [OF assms(2)]
  by (intro step_okI [OF assms(1)]) auto

lemma step_ok_count_commit:
  assumes "enabled_ok np nc s (CommitCount req replied)" and "count_commit req s = (n, s')"
  shows "step_ok np nc s (CommitCount req replied) (CommitSet req replied n) s' []"
  using enabled_nonneg [OF assms(1)] enabled_nonneg(4) [OF assms(1), of "Digest req"] count_commit_obs [OF assms(2)]
  by (intro step_okI [OF assms(1)]) auto

lemma step_ok_set_prepare:
  assumes "enabled_ok np nc s (PrepareSet req round n)" and "setCommitBroadcasted (Digest req) s = (ok, s')"
    and "needCnt s \<le> n"
  shows "step_ok np nc s (PrepareSet req round n) (if ok then PrepareSend req round else Finished) s' []"
proof (rule step_okI [OF assms(1) setCommitBroadcasted_obs(5) [OF assms(2)]])
  note o = setCommitBroadcasted_obs [OF assms(2)] and e = enabled_nonneg [OF assms(1)]
  have n: "needCnt s \<le> np (Digest req)" using e(5) assms(3) by simp
  show "isCommitBroadcasted d s \<or> needCnt s \<le> np d" if "isCommitBroadcasted d s'" for d
    using that o(1) [of d] n by blast
  show "isReplySent d s \<or> 2 * malicious_num s \<le> nc d" if "isReplySent d s'" for d
    using that o(2) [of d] by blast
  show "0 \<le> prepare_count d s' \<and> prepare_count d s' + pend_prepare d (if ok then PrepareSend req round else Finished)
      \<le> prepare_count d s + pend_prepare d (PrepareSet req round n)" for d
    using e(1) [of d] o(3) [of d] by simp
  show "0 \<le> commit_count d s' \<and> commit_count d s' + pend_commit d (if ok then PrepareSend req round else Finished)
      \<le> commit_count d s + pend_commit d (PrepareSet req round n)" for d
    using e(2) [of d] o(4) [of d] by simp
qed (use enabled_nonneg(5) [OF assms(1)] assms(3) in simp_all)

lemma step_ok_set_commit:
  assumes "enabled_ok np nc s (CommitSet req replied n)" and "setReplySent (Digest req) s = (ok, s')"
    and "2 * malicious_num s \<le> n"
  shows "step_ok np nc s (CommitSet req replied n) (CommitCall req) s' []"
proof (rule step_okI [OF assms(1) setReplySent_obs(5) [OF assms(2)]])
  note o = setReplySent_obs [OF assms(2)] and e = enabled_nonneg [OF assms(1)]
  have n: "2 * malicious_num s \<le> nc (Digest req)" using e(5) assms(3) by simp
  show "isCommitBroadcasted d s \<or> needCnt s \<le> np d" if "isCommitBroadcasted d s'" for d
    using that o(1) [of d] by blast
  show "isReplySent d s \<or> 2 * malicious_num s \<le> nc d" if "isReplySent d s'" for d
    using that o(2) [of d] n by blast
  show "0 \<le> prepare_count d s' \<and> prepare_count d s' + pend_prepare d (CommitCall req)
      \<le> prepare_count d s + pend_prepare d (CommitSet req replied n)" for d
    using e(1) [of d] o(3) [of d] by simp
  show "0 \<le> commit_count d s' \<and> commit_count d s' + pend_commit d (CommitCall req)
      \<le> commit_count d s + pend_commit d (CommitSet req replied n)" for d
    using e(2) [of d] o(4) [of d] by simp
qed (use enabled_nonneg(5) [OF assms(1)] assms(3) in simp_all)

lemma call_then_cases:
  assumes "call_then op now req s next = Returns (pc', s') es"
  obtains flag a where "call_addon op now req s = Returns (flag, s') es" "pc' = next flag"
    "requestPool s' = requestPool s" "same_params s s'"
proof -
  from assms obtain flag where c: "call_addon op now req s = Returns (flag, s') es" "pc' = next flag"
    by (auto simp: call_then_def bindO_Returns_iff)
  then have "requestPool s' = requestPool s" "same_params s s'"
    by (auto simp: same_params_def elim: call_addon_cases)
  with c that show ?thesis by blast
qed

context pbft_addon
begin

lemma tstep_ok:
  assumes e: "enabled_ok np nc s pc" and t: "tstep A now pc s = Returns (pc', s') es"
  shows "step_ok np nc s pc pc' s' es"
proof (cases pc)
  case (ProposeStart m)
  show ?thesis
  proof (cases "decode_request (msg_Content m)")
    case None
    with e t ProposeStart show ?thesis by (auto intro!: step_ok_frame simp: same_params_def)
  next
    case (Some req)
    with e t ProposeStart show ?thesis by (auto intro: step_ok_propose)
  qed
next
  case (ProposeCall req)
  with t have "call_then (HandleProposeAddon A) now req s
      (\<lambda>flag. if flag then ProposeEnqueue req else Finished) = Returns (pc', s') es" by simp
  with e ProposeCall show ?thesis
    by (elim call_then_cases) (auto intro!: step_ok_frame dest: call_sends sends_only_ok)
next
  case (PrePrepareInsert req round)
  with e t show ?thesis by (auto intro: step_ok_ensure)
next
  case (PrePrepareCall req round)
  with t have "call_then (HandlePrePrepareAddon A) now req s
      (\<lambda>flag. if flag then PrePrepareSend req round else Finished) = Returns (pc', s') es" by simp
  with e PrePrepareCall show ?thesis
    by (elim call_then_cases) (auto intro!: step_ok_frame dest: call_sends sends_only_ok)
next
  case (PrepareCall req round)
  with t have "call_then (HandlePrepareAddon A) now req s (\<lambda>_. PrepareCheck req round) = Returns (pc', s') es" by simp
  with e PrepareCall show ?thesis
    by (elim call_then_cases) (auto intro!: step_ok_frame dest: call_sends sends_only_ok)
next
  case (PrepareCount req round)
  with e t show ?thesis by (auto intro: step_ok_count_prepare split: prod.splits)
next
  case (PrepareSet req round n)
  with e t show ?thesis
    by (cases "needCnt s \<le> n") (auto intro: step_ok_set_prepare step_ok_frame simp: same_params_def split: prod.splits)
next
  case (CommitCount req replied)
  with e t show ?thesis by (auto intro: step_ok_count_commit split: prod.splits)
next
  case (CommitSet req replied n)
  with e t show ?thesis
    by (cases "2 * malicious_num s \<le> n \<and> \<not> replied")
      (auto intro: step_ok_set_commit step_ok_frame simp: same_params_def split: prod.splits)
next
  case (CommitCall req)
  with t obtain es' where c: "call_then (HandleCommitAddon A) now req s
      (\<lambda>_. if Nid s = view s then CommitInc else Finished) = Returns (pc', s') es'" and es: "es = CommitCalled req # es'"
    by (auto simp: bindO_Returns_iff)
  from e CommitCall have "2 * malicious_num s \<le> nc (Digest req)" by (auto simp: enabled_ok_def)
  with c es e CommitCall show ?thesis
    by (elim call_then_cases) (auto intro!: step_ok_frame dest: sends_only_ok [OF call_sends(4)])
qed (use e t in \<open>auto intro!: step_ok_frame simp: same_params_def IncCurrentRound_def enabled_ok_def
      count_msgs_single pbft_msg_def split: option.splits if_splits\<close>)

end

section \<open>The invariant of the system\<close>

definition np_of :: "'ad sys \<Rightarrow> bytes \<Rightarrow> int" where
  "np_of g d = count_msgs MsgPrepare d (received g)"

definition nc_of :: "'ad sys \<Rightarrow> bytes \<Rightarrow> int" where
  "nc_of g d = count_msgs MsgCommit d (received g)"

definition sys_inv :: "'ad sys \<Rightarrow> bool" where
  "sys_inv g \<longleftrightarrow>
     pool_ok (np_of g) (nc_of g) (node g) \<and>
     (\<forall>pc \<in> set (threads g). pc_ok (np_of g) (nc_of g) (node g) pc) \<and>
     (\<forall>e \<in> set (log g). effect_ok (np_of g) (nc_of g) (node g) e) \<and>
     (\<forall>d. prepare_count d (node g) + sum_list (map (pend_prepare d) (threads g)) \<le> np_of g d \<and>
          commit_count d (node g) + sum_list (map (pend_commit d) (threads g)) \<le> nc_of g d)"

lemma pend_nonneg: "0 \<le> pend_prepare d pc" "0 \<le> pend_commit d pc"
  by (cases pc; simp add: count_msgs_nonneg)+

lemma sum_list_update_int:
  "i < length xs \<Longrightarrow> sum_list (map f (xs[i := x])) = sum_list (map f xs) - f (xs ! i) + (f x :: int)"
  by (induction xs arbitrary: i) (auto split: nat.splits)

lemma member_le_sum:
  assumes "x \<in> set xs" and nn: "\<And>y. 0 \<le> f y"
  shows "f x \<le> sum_list (map f xs :: int list)"
  using assms(1)
proof (induction xs)
  case (Cons y ys)
  have "0 \<le> sum_list (map f ys)" by (rule sum_list_nonneg) (use nn in auto)
  with Cons nn [of y] show ?case by auto
qed simp

lemma ok_mono:
  assumes "\<And>d. np d \<le> np' d" and "\<And>d. nc d \<le> nc' d"
  shows "pool_ok np nc s \<Longrightarrow> pool_ok np' nc' s" "pc_ok np nc s pc \<Longrightarrow> pc_ok np' nc' s pc"
    "effect_ok np nc s e \<Longrightarrow> effect_ok np' nc' s e"
proof -
  show "pool_ok np nc s \<Longrightarrow> pool_ok np' nc' s"
    unfolding pool_ok_def by (meson assms order_trans)
  show "pc_ok np nc s pc \<Longrightarrow> pc_ok np' nc' s pc"
    by (cases pc) (simp_all, (meson assms order_trans)+)
  show "effect_ok np nc s e \<Longrightarrow> effect_ok np' nc' s e"
    by (cases e) (auto split: option.splits intro: order_trans [OF _ assms(1)] order_trans [OF _ assms(2)])
qed

lemma sys_inv_init: "fresh_node s \<Longrightarrow> sys_inv (init_sys s)"
  by (simp add: sys_inv_def init_sys_def fresh_node_def pool_ok_def isCommitBroadcasted_def
      isReplySent_def prepare_count_def commit_count_def np_of_def nc_of_def)

lemma start_pc_facts:
  assumes "start_pc m = Some pc"
  shows "pend_prepare d pc = count_msgs MsgPrepare d [m]" "pend_commit d pc = count_msgs MsgCommit d [m]"
    "pc_ok np nc s pc"
  using assms by (auto simp: count_msgs_single split: MessageType.splits)

lemma sys_inv_deliver:
  assumes "sys_inv g" and "start_pc m = Some pc"
  shows "sys_inv (g\<lparr>threads := threads g @ [pc], received := received g @ [m]\<rparr>)"
proof -
  let ?g = "g\<lparr>threads := threads g @ [pc], received := received g @ [m]\<rparr>"
  have n: "np_of g d \<le> np_of ?g d" "nc_of g d \<le> nc_of ?g d" for d
    by (simp_all add: np_of_def nc_of_def count_msgs_nonneg)
  note mono = ok_mono [OF n]
  have "np_of ?g d = np_of g d + pend_prepare d pc" "nc_of ?g d = nc_of g d + pend_commit d pc" for d
    using start_pc_facts(1,2) [OF assms(2)] by (simp_all add: np_of_def nc_of_def)
  with assms(1) start_pc_facts(3) [OF assms(2)] show ?thesis
    unfolding sys_inv_def by (auto intro: mono)
qed

context pbft_addon
begin

lemma sys_inv_thread:
  assumes inv: "sys_inv g" and i: "i < length (threads g)"
    and t: "tstep A now (threads g ! i) (node g) = Returns (pc, s) es"
  shows "sys_inv (after_effects es (g\<lparr>node := s, threads := (threads g)[i := pc]\<rparr>))"
proof -
  let ?pc = "threads g ! i" and ?np = "np_of g" and ?nc = "nc_of g" and ?s = "node g"
  let ?g = "after_effects es (g\<lparr>node := s, threads := (threads g)[i := pc]\<rparr>)"
  have m: "?pc \<in> set (threads g)" using i by simp
  have "pend_prepare d ?pc \<le> sum_list (map (pend_prepare d) (threads g))"
    "pend_commit d ?pc \<le> sum_list (map (pend_commit d) (threads g))" for d
    using member_le_sum [OF m] pend_nonneg by blast+
  then have "enabled_ok ?np ?nc ?s ?pc"
    using inv m unfolding sys_inv_def enabled_ok_def by (smt (verit))
  from tstep_ok [OF this t] have ok: "step_ok ?np ?nc ?s ?pc pc s es" .
  have f: "node ?g = s" "threads ?g = (threads g)[i := pc]" "log ?g = log g @ es"
    "np_of ?g = ?np" "nc_of ?g = ?nc"
    by (simp_all add: after_effects_def np_of_def nc_of_def fun_eq_iff)
  from ok have sp: "same_params ?s s" by (simp add: step_ok_def)
  have "prepare_count d s + sum_list (map (pend_prepare d) (threads ?g)) \<le> ?np d \<and>
      commit_count d s + sum_list (map (pend_commit d) (threads ?g)) \<le> ?nc d" for d
  proof -
    have "prepare_count d s + pend_prepare d pc \<le> prepare_count d ?s + pend_prepare d ?pc"
      "commit_count d s + pend_commit d pc \<le> commit_count d ?s + pend_commit d ?pc"
      using ok by (auto simp: step_ok_def)
    moreover have "prepare_count d ?s + sum_list (map (pend_prepare d) (threads g)) \<le> ?np d"
      "commit_count d ?s + sum_list (map (pend_commit d) (threads g)) \<le> ?nc d"
      using inv by (auto simp: sys_inv_def)
    ultimately show ?thesis by (simp add: f(2) sum_list_update_int [OF i])
  qed
  moreover have "\<forall>x \<in> set (threads ?g). pc_ok ?np ?nc s x"
  proof
    fix x assume "x \<in> set (threads ?g)"
    then have "x = pc \<or> x \<in> set (threads g)" using set_update_subset_insert [of "threads g" i pc] f(2) by auto
    with inv ok same_params_ok(1) [OF sp] show "pc_ok ?np ?nc s x"
      by (auto simp: sys_inv_def step_ok_def)
  qed
  moreover have "\<forall>e \<in> set (log ?g). effect_ok ?np ?nc s e"
    using inv ok same_params_ok(2) [OF sp] f(3) by (auto simp: sys_inv_def step_ok_def)
  ultimately show ?thesis
    using ok unfolding sys_inv_def f by (simp add: step_ok_def f)
qed

lemma sys_inv_step: "sys_step A g g' \<Longrightarrow> sys_inv g \<Longrightarrow> sys_inv g'"
proof (induction rule: sys_step.induct)
  case (deliver g m pc)
  then show ?case by (blast intro: sys_inv_deliver)
next
  case (thread g i now pc s es)
  then show ?case by (blast intro: sys_inv_thread)
next
  case (propose g req q)
  let ?g = "run_propose req q g"
  have f: "np_of ?g = np_of g" "nc_of ?g = nc_of g"
    by (simp_all add: run_propose_def np_of_def nc_of_def fun_eq_iff Let_def)
  have sp: "same_params (node g) ((node g)\<lparr>requestQueue := q\<rparr>)" by (simp add: same_params_def)
  from propose.prems same_params_ok [OF sp] show ?case
    unfolding sys_inv_def f
    by (simp add: run_propose_def Let_def pool_ok_def prepare_count_def commit_count_def pbft_msg_def)
qed (simp_all add: sys_inv_def np_of_def [abs_def] nc_of_def [abs_def])

lemma sys_inv_reachable: "reachable A s0 g \<Longrightarrow> fresh_node s0 \<Longrightarrow> sys_inv g"
  by (induction rule: reachable.induct) (auto intro: sys_inv_init sys_inv_step)

end

text \<open>
  C1: the quorum rule under every interleaving of goroutines: a request marked as replied, and
  every call of the addon's commit, is backed by at least \<open>2f\<close> delivered commit messages of
  its digest, and every commit message the node broadcasts by \<open>needCnt\<close> delivered prepare
  messages (\<open>2f\<close> for the view node, \<open>2f - 1\<close> for the others).
\<close>

theorem pbft_quorum:
  assumes "reachable (TBDAddon B E) s0 g" and "fresh_node s0"
  shows "(\<forall>d. isReplySent d (node g) \<longrightarrow> 2 * malicious_num (node g) \<le> count_msgs MsgCommit d (received g)) \<and>
    (\<forall>req. CommitCalled req \<in> set (log g) \<longrightarrow>
       2 * malicious_num (node g) \<le> count_msgs MsgCommit (Digest req) (received g)) \<and>
    (\<forall>shard m p. Broadcast shard m \<in> set (log g) \<longrightarrow> MsgType m = MsgCommit \<longrightarrow>
       decode_pbft (msg_Content m) = Some p \<longrightarrow>
       needCnt (node g) \<le> count_msgs MsgPrepare (Digest (pm_Request p)) (received g))"
  using tbd.sys_inv_reachable [OF assms]
  by (fastforce simp: sys_inv_def pool_ok_def np_of_def nc_of_def)

section \<open>Rounds and the loop of the view node\<close>

definition notifying :: "pc \<Rightarrow> nat" where
  "notifying pc = (if pc = CommitNotify then 1 else 0)"

definition round_inv :: "'ad pbft \<Rightarrow> 'ad sys \<Rightarrow> bool" where
  "round_inv s0 g \<longleftrightarrow>
     same_params s0 (node g) \<and>
     (Nid s0 \<noteq> view s0 \<longrightarrow> currentRound (node g) = 0 \<and> run g = RunStopped \<and> CommitInc \<notin> set (threads g)) \<and>
     int (rounds g + sum_list (map notifying (threads g))) \<le> currentRound (node g) \<and>
     proposed g \<le> rounds g + 1 \<and> (run g = RunTop \<longrightarrow> proposed g \<le> rounds g)"

lemma sum_list_update_nat:
  "i < length xs \<Longrightarrow> sum_list (map f (xs[i := x])) + f (xs ! i) = sum_list (map f xs) + (f x :: nat)"
  by (induction xs arbitrary: i) (auto split: nat.splits)

lemma same_params_refl: "same_params s s"
  by (simp add: same_params_def)

context pbft_addon
begin

text \<open>Which critical sections touch the round and the channel.\<close>

lemma tstep_round:
  assumes "tstep A now pc s = Returns (pc', s') es"
  shows "same_params s s' \<and>
    currentRound s' = currentRound s + (if pc = CommitInc then 1 else 0) \<and>
    (NotifyDone \<in> set es \<longleftrightarrow> pc = CommitNotify) \<and>
    (pc' = CommitNotify \<longleftrightarrow> pc = CommitInc) \<and> (pc' = CommitInc \<longrightarrow> Nid s = view s)"
proof -
  have c: "same_params s s' \<and> currentRound s' = currentRound s \<and> NotifyDone \<notin> set es'"
    if "call_addon op now req s = Returns (f, s') es'" "sends_only es'" for op req f es'
    using that by (auto elim!: call_addon_cases simp: same_params_def sends_only_def)
  have p: "same_params s t \<and> currentRound t = currentRound s"
    if "t = ensure_info req s \<or> t = snd (count_prepare req s) \<or> t = snd (count_commit req s) \<or>
      t = snd (setReplySent d s) \<or> t = snd (setCommitBroadcasted d s)" for t req d
    using that by (auto simp: pool_op_eqs setReplySent_def setCommitBroadcasted_def same_params_def split: option.splits)
  show ?thesis
  proof (cases pc)
    case (CommitCall req)
    with assms obtain f es' where "call_addon (HandleCommitAddon A) now req s = Returns (f, s') es'"
      "es = CommitCalled req # es'" "pc' = (if Nid s = view s then CommitInc else Finished)"
      by (auto simp: call_then_def bindO_Returns_iff)
    with c [OF this(1) call_sends(4) [OF this(1)]] CommitCall show ?thesis by auto
  next
    case (ProposeCall req)
    with assms obtain f where "call_addon (HandleProposeAddon A) now req s = Returns (f, s') es"
      "pc' = (if f then ProposeEnqueue req else Finished)" by (auto simp: call_then_def bindO_Returns_iff)
    with c [OF this(1) call_sends(1) [OF this(1)]] ProposeCall show ?thesis by auto
  next
    case (PrePrepareCall req r)
    with assms obtain f where "call_addon (HandlePrePrepareAddon A) now req s = Returns (f, s') es"
      "pc' = (if f then PrePrepareSend req r else Finished)" by (auto simp: call_then_def bindO_Returns_iff)
    with c [OF this(1) call_sends(2) [OF this(1)]] PrePrepareCall show ?thesis by auto
  next
    case (PrepareCall req r)
    with assms obtain f where "call_addon (HandlePrepareAddon A) now req s = Returns (f, s') es"
      "pc' = PrepareCheck req r" by (auto simp: call_then_def bindO_Returns_iff)
    with c [OF this(1) call_sends(3) [OF this(1)]] PrepareCall show ?thesis by auto
  next
    case (PrePrepareInsert req r)
    with assms p [of s' req] show ?thesis by auto
  next
    case (PrepareCount req r)
    with assms p [of s' req] show ?thesis by (auto split: prod.splits)
  next
    case (PrepareSet req r n)
    with assms have "(s' = s \<or> s' = snd (setCommitBroadcasted (Digest req) s)) \<and> es = [] \<and>
        pc' \<noteq> CommitNotify \<and> pc' \<noteq> CommitInc"
      by (cases "setCommitBroadcasted (Digest req) s"; cases "needCnt s \<le> n"; cases "fst (setCommitBroadcasted (Digest req) s)")
        (simp_all, blast)
    moreover from this have "same_params s s' \<and> currentRound s' = currentRound s"
      using p [of s' req "Digest req"] same_params_refl by metis
    ultimately show ?thesis using PrepareSet by simp
  next
    case (CommitCount req b)
    with assms p [of s' req] show ?thesis by (auto split: prod.splits)
  next
    case (CommitSet req b n)
    with assms have "(s' = s \<or> s' = snd (setReplySent (Digest req) s)) \<and> es = [] \<and>
        pc' \<noteq> CommitNotify \<and> pc' \<noteq> CommitInc"
      by (cases "setReplySent (Digest req) s"; cases "2 * malicious_num s \<le> n \<and> \<not> b")
        (simp_all, blast)
    moreover from this have "same_params s s' \<and> currentRound s' = currentRound s"
      using p [of s' req "Digest req"] same_params_refl by metis
    ultimately show ?thesis using CommitSet by simp
  qed (use assms in \<open>auto simp: same_params_def IncCurrentRound_def split: option.splits if_splits\<close>)
qed

lemma round_inv_thread:
  assumes inv: "round_inv s0 g" and i: "i < length (threads g)"
    and t: "tstep A now (threads g ! i) (node g) = Returns (pc, s) es"
  shows "round_inv s0 (after_effects es (g\<lparr>node := s, threads := (threads g)[i := pc]\<rparr>))"
proof -
  let ?pc = "threads g ! i"
  note r = tstep_round [OF t]
  have m: "?pc \<in> set (threads g)" using i by simp
  have sum: "sum_list (map notifying ((threads g)[i := pc])) + notifying ?pc
      = sum_list (map notifying (threads g)) + notifying pc"
    by (rule sum_list_update_nat [OF i])
  have sp: "same_params s0 s" using inv r by (auto simp: round_inv_def same_params_def)
  have nv: "currentRound s = 0 \<and> run g = RunStopped \<and> CommitInc \<notin> set ((threads g)[i := pc])"
    if "Nid s0 \<noteq> view s0"
  proof -
    have "Nid (node g) \<noteq> view (node g)" using inv that by (auto simp: round_inv_def same_params_def)
    moreover have "?pc \<noteq> CommitInc" using inv that m by (auto simp: round_inv_def)
    ultimately show ?thesis
      using inv that r set_update_subset_insert [of "threads g" i pc] by (auto simp: round_inv_def)
  qed
  have n: "notifying pc = (if ?pc = CommitInc then 1 else 0)"
    "notifying ?pc = (if NotifyDone \<in> set es then 1 else 0)"
    using r by (auto simp: notifying_def)
  have b: "int (rounds g + sum_list (map notifying (threads g))) \<le> currentRound (node g)"
    "proposed g \<le> rounds g + 1" "run g = RunTop \<longrightarrow> proposed g \<le> rounds g"
    using inv by (auto simp: round_inv_def)
  show ?thesis
  proof (cases "NotifyDone \<in> set es \<and> run g = RunWaiting")
    case True
    with r have "?pc \<noteq> CommitInc" by auto
    with True sum n b(1,2) r have
      "int (Suc (rounds g) + sum_list (map notifying ((threads g)[i := pc]))) \<le> currentRound s" by auto
    with True sp nv b(2) show ?thesis by (auto simp: round_inv_def after_effects_def)
  next
    case False
    from sum n b(1) r have "int (rounds g + sum_list (map notifying ((threads g)[i := pc]))) \<le> currentRound s"
      by (auto split: if_splits)
    with False sp nv b(2,3) show ?thesis by (auto simp: round_inv_def after_effects_def)
  qed
qed

lemma round_inv_step: "sys_step A g g' \<Longrightarrow> round_inv s0 g \<Longrightarrow> round_inv s0 g'"
proof (induction rule: sys_step.induct)
  case (deliver g m pc)
  then have "notifying pc = 0 \<and> pc \<noteq> CommitInc" by (auto simp: notifying_def split: MessageType.splits)
  with deliver.prems show ?case by (auto simp: round_inv_def)
next
  case (thread g i now pc s es)
  then show ?case by (blast intro: round_inv_thread)
next
  case (propose g req q)
  then show ?case by (auto simp: round_inv_def run_propose_def same_params_def notifying_def Let_def)
next
  case (stop g)
  then show ?case by (auto simp: round_inv_def)
qed (auto simp: round_inv_def)

lemma round_inv_reachable: "reachable A s0 g \<Longrightarrow> fresh_node s0 \<Longrightarrow> round_inv s0 g"
proof (induction rule: reachable.induct)
  case init
  then show ?case by (auto simp: round_inv_def init_sys_def fresh_node_def same_params_def)
qed (auto intro: round_inv_step)

end


section \<open>Schedules\<close>

text \<open>A schedule picks the next step; \<open>drive\<close> runs it and so yields reachable systems.\<close>

datatype act = Deliver message | Thread nat | TakeRequest | WaitDone

fun do_act :: "'ad addon \<Rightarrow> 'ad sys \<Rightarrow> act \<Rightarrow> 'ad sys option" where
  "do_act A g (Deliver m) =
     (if crashed g then None
      else (case start_pc m of None \<Rightarrow> None
            | Some pc \<Rightarrow> Some (g\<lparr>threads := threads g @ [pc], received := received g @ [m]\<rparr>)))"
| "do_act A g (Thread i) =
     (if crashed g \<or> length (threads g) \<le> i then None
      else (case tstep A 0 (threads g ! i) (node g) of
              Returns r es \<Rightarrow> Some (after_effects es (g\<lparr>node := snd r, threads := (threads g)[i := fst r]\<rparr>))
            | _ \<Rightarrow> None))"
| "do_act A g TakeRequest =
     (if crashed g \<or> run g \<noteq> RunTop then None
      else (case Dequeue (requestQueue (node g)) of None \<Rightarrow> None
            | Some (req, q) \<Rightarrow> Some (run_propose req q g)))"
| "do_act A g WaitDone = (if crashed g \<or> run g \<noteq> RunSent then None else Some (g\<lparr>run := RunWaiting\<rparr>))"

fun drive :: "'ad addon \<Rightarrow> act list \<Rightarrow> 'ad sys \<Rightarrow> 'ad sys option" where
  "drive A [] g = Some g"
| "drive A (a # as) g = (case do_act A g a of None \<Rightarrow> None | Some g' \<Rightarrow> drive A as g')"

lemma do_act_step: "do_act A g a = Some g' \<Longrightarrow> sys_step A g g'"
proof (cases a)
  case (Thread i)
  assume "do_act A g a = Some g'"
  with Thread show ?thesis
    by (auto split: if_splits outcome.splits intro: sys_step.thread)
qed (auto split: if_splits option.splits intro: sys_step.deliver sys_step.propose sys_step.wait simp del: start_pc.simps)

lemma drive_reachable: "drive A as g = Some g' \<Longrightarrow> reachable A s0 g \<Longrightarrow> reachable A s0 g'"
proof (induction as arbitrary: g)
  case (Cons a as)
  then obtain g1 where "do_act A g a = Some g1" "drive A as g1 = Some g'" by (auto split: option.splits)
  with Cons show ?case by (blast intro: reachable.step do_act_step)
qed simp

lemmas drive_init = drive_reachable [OF _ reachable.init]

text \<open>Three commit messages; the second and the third goroutine both read the flag before
  either sets it.\<close>

definition race_schedule :: "act list" where
  "race_schedule =
     (let m = pbft_msg MsgCommit (example_req ''A'') 0 in
      [Deliver m, Deliver m, Deliver m,
       Thread 0, Thread 0, Thread 0, Thread 0,
       Thread 1, Thread 1, Thread 2, Thread 2,
       Thread 1, Thread 1, Thread 1, Thread 2, Thread 2, Thread 2])"

lemma race_runs:
  "map_option (\<lambda>g. (commits_of ''A'' (log g), map MsgType (received g)))
     (drive SimpleAddon race_schedule (init_sys (example_node ()))) = Some (2, replicate 3 MsgCommit)"
  by code_simp

text \<open>
  C23: the flag test of \<open>handleCommit\<close> is not atomic with setting it: there is an interleaving of
  three commit messages, and of no other message, in which one request is committed twice.
\<close>

theorem double_commit_race:
  "\<exists>g. reachable SimpleAddon (example_node ()) g \<and> commits_of ''A'' (log g) = 2 \<and>
    map MsgType (received g) = replicate 3 MsgCommit"
  using race_runs by (auto intro: drive_init)

definition propose_msg :: "request \<Rightarrow> message" where
  "propose_msg req = \<lparr>MsgType = MsgPropose, msg_Content = PRequest req\<rparr>"

definition view_node :: "unit pbft" where
  "view_node = (example_node ())\<lparr>Nid := 0\<rparr>"

text \<open>Two proposals; the first request is committed before the loop reaches its receive.\<close>

definition lost_schedule :: "act list" where
  "lost_schedule =
     [Deliver (propose_msg (example_req ''A'')), Thread 0, Thread 0, Thread 0,
      Deliver (propose_msg (example_req ''B'')), Thread 1, Thread 1, Thread 1,
      TakeRequest, Thread 2, Thread 2, Thread 2, Thread 2,
      Deliver (pbft_msg MsgCommit (example_req ''A'') 0), Deliver (pbft_msg MsgCommit (example_req ''A'') 0)]
     @ replicate 4 (Thread 3) @ replicate 7 (Thread 4) @ [WaitDone]"

lemma lost_runs:
  "map_option (\<lambda>g. (run g, QueueSize (requestQueue (node g)), currentRound (node g),
       commits_of ''A'' (log g), filter (\<lambda>pc. pc \<noteq> Finished) (threads g)))
     (drive SimpleAddon lost_schedule (init_sys view_node)) = Some (RunWaiting, 1, 1, 1, [])"
  by code_simp

text \<open>
  The end-of-round notification can be lost: the view node reaches a state in which the
  request it proposed is committed and every goroutine has returned, a second request is queued,
  and the loop waits for a notification that no goroutine will send.
\<close>

theorem lost_notification:
  "\<exists>g. reachable SimpleAddon view_node g \<and> run g = RunWaiting \<and> filter (\<lambda>pc. pc \<noteq> Finished) (threads g) = [] \<and>
    commits_of ''A'' (log g) = 1 \<and> QueueSize (requestQueue (node g)) = 1"
  using lost_runs by (auto intro: drive_init)

definition tbd_schedule :: "act list" where
  "tbd_schedule =
     [Deliver (pbft_msg MsgPrepare (example_req ''A'') 0), Deliver (pbft_msg MsgPrePrepare (example_req ''A'') 0),
      Deliver (pbft_msg MsgCommit (example_req ''A'') 0)]
     @ replicate 4 (Thread 1) @ replicate 6 (Thread 0) @ replicate 4 (Thread 2)"

lemma tbd_runs:
  "map_option (\<lambda>g. map (\<lambda>e. case e of Broadcast n m \<Rightarrow> MsgType m | _ \<Rightarrow> MsgEmpty) (log g))
     (drive (TBDAddon list_bolt ex_env) tbd_schedule (init_sys (example_node ex_tbd)))
   = Some [MsgPrepare, MsgCommit]"
  by code_simp

lemma example_fresh: "fresh_node (example_node a)"
  by (simp add: fresh_node_def example_node_def)

theorem pbft_quorum_witness:
  "\<exists>g. reachable (TBDAddon list_bolt ex_env) (example_node ex_tbd) g \<and> log g \<noteq> [] \<and>
    (\<forall>d. isReplySent d (node g) \<longrightarrow> 2 * malicious_num (node g) \<le> count_msgs MsgCommit d (received g))"
proof -
  obtain g where "drive (TBDAddon list_bolt ex_env) tbd_schedule (init_sys (example_node ex_tbd)) = Some g"
    "log g \<noteq> []" using tbd_runs by auto
  with pbft_quorum [OF drive_init example_fresh] drive_init show ?thesis by blast
qed


end
