(* ===== verification/ShardNet.thy ===== *)
theory ShardNet
  imports PBFT "HOL-Library.Multiset"
begin

text \<open>
  The nodes of one shard and the network between them.  A broadcast of a node becomes one packet to
  each other node of the shard; any packet in flight may be delivered next, to the handler of its
  receiver, which runs to its end (theory PBFT_Run covers handlers that interleave).  The
  connections of the code neither lose nor duplicate; messages of several connections and the
  goroutines of one overtake each other, so the order is arbitrary.  \<open>handle i e m s\<close> is the handler of
  node \<open>i\<close>, with \<open>e\<close> what it reads of its surroundings, such as the clock.
\<close>

type_synonym packet = "int \<times> int \<times> message"   \<comment> \<open>sender, receiver, message\<close>

record ('e, 'n) net =
  nodes :: "int \<Rightarrow> 'n"
  packets :: "packet list"
  served :: "('e \<times> packet) list"           \<comment> \<open>the deliveries so far\<close>
  net_log :: "(int \<times> effect) list"

type_synonym ('e, 'n) handler = "int \<Rightarrow> 'e \<Rightarrow> message \<Rightarrow> 'n \<Rightarrow> 'n \<times> effect list"

text \<open>The packets an effect of node \<open>i\<close> puts into the network of shard \<open>sid\<close> with the nodes \<open>ids\<close>.\<close>

fun packets_of :: "int \<Rightarrow> int list \<Rightarrow> int \<times> effect \<Rightarrow> packet list" where
  "packets_of sid ids (i, Broadcast k m) = (if k = sid then map (\<lambda>j. (i, j, m)) (filter (\<lambda>j. j \<noteq> i) ids) else [])"
| "packets_of sid ids (i, _) = []"

definition outgoing :: "int \<Rightarrow> int list \<Rightarrow> (int \<times> effect) list \<Rightarrow> packet list" where
  "outgoing sid ids l = concat (map (packets_of sid ids) l)"

fun net_step :: "('e, 'n) handler \<Rightarrow> int \<Rightarrow> int list \<Rightarrow> nat \<times> 'e \<Rightarrow> ('e, 'n) net \<Rightarrow> ('e, 'n) net" where
  "net_step handle sid ids (k, e) g =
     (if k < length (packets g) then
        (case packets g ! k of (i, j, m) \<Rightarrow>
           (case handle j e m (nodes g j) of (s, es) \<Rightarrow>
              g\<lparr>nodes := (nodes g)(j := s),
                packets := take k (packets g) @ drop (Suc k) (packets g) @ outgoing sid ids (map (Pair j) es),
                served := served g @ [(e, i, j, m)], net_log := net_log g @ map (Pair j) es\<rparr>))
      else g)"

fun net_run :: "('e, 'n) handler \<Rightarrow> int \<Rightarrow> int list \<Rightarrow> (nat \<times> 'e) list \<Rightarrow> ('e, 'n) net \<Rightarrow> ('e, 'n) net" where
  "net_run handle sid ids [] g = g"
| "net_run handle sid ids (x # xs) g = net_run handle sid ids xs (net_step handle sid ids x g)"

lemma net_run_snoc: "net_run handle sid ids (xs @ [x]) g = net_step handle sid ids x (net_run handle sid ids xs g)"
  by (induction xs arbitrary: g) (simp_all del: net_step.simps)

lemma served_mono: "set (served g) \<subseteq> set (served (net_step handle sid ids x g))"
  by (cases x) (auto split: prod.splits)

definition net_start :: "(int \<Rightarrow> 'n) \<Rightarrow> packet list \<Rightarrow> ('e, 'n) net" where
  "net_start ns ps = \<lparr>nodes = ns, packets = ps, served = [], net_log = []\<rparr>"

section \<open>Conservation of messages\<close>

text \<open>
  What was in flight at the start or sent since is either delivered or still in flight, and a
  node is in the state that serving its deliveries in their order leads to.
\<close>

fun local_run :: "('e, 'n) handler \<Rightarrow> int \<Rightarrow> ('e \<times> packet) list \<Rightarrow> 'n \<Rightarrow> 'n \<times> effect list" where
  "local_run handle i [] s = (s, [])"
| "local_run handle i ((e, a, j, m) # xs) s =
     (if j = i then (case handle i e m s of (s1, es) \<Rightarrow> (case local_run handle i xs s1 of (s2, es') \<Rightarrow> (s2, es @ es')))
      else local_run handle i xs s)"

lemma local_run_append:
  "local_run handle i (xs @ ys) s =
     (case local_run handle i xs s of (s1, es) \<Rightarrow> (case local_run handle i ys s1 of (s2, es') \<Rightarrow> (s2, es @ es')))"
proof (induction xs arbitrary: s)
  case (Cons x xs)
  obtain e a j m where "x = (e, a, j, m)" by (cases x)
  with Cons show ?case by (auto split: prod.splits)
qed (auto split: prod.splits)

definition effects_of :: "int \<Rightarrow> (int \<times> effect) list \<Rightarrow> effect list" where
  "effects_of i l = map snd (filter (\<lambda>x. fst x = i) l)"

lemma effects_of_append [simp]: "effects_of i (l @ l') = effects_of i l @ effects_of i l'"
  by (simp add: effects_of_def)

lemma effects_of_own [simp]: "effects_of i (map (Pair j) es) = (if i = j then es else [])"
  by (induction es) (auto simp: effects_of_def)

lemma outgoing_append [simp]: "outgoing sid ids (l @ l') = outgoing sid ids l @ outgoing sid ids l'"
  by (simp add: outgoing_def)

definition net_inv :: "('e, 'n) handler \<Rightarrow> int \<Rightarrow> int list \<Rightarrow> (int \<Rightarrow> 'n) \<Rightarrow> packet list \<Rightarrow> ('e, 'n) net \<Rightarrow> bool" where
  "net_inv handle sid ids ns ps g \<longleftrightarrow>
     mset (ps @ outgoing sid ids (net_log g)) = mset (packets g) + mset (map snd (served g)) \<and>
     (\<forall>i. local_run handle i (served g) (ns i) = (nodes g i, effects_of i (net_log g)))"

lemma net_inv_start: "net_inv handle sid ids ns ps (net_start ns ps)"
  by (simp add: net_inv_def net_start_def outgoing_def effects_of_def)

lemma mset_remove_nth: "k < length xs \<Longrightarrow> mset xs = add_mset (xs ! k) (mset (take k xs @ drop (Suc k) xs))"
  by (metis id_take_nth_drop mset.simps(2) mset_append union_mset_add_mset_right)

lemma net_inv_step:
  assumes "net_inv handle sid ids ns ps g"
  shows "net_inv handle sid ids ns ps (net_step handle sid ids x g)"
proof -
  obtain k e where x: "x = (k, e)" by (cases x)
  show ?thesis
  proof (cases "k < length (packets g)")
    case True
    obtain i j m where p: "packets g ! k = (i, j, m)" by (metis prod_cases3)
    obtain s es where h: "handle j e m (nodes g j) = (s, es)" by fastforce
    have "mset (packets g) = add_mset (i, j, m) (mset (take k (packets g) @ drop (Suc k) (packets g)))"
      using mset_remove_nth [OF True] p by simp
    with assms x True p h show ?thesis
      by (auto simp: net_inv_def local_run_append)
  qed (use assms x in simp)
qed

lemma net_inv_run: "net_inv handle sid ids ns ps g \<Longrightarrow> net_inv handle sid ids ns ps (net_run handle sid ids xs g)"
  by (induction xs arbitrary: g) (auto intro: net_inv_step simp del: net_step.simps)

lemmas net_inv_reached = net_inv_run [OF net_inv_start]

text \<open>At rest, with nothing in flight, everything sent has been delivered.\<close>

definition at_rest :: "('e, 'n) net \<Rightarrow> bool" where
  "at_rest g \<longleftrightarrow> packets g = []"

definition inbox :: "int \<Rightarrow> ('e, 'n) net \<Rightarrow> ('e \<times> packet) list" where
  "inbox i g = filter (\<lambda>x. fst (snd (snd x)) = i) (served g)"

lemma at_rest_delivered:
  "net_inv handle sid ids ns ps g \<Longrightarrow> at_rest g \<Longrightarrow> mset (map snd (served g)) = mset (ps @ outgoing sid ids (net_log g))"
  by (simp add: net_inv_def at_rest_def)

lemma at_rest_set:
  "net_inv handle sid ids ns ps g \<Longrightarrow> at_rest g \<Longrightarrow> snd ` set (served g) = set ps \<union> set (outgoing sid ids (net_log g))"
  by (metis at_rest_delivered set_append set_map set_mset_mset)

lemma local_run_inbox: "local_run handle i (filter (\<lambda>x. fst (snd (snd x)) = i) xs) s = local_run handle i xs s"
  by (induction handle i xs s rule: local_run.induct) (auto split: prod.splits)

text \<open>Every delivery consumes a packet, so a run with as many effective deliveries as packets is at rest.\<close>

lemma served_bound:
  assumes "net_inv handle sid ids ns ps g"
  shows "length (served g) + length (packets g) = length ps + length (outgoing sid ids (net_log g))"
proof -
  have "size (mset (ps @ outgoing sid ids (net_log g))) = size (mset (packets g) + mset (map snd (served g)))"
    using assms by (simp add: net_inv_def)
  then show ?thesis by simp
qed

section \<open>Receivers and counts\<close>

definition receivers_in :: "int set \<Rightarrow> ('e, 'n) net \<Rightarrow> bool" where
  "receivers_in S g \<longleftrightarrow> (\<forall>p \<in> set (packets g). fst (snd p) \<in> S) \<and> fst ` set (net_log g) \<subseteq> S"

lemma outgoing_receivers: "p \<in> set (outgoing sid ids l) \<Longrightarrow> fst (snd p) \<in> set ids"
proof -
  assume "p \<in> set (outgoing sid ids l)"
  then obtain i ef where "p \<in> set (packets_of sid ids (i, ef))" by (auto simp: outgoing_def)
  then show ?thesis by (cases ef) (auto split: if_splits)
qed

lemma receivers_step:
  assumes "receivers_in (set ids) g" shows "receivers_in (set ids) (net_step handle sid ids x g)"
proof -
  obtain k e where x: "x = (k, e)" by (cases x)
  show ?thesis
  proof (cases "k < length (packets g)")
    case True
    obtain i j m where p: "packets g ! k = (i, j, m)" by (metis prod_cases3)
    obtain s es where h: "handle j e m (nodes g j) = (s, es)" by fastforce
    have "(i, j, m) \<in> set (packets g)" using True p by (metis nth_mem)
    then have j: "j \<in> set ids" using assms by (fastforce simp: receivers_in_def)
    let ?g = "net_step handle sid ids x g"
    have g: "packets ?g = take k (packets g) @ drop (Suc k) (packets g) @ outgoing sid ids (map (Pair j) es)"
      "net_log ?g = net_log g @ map (Pair j) es"
      using x True p h by simp_all
    from assms j show ?thesis
      unfolding receivers_in_def g by (auto dest: in_set_takeD in_set_dropD outgoing_receivers)
  qed (use assms x in simp)
qed

lemma receivers_run: "receivers_in (set ids) g \<Longrightarrow> receivers_in (set ids) (net_run handle sid ids xs g)"
  by (induction xs arbitrary: g) (auto intro: receivers_step simp del: net_step.simps)

text \<open>How often a list of effects broadcasts a message, and how often it was delivered to a node.\<close>

definition casts :: "int \<Rightarrow> message \<Rightarrow> effect list \<Rightarrow> nat" where
  "casts sid m es = length (filter (\<lambda>ef. ef = Broadcast sid m) es)"

lemma casts_simps [simp]:
  "casts sid m [] = 0" "casts sid m (es @ es') = casts sid m es + casts sid m es'"
  "casts sid m (ef # es) = (if ef = Broadcast sid m then Suc (casts sid m es) else casts sid m es)"
  by (simp_all add: casts_def)

definition got :: "int \<Rightarrow> message \<Rightarrow> ('e \<times> packet) list \<Rightarrow> nat" where
  "got i m xs = length (filter (\<lambda>x. snd (snd x) = (i, m)) xs)"

lemma got_simps [simp]:
  "got i m [] = 0" "got i m (xs @ ys) = got i m xs + got i m ys"
  "got i m ((e, a, j, m') # xs) = (if j = i \<and> m' = m then Suc (got i m xs) else got i m xs)"
  by (simp_all add: got_def)

definition sent_to :: "int \<Rightarrow> message \<Rightarrow> packet list \<Rightarrow> nat" where
  "sent_to i m ps = length (filter (\<lambda>p. snd p = (i, m)) ps)"

lemma sent_to_simps [simp]:
  "sent_to i m [] = 0" "sent_to i m (xs @ ys) = sent_to i m xs + sent_to i m ys"
  "sent_to i m (p # xs) = (if snd p = (i, m) then Suc (sent_to i m xs) else sent_to i m xs)"
  by (simp_all add: sent_to_def)

lemma sent_to_mset: "mset ps = mset qs \<Longrightarrow> sent_to i m ps = sent_to i m qs"
  unfolding sent_to_def by (metis mset_filter size_mset)

lemma got_sent_to: "got i m xs = sent_to i m (map snd xs)"
  by (simp add: got_def sent_to_def filter_map o_def)

lemma got_le_sent:
  assumes "net_inv handle sid ids ns ps g"
  shows "got i m (served g) + sent_to i m (packets g) = sent_to i m (ps @ outgoing sid ids (net_log g))"
proof -
  have "mset (ps @ outgoing sid ids (net_log g)) = mset (packets g @ map snd (served g))"
    using assms by (simp add: net_inv_def)
  from sent_to_mset [OF this] show ?thesis by (simp add: got_sent_to)
qed

lemma sent_to_one:
  assumes "distinct ids"
  shows "sent_to i m (packets_of sid ids (j, ef)) = (if i \<in> set ids \<and> j \<noteq> i \<and> ef = Broadcast sid m then 1 else 0)"
proof (cases ef)
  case (Broadcast k m')
  have "length (filter (\<lambda>j'. j' = i) (filter (\<lambda>j'. j' \<noteq> j) ids)) = (if i \<in> set ids \<and> j \<noteq> i then 1 else 0)"
    using assms by (induction ids) auto
  with Broadcast show ?thesis by (auto simp: sent_to_def filter_map o_def filter_empty_conv)
qed simp_all

lemma sent_to_outgoing:
  assumes "distinct ids" and "i \<in> set ids" and "fst ` set l \<subseteq> set ids"
  shows "sent_to i m (outgoing sid ids l) = (\<Sum>j \<in> set ids - {i}. casts sid m (effects_of j l))"
  using assms(3)
proof (induction l)
  case Nil
  then show ?case by (simp add: outgoing_def effects_of_def)
next
  case (Cons x l)
  obtain j ef where x: "x = (j, ef)" by (cases x)
  have "sent_to i m (outgoing sid ids (x # l)) = sent_to i m (packets_of sid ids (j, ef)) + sent_to i m (outgoing sid ids l)"
    by (simp add: outgoing_def x)
  moreover have "(\<Sum>j' \<in> set ids - {i}. casts sid m (effects_of j' (x # l))) =
      (\<Sum>j' \<in> set ids - {i}. (if j' = j \<and> ef = Broadcast sid m then 1 else 0) + casts sid m (effects_of j' l))"
    by (rule sum.cong) (auto simp: effects_of_def x)
  moreover have "(\<Sum>j' \<in> set ids - {i}. (if j' = j \<and> ef = Broadcast sid m then 1 else 0)) =
      (if j \<noteq> i \<and> ef = Broadcast sid m then 1 else (0::nat))"
    using Cons.prems x by (cases "ef = Broadcast sid m") (auto simp: sum.delta)
  ultimately show ?case
    using Cons assms(1,2) by (simp add: sent_to_one sum.distrib)
qed

lemma at_rest_got:
  assumes "net_inv handle sid ids ns ps g" and "receivers_in (set ids) g" and "at_rest g"
    and "distinct ids" and "i \<in> set ids"
  shows "got i m (served g) = sent_to i m ps + (\<Sum>j \<in> set ids - {i}. casts sid m (effects_of j (net_log g)))"
  using got_le_sent [OF assms(1), of i m] assms(2,3) sent_to_outgoing [OF assms(4,5), of "net_log g" m sid]
  by (simp add: at_rest_def receivers_in_def)

text \<open>The number of packets that all broadcasts together make.\<close>

definition bcasts :: "int \<Rightarrow> effect list \<Rightarrow> nat" where
  "bcasts sid es = length (filter (\<lambda>ef. case ef of Broadcast k m \<Rightarrow> k = sid | _ \<Rightarrow> False) es)"

lemma length_packets_of:
  assumes "distinct ids" and "i \<in> set ids"
  shows "length (packets_of sid ids (i, ef)) = (length ids - 1) * bcasts sid [ef]"
proof (cases ef)
  case (Broadcast k m)
  have "length (filter (\<lambda>j. j = i) ids) = 1" using assms by (induction ids) (auto simp: filter_empty_conv)
  with sum_length_filter_compl [of "\<lambda>j. j = i" ids] have "length (filter (\<lambda>j. j \<noteq> i) ids) = length ids - 1"
    by simp
  with Broadcast show ?thesis by (simp add: bcasts_def)
qed (simp_all add: bcasts_def)

lemma length_outgoing:
  assumes "distinct ids" and "fst ` set l \<subseteq> set ids"
  shows "length (outgoing sid ids l) = (length ids - 1) * (\<Sum>i \<in> set ids. bcasts sid (effects_of i l))"
  using assms(2)
proof (induction l)
  case Nil
  then show ?case by (simp add: outgoing_def effects_of_def bcasts_def)
next
  case (Cons x l)
  obtain j ef where x: "x = (j, ef)" by (cases x)
  have j: "j \<in> set ids" using Cons.prems x by simp
  have "(\<Sum>i \<in> set ids. bcasts sid (effects_of i (x # l))) =
      (\<Sum>i \<in> set ids. (if i = j then bcasts sid [ef] else 0) + bcasts sid (effects_of i l))"
    by (rule sum.cong) (auto simp: effects_of_def bcasts_def x)
  also have "\<dots> = bcasts sid [ef] + (\<Sum>i \<in> set ids. bcasts sid (effects_of i l))"
    using j by (simp add: sum.distrib sum.delta)
  finally show ?case
    using Cons length_packets_of [OF assms(1) j, of sid ef] by (simp add: outgoing_def x distrib_left)
qed

section \<open>Local invariants\<close>

text \<open>
  A property of nodes and one of messages that every handler preserves hold in every state of
  the network.
\<close>

locale local_invariant =
  fixes handle :: "('e, 'n) handler" and ok_node :: "int \<Rightarrow> 'n \<Rightarrow> bool" and ok_msg :: "message \<Rightarrow> bool"
  assumes handle_ok: "ok_node i s \<Longrightarrow> ok_msg m \<Longrightarrow> handle i e m s = (s', es) \<Longrightarrow>
    ok_node i s' \<and> (\<forall>k m'. Broadcast k m' \<in> set es \<longrightarrow> ok_msg m')"
begin

definition ok_net :: "('e, 'n) net \<Rightarrow> bool" where
  "ok_net g \<longleftrightarrow> (\<forall>i. ok_node i (nodes g i)) \<and> (\<forall>p \<in> set (packets g) \<union> snd ` set (served g). ok_msg (snd (snd p)))"

lemma outgoing_ok:
  assumes "\<forall>k m'. Broadcast k m' \<in> set es \<longrightarrow> ok_msg m'" and "p \<in> set (outgoing sid ids (map (Pair j) es))"
  shows "ok_msg (snd (snd p))"
proof -
  from assms(2) obtain ef where ef: "ef \<in> set es" "p \<in> set (packets_of sid ids (j, ef))"
    by (auto simp: outgoing_def)
  with assms(1) show ?thesis by (cases ef) (auto split: if_splits)
qed

lemma ok_net_step:
  assumes "ok_net g" shows "ok_net (net_step handle sid ids x g)"
proof -
  obtain k e where x: "x = (k, e)" by (cases x)
  show ?thesis
  proof (cases "k < length (packets g)")
    case True
    obtain i j m where p: "packets g ! k = (i, j, m)" by (metis prod_cases3)
    obtain s es where h: "handle j e m (nodes g j) = (s, es)" by fastforce
    have "(i, j, m) \<in> set (packets g)" using True p by (metis nth_mem)
    then have m: "ok_msg m" using assms by (force simp: ok_net_def)
    have "ok_node j (nodes g j)" using assms by (simp add: ok_net_def)
    from handle_ok [OF this m h] have n: "ok_node j s" "\<forall>k m'. Broadcast k m' \<in> set es \<longrightarrow> ok_msg m'" by auto
    let ?g = "net_step handle sid ids x g"
    have g: "nodes ?g = (nodes g)(j := s)" "served ?g = served g @ [(e, i, j, m)]"
      "packets ?g = take k (packets g) @ drop (Suc k) (packets g) @ outgoing sid ids (map (Pair j) es)"
      using x True p h by simp_all
    have "ok_msg (snd (snd q))" if "q \<in> set (packets ?g) \<union> snd ` set (served ?g)" for q
    proof -
      from that have "q \<in> set (packets g) \<union> snd ` set (served g) \<or> q \<in> set (outgoing sid ids (map (Pair j) es)) \<or> q = (i, j, m)"
        unfolding g by (auto dest: in_set_takeD in_set_dropD)
      then show ?thesis using assms outgoing_ok [OF n(2)] m unfolding ok_net_def by (elim disjE) auto
    qed
    moreover have "ok_node i' (nodes ?g i')" for i'
      using assms n(1) unfolding g ok_net_def by simp
    ultimately show ?thesis unfolding ok_net_def by blast
  qed (use assms x in simp)
qed

lemma ok_net_run: "ok_net g \<Longrightarrow> ok_net (net_run handle sid ids xs g)"
  by (induction xs arbitrary: g) (auto intro: ok_net_step simp del: net_step.simps)

lemma ok_net_start:
  "(\<And>i. ok_node i (ns i)) \<Longrightarrow> (\<And>p. p \<in> set ps \<Longrightarrow> ok_msg (snd (snd p))) \<Longrightarrow> ok_net (net_start ns ps)"
  by (auto simp: ok_net_def net_start_def)

end

end
