(* ===== verification/PBFT_Quorum.thy ===== *)
theory PBFT_Quorum
  imports PBFT
begin

text \<open>
  The thresholds of the PBFT module: what \<open>malicious_num\<close> is for a shard of \<open>n\<close> nodes, when the
  quorums the code waits for intersect, and that a shard of honest nodes completes a round.
\<close>

section \<open>The fault bound\<close>

lemma malicious_num_bound:
  assumes "NewPbftCosensusMod c nid sid ip mk = Inr s" and "1 \<le> NodeNum c"
  shows "0 \<le> malicious_num s" "3 * malicious_num s + 1 \<le> NodeNum c" "NodeNum c \<le> 3 * malicious_num s + 3"
    "pbft_num s = NodeNum c" "requestPool s = Map.empty" "currentRound s = 0" "Nid s = nid" "view s = ViewNodeId c"
proof -
  have m: "malicious_num s = (NodeNum c - 1) div 3"
    using assms by (auto simp: NewPbftCosensusMod_def sdiv_pos_eq_div split: option.splits)
  then show "0 \<le> malicious_num s" "3 * malicious_num s + 1 \<le> NodeNum c" "NodeNum c \<le> 3 * malicious_num s + 3"
    using assms(2) by linarith+
  show "pbft_num s = NodeNum c" "requestPool s = Map.empty" "currentRound s = 0" "Nid s = nid" "view s = ViewNodeId c"
    using assms(1) by (auto simp: NewPbftCosensusMod_def split: option.splits)
qed

text \<open>A commit quorum: the node itself and the \<open>2f\<close> others whose commit messages it counts.\<close>

definition commit_quorum :: "'ad pbft \<Rightarrow> int set \<Rightarrow> bool" where
  "commit_quorum s Q \<longleftrightarrow> Q \<subseteq> {0..<pbft_num s} \<and> int (card Q) = 2 * malicious_num s + 1"

lemma card_inter_ge:
  assumes "Q \<subseteq> {0..<n}" and "R \<subseteq> {0..<(n::int)}"
  shows "int (card Q) + int (card R) \<le> max 0 n + int (card (Q \<inter> R))"
proof -
  have f: "finite Q" "finite R" using assms finite_subset by blast+
  have "card Q + card R = card (Q \<union> R) + card (Q \<inter> R)" by (rule card_Un_Int [OF f])
  moreover have "card (Q \<union> R) \<le> card {0..<n}" using assms by (intro card_mono) auto
  ultimately show ?thesis by simp
qed


section \<open>The prepare quorum\<close>

definition prepare_msgs :: "request \<Rightarrow> int \<Rightarrow> nat \<Rightarrow> message list" where
  "prepare_msgs req round k = replicate k (pbft_msg MsgPrepare req round)"

definition prep_count :: "bytes \<Rightarrow> 'ad pbft \<Rightarrow> int" where
  "prep_count d s = (case requestPool s d of None \<Rightarrow> 0 | Some i \<Rightarrow> cntPrepareConfirm i)"

text \<open>What serving prepare messages leaves alone.\<close>

definition prepare_frame :: "bytes \<Rightarrow> 'ad pbft \<Rightarrow> 'ad pbft \<Rightarrow> bool" where
  "prepare_frame d s s' \<longleftrightarrow> currentRound s' = currentRound s \<and> malicious_num s' = malicious_num s \<and>
     Nid s' = Nid s \<and> view s' = view s \<and> isReplySent d s' = isReplySent d s \<and> commit_count d s' = commit_count d s"

lemma prepare_frame_trans: "prepare_frame d s t \<Longrightarrow> prepare_frame d t u \<Longrightarrow> prepare_frame d s u"
  by (simp add: prepare_frame_def)

lemma prepare_frame_refl: "prepare_frame d s s"
  by (simp add: prepare_frame_def)

lemma needCnt_pool: "needCnt (s\<lparr>requestPool := p\<rparr>) = needCnt s"
  by (simp add: needCnt_def)

lemma dispatch_prepare:
  assumes "currentRound s \<le> round" and "\<not> isCommitBroadcasted (Digest req) s"
  shows "\<exists>s'. prepare_frame (Digest req) s s' \<and>
    (if needCnt s \<le> prep_count (Digest req) s + 1
     then isCommitBroadcasted (Digest req) s' \<and>
       dispatch SimpleAddon now (pbft_msg MsgPrepare req round) s =
         Returns s' [Broadcast (ShardId req) (pbft_msg MsgCommit req round)]
     else dispatch SimpleAddon now (pbft_msg MsgPrepare req round) s = Returns s' [] \<and>
       \<not> isCommitBroadcasted (Digest req) s' \<and> prep_count (Digest req) s' = prep_count (Digest req) s + 1)"
  using assms
  by (cases "needCnt s \<le> prep_count (Digest req) s + 1"; cases "requestPool s (Digest req)")
    (simp_all add: dispatch_def pbft_handler_def pbft_msg_def handlePrepare_def getCurrentRound_def pool_defs
      prep_count_def commit_count_def prepare_frame_def needCnt_pool)

lemma serve_prepare_done:
  assumes "isCommitBroadcasted (Digest req) s"
  shows "serve SimpleAddon now (prepare_msgs req round k) s = Returns s []"
  using assms
proof (induction k)
  case (Suc k)
  have "dispatch SimpleAddon now (pbft_msg MsgPrepare req round) s = Returns s []"
    using Suc.prems by (simp add: dispatch_def pbft_handler_def pbft_msg_def handlePrepare_def Let_def)
  with Suc show ?case by (simp add: prepare_msgs_def)
qed (simp add: prepare_msgs_def)

lemma serve_prepares:
  assumes "currentRound s \<le> round" and "\<not> isCommitBroadcasted (Digest req) s"
  shows "\<exists>s'. prepare_frame (Digest req) s s' \<and>
    serve SimpleAddon now (prepare_msgs req round k) s =
      Returns s' (if 1 \<le> k \<and> needCnt s \<le> prep_count (Digest req) s + int k
                  then [Broadcast (ShardId req) (pbft_msg MsgCommit req round)] else []) \<and>
    isCommitBroadcasted (Digest req) s' = (1 \<le> k \<and> needCnt s \<le> prep_count (Digest req) s + int k)"
  using assms
proof (induction k arbitrary: s)
  case 0
  then show ?case using prepare_frame_refl by (force simp: prepare_msgs_def)
next
  case (Suc k)
  show ?case
  proof (cases "needCnt s \<le> prep_count (Digest req) s + 1")
    case True
    with dispatch_prepare [OF Suc.prems, of now] obtain s1 where "prepare_frame (Digest req) s s1"
      "isCommitBroadcasted (Digest req) s1" "dispatch SimpleAddon now (pbft_msg MsgPrepare req round) s =
        Returns s1 [Broadcast (ShardId req) (pbft_msg MsgCommit req round)]" by auto
    with serve_prepare_done [of req s1 now round k] True show ?thesis
      by (auto simp: prepare_msgs_def bindO_def)
  next
    case False
    with dispatch_prepare [OF Suc.prems, of now] obtain s1 where s1: "prepare_frame (Digest req) s s1"
      "dispatch SimpleAddon now (pbft_msg MsgPrepare req round) s = Returns s1 []"
      "\<not> isCommitBroadcasted (Digest req) s1" "prep_count (Digest req) s1 = prep_count (Digest req) s + 1" by auto
    then have n: "needCnt s1 = needCnt s" "currentRound s1 \<le> round"
      using Suc.prems(1) by (auto simp: prepare_frame_def needCnt_def)
    from Suc.IH [OF n(2) s1(3)] obtain s2 where s2: "prepare_frame (Digest req) s1 s2"
      "serve SimpleAddon now (prepare_msgs req round k) s1 =
        Returns s2 (if 1 \<le> k \<and> needCnt s \<le> prep_count (Digest req) s + 1 + int k
                    then [Broadcast (ShardId req) (pbft_msg MsgCommit req round)] else [])"
      "isCommitBroadcasted (Digest req) s2 = (1 \<le> k \<and> needCnt s \<le> prep_count (Digest req) s + 1 + int k)"
      using n(1) s1(4) by auto
    have k: "(1 \<le> k \<and> needCnt s \<le> prep_count (Digest req) s + 1 + int k) =
        (1 \<le> Suc k \<and> needCnt s \<le> prep_count (Digest req) s + int (Suc k))"
      using False by auto
    have "serve SimpleAddon now (prepare_msgs req round (Suc k)) s = serve SimpleAddon now (prepare_msgs req round k) s1"
      by (simp add: prepare_msgs_def s1(2))
    with s2 prepare_frame_trans [OF s1(1) s2(1)] show ?thesis unfolding k by auto
  qed
qed

text \<open>
  With the simple addon a node that has not yet counted a request broadcasts its commit message
  exactly once, on the \<open>max 1 needCnt\<close>-th prepare message of the current round.
\<close>

theorem prepare_quorum_exact:
  assumes "currentRound s \<le> round" and "requestPool s (Digest req) = None"
  shows "\<exists>s'. serve SimpleAddon now (prepare_msgs req round k) s =
      Returns s' (if 1 \<le> k \<and> needCnt s \<le> int k
                  then [Broadcast (ShardId req) (pbft_msg MsgCommit req round)] else []) \<and>
    isCommitBroadcasted (Digest req) s' = (1 \<le> k \<and> needCnt s \<le> int k)"
proof -
  have "\<not> isCommitBroadcasted (Digest req) s" "prep_count (Digest req) s = 0"
    using assms(2) by (simp_all add: isCommitBroadcasted_def prep_count_def)
  with serve_prepares [OF assms(1), of req now k] show ?thesis by auto
qed

section \<open>A shard of honest nodes\<close>

lemma serve_append: "serve A now (ms @ ms') s = bindO (serve A now ms s) (serve A now ms')"
proof (induction ms arbitrary: s)
  case (Cons m ms)
  have "bindO (dispatch A now m s) (\<lambda>x. bindO (serve A now ms x) (serve A now ms'))
      = bindO (bindO (dispatch A now m s) (serve A now ms)) (serve A now ms')"
    by (cases "dispatch A now m s") (auto simp: bindO_def split: outcome.splits)
  moreover have "serve A now (ms @ ms') = (\<lambda>x. bindO (serve A now ms x) (serve A now ms'))"
    using Cons.IH by (rule ext)
  ultimately show ?case by simp
qed simp

text \<open>
  A round completes in a shard of honest nodes if and only if the shard has at least two
  nodes: a node of a fresh shard of \<open>n\<close> nodes that receives the prepare and the commit message of
  each of the \<open>n - 1\<close> others broadcasts its own commit message once and commits the request once
  when \<open>n \<ge> 2\<close>, and does neither when \<open>n = 1\<close>.
\<close>

theorem honest_shard_completes:
  assumes "NewPbftCosensusMod c nid sid ip mk = Inr s" and "1 \<le> NodeNum c" and "int k = NodeNum c - 1"
  shows "\<exists>s' es. serve SimpleAddon now (prepare_msgs req 0 k @ commit_msgs req 0 k) s = Returns s' es \<and>
    (Broadcast (ShardId req) (pbft_msg MsgCommit req 0) \<in> set es \<longleftrightarrow> 2 \<le> NodeNum c) \<and>
    commits_of (Digest req) es = (if 2 \<le> NodeNum c then 1 else 0) \<and>
    (isReplySent (Digest req) s' \<longleftrightarrow> 2 \<le> NodeNum c)"
proof -
  note b = malicious_num_bound [OF assms(1,2)]
  have fresh: "currentRound s \<le> 0" "\<not> isCommitBroadcasted (Digest req) s" "\<not> isReplySent (Digest req) s"
    "prep_count (Digest req) s = 0" "commit_count (Digest req) s = 0"
    using b(5,6) by (simp_all add: isCommitBroadcasted_def isReplySent_def prep_count_def commit_count_def)
  have need: "(1 \<le> k \<and> needCnt s \<le> int k) = (2 \<le> NodeNum c)"
    "(1 \<le> k \<and> 2 * malicious_num s \<le> int k) = (2 \<le> NodeNum c)"
    using b(1-3) assms(3) by (auto simp: needCnt_def)
  from serve_prepares [OF fresh(1,2), of now k] fresh(4) need(1) obtain s1 where 1:
    "prepare_frame (Digest req) s s1" "serve SimpleAddon now (prepare_msgs req 0 k) s =
      Returns s1 (if 2 \<le> NodeNum c then [Broadcast (ShardId req) (pbft_msg MsgCommit req 0)] else [])"
    by auto
  then have "currentRound s1 \<le> 0" "\<not> isReplySent (Digest req) s1"
    "commit_count (Digest req) s1 = 0" "malicious_num s1 = malicious_num s"
    using fresh by (auto simp: prepare_frame_def)
  with serve_commits_from [of s1 0 req now k] need(2) obtain s2 es where 2:
    "serve SimpleAddon now (commit_msgs req 0 k) s1 = Returns s2 es"
    "isReplySent (Digest req) s2 \<longleftrightarrow> 2 \<le> NodeNum c"
    "commits_of (Digest req) es = (if isReplySent (Digest req) s2 then 1 else 0)" by auto
  have "k = 0" if "\<not> 2 \<le> NodeNum c" using that assms(2,3) by simp
  with 2 have "es = []" if "\<not> 2 \<le> NodeNum c" using that by (auto simp: commit_msgs_def)
  with 1 2 show ?thesis by (auto simp: serve_append bindO_def)
qed

section \<open>Concrete shards\<close>

definition shard_cfg :: "int \<Rightarrow> config" where
  "shard_cfg n = example_config\<lparr>ConsensusMethod := ''Simple'', NodeNum := n\<rparr>"

lemma shard_cfg_node:
  "\<exists>s. NewPbftCosensusMod (shard_cfg n) nid 0 ''n'' (\<lambda>k. ()) = Inr s \<and> malicious_num s = (n - 1) sdiv 3"
  by (simp add: NewPbftCosensusMod_def shard_cfg_def NewPbftAddon_def)


theorem prepare_quorum_exact_witness:
  "\<exists>s'. serve SimpleAddon 0 (prepare_msgs (example_req ''A'') 0 1) (example_node ()) = 
      Returns s' [Broadcast 0 (pbft_msg MsgCommit (example_req ''A'') 0)]"
  using prepare_quorum_exact [of "example_node ()" 0 "example_req ''A''" 0 1]
  by (auto simp: example_node_def example_req_def needCnt_def)

theorem honest_shard_completes_witness:
  "\<exists>s s' es. NewPbftCosensusMod (shard_cfg 4) 1 0 ''n'' (\<lambda>k. ()) = Inr s \<and>
    serve SimpleAddon 0 (prepare_msgs (example_req ''A'') 0 3 @ commit_msgs (example_req ''A'') 0 3) s = Returns s' es \<and>
    commits_of ''A'' es = 1"
proof -
  obtain s where s: "NewPbftCosensusMod (shard_cfg 4) 1 0 ''n'' (\<lambda>k. ()) = Inr s"
    using shard_cfg_node [of 4 1] by auto
  from honest_shard_completes [OF s, of 3 0 "example_req ''A''"] s show ?thesis
    by (auto simp: shard_cfg_def example_req_def)
qed

end
