(* ===== verification/PBFT_Shard.thy ===== *)
theory PBFT_Shard
  imports ShardNet PBFT_Quorum
begin

text \<open>
  A whole PBFT shard: \<open>n\<close> honest nodes with the simple addon, connected by the network of theory
  ShardNet, on one proposed request.  A node that serves the messages of the request behaves like a
  machine with two counters and two flags; counting what is sent and delivered then shows what every
  delivery order leads to.
\<close>

section \<open>One node as a counter machine\<close>

definition counters :: "bytes \<Rightarrow> 'ad pbft \<Rightarrow> int \<times> int \<times> bool \<times> bool \<times> int" where
  "counters d s = (prep_count d s, commit_count d s, isCommitBroadcasted d s, isReplySent d s, currentRound s)"

lemmas counter_defs = counters_def prep_count_def commit_count_def pool_defs getCurrentRound_def needCnt_pool
  IncCurrentRound_def

definition params :: "'ad pbft \<Rightarrow> int \<times> int \<times> int" where
  "params s = (Nid s, view s, malicious_num s)"

lemma dispatch_prePrepare_counts:
  "\<exists>s'. dispatch SimpleAddon now (pbft_msg MsgPrePrepare req r) s =
      Returns s' (if currentRound s \<le> r then [Broadcast (ShardId req) (pbft_msg MsgPrepare req r)] else []) \<and>
    params s' = params s \<and> counters (Digest req) s' = counters (Digest req) s"
  by (cases "requestPool s (Digest req)"; cases "currentRound s \<le> r")
    (simp_all add: dispatch_def pbft_handler_def pbft_msg_def handlePrePrepare_def counter_defs params_def)

lemma dispatch_prepare_counts:
  assumes "counters (Digest req) s = (p, k, cb, rep, rd)"
  shows "\<exists>s'. dispatch SimpleAddon now (pbft_msg MsgPrepare req r) s =
      Returns s' (if rd \<le> r \<and> \<not> cb \<and> needCnt s \<le> p + 1 then [Broadcast (ShardId req) (pbft_msg MsgCommit req r)] else []) \<and>
    params s' = params s \<and>
    counters (Digest req) s' = (if rd \<le> r \<and> \<not> cb then (p + 1, k, needCnt s \<le> p + 1, rep, rd) else (p, k, cb, rep, rd))"
  using assms
  by (cases "requestPool s (Digest req)"; cases "rd \<le> r"; cases cb; cases "needCnt s \<le> p + 1")
    (auto simp: dispatch_def pbft_handler_def pbft_msg_def handlePrepare_def counter_defs params_def)

lemma dispatch_commit_counts:
  assumes "counters (Digest req) s = (p, k, cb, rep, rd)"
  shows "\<exists>s'. dispatch SimpleAddon now (pbft_msg MsgCommit req r) s =
      Returns s' (if rd \<le> r \<and> \<not> rep \<and> 2 * malicious_num s \<le> k + 1
        then CommitCalled req # (if Nid s = view s then [NotifyDone] else []) else []) \<and>
    params s' = params s \<and>
    counters (Digest req) s' =
      (if rd \<le> r then (p, k + 1, cb, rep \<or> 2 * malicious_num s \<le> k + 1,
         if \<not> rep \<and> 2 * malicious_num s \<le> k + 1 \<and> Nid s = view s then rd + 1 else rd) else (p, k, cb, rep, rd))"
  using assms
  by (cases "requestPool s (Digest req)"; cases "rd \<le> r"; cases rep; cases "2 * malicious_num s \<le> k + 1"; cases "Nid s = view s")
    (auto simp: dispatch_def pbft_handler_def pbft_msg_def handleCommit_def counter_defs params_def bindO_def)

section \<open>A node in the network\<close>

text \<open>With the simple addon no handler blocks or panics.\<close>

definition pbft_handle :: "(time, unit pbft) handler" where
  "pbft_handle i now m s = (case dispatch SimpleAddon now m s of Returns s' es \<Rightarrow> (s', es) | _ \<Rightarrow> (s, []))"

definition round_msgs :: "request \<Rightarrow> message set" where
  "round_msgs req = {pbft_msg MsgPrePrepare req 0, pbft_msg MsgPrepare req 0, pbft_msg MsgCommit req 0}"

lemma pbft_msg_eq [simp]: "pbft_msg t req r = pbft_msg t' req r \<longleftrightarrow> t = t'"
  by (simp add: pbft_msg_def)

text \<open>
  What a node has done when it has been delivered the messages \<open>xs\<close>, whose numbers are \<open>got\<close>: the
  commit is settled by the number of commit messages; the prepare and the commit message of a node
  other than the view node by the numbers of pre-prepare and prepare messages (the view node drops
  messages of the round once it has committed).
\<close>

definition node_done :: "request \<Rightarrow> unit pbft \<Rightarrow> int \<Rightarrow> (time \<times> packet) list \<Rightarrow> unit pbft \<Rightarrow> effect list \<Rightarrow> bool" where
  "node_done req s0 i xs s es \<longleftrightarrow>
     (let pp = got i (pbft_msg MsgPrePrepare req 0) xs; p = got i (pbft_msg MsgPrepare req 0) xs;
          k = got i (pbft_msg MsgCommit req 0) xs; d = Digest req; sid = ShardId req;
          rep = (1 \<le> k \<and> 2 * malicious_num s0 \<le> int k);
          cb = isCommitBroadcasted d s
      in params s = params s0 \<and> isReplySent d s = rep \<and> (\<not> rep \<longrightarrow> commit_count d s = int k) \<and>
        currentRound s = (if rep \<and> Nid s0 = view s0 then 1 else 0) \<and> commits_of d es = (if rep then 1 else 0) \<and>
        casts sid (pbft_msg MsgPrePrepare req 0) es = 0 \<and>
        casts sid (pbft_msg MsgPrepare req 0) es \<le> pp \<and>
        casts sid (pbft_msg MsgCommit req 0) es = (if cb then 1 else 0) \<and>
        (\<forall>n m. Broadcast n m \<in> set es \<longrightarrow> n = sid \<and> m \<in> round_msgs req) \<and>
        (Nid s0 \<noteq> view s0 \<longrightarrow> casts sid (pbft_msg MsgPrepare req 0) es = pp \<and>
           cb = (1 \<le> p \<and> needCnt s0 \<le> int p) \<and> (\<not> cb \<longrightarrow> prep_count d s = int p)))"

lemma params_needCnt: "params s = params s0 \<Longrightarrow> needCnt s = needCnt s0"
  by (simp add: params_def needCnt_def)

lemma node_done_step:
  assumes "node_done req s0 i xs s es" and "m \<in> round_msgs req" and "pbft_handle i now m s = (s', es')"
  shows "node_done req s0 i (xs @ [(now, a, i, m)]) s' (es @ es')"
proof -
  obtain p k cb rep rd where c: "counters (Digest req) s = (p, k, cb, rep, rd)" by (metis prod_cases5)
  then have cs: "p = prep_count (Digest req) s" "k = commit_count (Digest req) s"
    "cb = isCommitBroadcasted (Digest req) s" "rep = isReplySent (Digest req) s" "rd = currentRound s"
    by (auto simp: counters_def)
  have ps: "params s = params s0" using assms(1) by (simp add: node_done_def Let_def)
  then have par: "Nid s = Nid s0" "view s = view s0" "malicious_num s = malicious_num s0" by (simp_all add: params_def)
  note n = params_needCnt [OF ps]
  from assms(2) consider "m = pbft_msg MsgPrePrepare req 0" | "m = pbft_msg MsgPrepare req 0" | "m = pbft_msg MsgCommit req 0"
    by (auto simp: round_msgs_def)
  then show ?thesis
  proof cases
    case 1
    then have m: "m = pbft_msg MsgPrePrepare req 0" .
    obtain s1 where 1: "dispatch SimpleAddon now m s =
        Returns s1 (if currentRound s \<le> 0 then [Broadcast (ShardId req) (pbft_msg MsgPrepare req 0)] else [])"
      "params s1 = params s" "counters (Digest req) s1 = counters (Digest req) s"
      using dispatch_prePrepare_counts [of now req 0 s] 1 by blast
    have out: "s' = s1" "es' = (if rd \<le> 0 then [Broadcast (ShardId req) (pbft_msg MsgPrepare req 0)] else [])"
      using assms(3) 1(1) cs(5) by (simp_all add: pbft_handle_def)
    have new: "prep_count (Digest req) s1 = prep_count (Digest req) s" "commit_count (Digest req) s1 = commit_count (Digest req) s"
      "isCommitBroadcasted (Digest req) s1 = isCommitBroadcasted (Digest req) s"
      "isReplySent (Digest req) s1 = isReplySent (Digest req) s" "currentRound s1 = currentRound s"
      using 1(3) by (simp_all add: counters_def)
    show ?thesis
      using assms(1) m ps 1(2) cs(5) by (auto simp: node_done_def out new round_msgs_def Let_def)
  next
    case 2
    then have m: "m = pbft_msg MsgPrepare req 0" .
    obtain s1 where 1: "dispatch SimpleAddon now m s =
        Returns s1 (if rd \<le> 0 \<and> \<not> cb \<and> needCnt s \<le> p + 1 then [Broadcast (ShardId req) (pbft_msg MsgCommit req 0)] else [])"
      "params s1 = params s"
      "counters (Digest req) s1 = (if rd \<le> 0 \<and> \<not> cb then (p + 1, k, needCnt s \<le> p + 1, rep, rd) else (p, k, cb, rep, rd))"
      using dispatch_prepare_counts [OF c, of now 0] 2 by blast
    have out: "s' = s1" "es' = (if rd \<le> 0 \<and> \<not> cb \<and> needCnt s0 \<le> p + 1
        then [Broadcast (ShardId req) (pbft_msg MsgCommit req 0)] else [])"
      using assms(3) 1(1) n by (simp_all add: pbft_handle_def)
    have new: "prep_count (Digest req) s1 = (if rd \<le> 0 \<and> \<not> cb then p + 1 else p)"
      "isCommitBroadcasted (Digest req) s1 = (cb \<or> rd \<le> 0 \<and> needCnt s0 \<le> p + 1)"
      "commit_count (Digest req) s1 = commit_count (Digest req) s"
      "isReplySent (Digest req) s1 = isReplySent (Digest req) s" "currentRound s1 = currentRound s"
      using 1(3) n cs by (auto simp: counters_def split: if_splits)
    let ?p = "got i (pbft_msg MsgPrepare req 0) xs"
    have old: "Nid s0 \<noteq> view s0 \<Longrightarrow> rd = 0" "Nid s0 \<noteq> view s0 \<Longrightarrow> cb = (1 \<le> ?p \<and> needCnt s0 \<le> int ?p)"
      "Nid s0 \<noteq> view s0 \<Longrightarrow> \<not> cb \<Longrightarrow> p = int ?p"
      using assms(1) cs by (auto simp: node_done_def Let_def)
    show ?thesis
    proof (cases "rd \<le> 0 \<and> \<not> cb \<and> needCnt s0 \<le> p + 1")
      case True
      have "isCommitBroadcasted (Digest req) s = False" using True cs by simp
      with assms(1) m ps 1(2) old True show ?thesis
        by (auto simp: node_done_def out new round_msgs_def Let_def)
    next
      case False
      then have "es' = []" "isCommitBroadcasted (Digest req) s1 = isCommitBroadcasted (Digest req) s"
        using out new(2) cs(3) by auto
      with assms(1) m ps 1(2) old False out(1) new(1,3-) cs(1,3) show ?thesis
        by (auto simp: node_done_def Let_def)
    qed
  next
    case 3
    obtain s1 where 1: "dispatch SimpleAddon now m s =
        Returns s1 (if rd \<le> 0 \<and> \<not> rep \<and> 2 * malicious_num s \<le> k + 1
          then CommitCalled req # (if Nid s = view s then [NotifyDone] else []) else [])"
      "params s1 = params s"
      "counters (Digest req) s1 = (if rd \<le> 0 then (p, k + 1, cb, rep \<or> 2 * malicious_num s \<le> k + 1,
         if \<not> rep \<and> 2 * malicious_num s \<le> k + 1 \<and> Nid s = view s then rd + 1 else rd) else (p, k, cb, rep, rd))"
      using dispatch_commit_counts [OF c, of now 0] 3 by auto
    let ?k = "got i (pbft_msg MsgCommit req 0) xs"
    have old: "rep = (1 \<le> ?k \<and> 2 * malicious_num s0 \<le> int ?k)" "\<not> rep \<Longrightarrow> k = int ?k"
      "rd = (if rep \<and> Nid s0 = view s0 then 1 else 0)"
      using assms(1) cs by (auto simp: node_done_def Let_def)
    have out: "s' = s1" "es' = (if rd \<le> 0 \<and> \<not> rep \<and> 2 * malicious_num s0 \<le> k + 1
        then CommitCalled req # (if Nid s0 = view s0 then [NotifyDone] else []) else [])"
      using assms(3) 1(1) par by (auto simp: pbft_handle_def)
    have new: "prep_count (Digest req) s1 = p" "isCommitBroadcasted (Digest req) s1 = cb"
      "isReplySent (Digest req) s1 = (rep \<or> rd \<le> 0 \<and> 2 * malicious_num s0 \<le> k + 1)"
      "commit_count (Digest req) s1 = (if rd \<le> 0 then k + 1 else k)"
      "currentRound s1 = (if rd \<le> 0 \<and> \<not> rep \<and> 2 * malicious_num s0 \<le> k + 1 \<and> Nid s0 = view s0 then rd + 1 else rd)"
      using 1(3) par by (auto simp: counters_def split: if_splits)
    show ?thesis
    proof (cases rep)
      case True
      with assms(1) 3 ps 1(2) cs old out new show ?thesis by (fastforce simp: node_done_def Let_def)
    next
      case False
      with assms(1) 3 ps 1(2) cs old out new show ?thesis by (auto simp: node_done_def Let_def)
    qed
  qed
qed

lemma node_done_fresh:
  assumes "requestPool s = Map.empty" and "currentRound s = 0"
  shows "node_done req s i [] s []"
  using assms by (simp add: node_done_def isReplySent_def isCommitBroadcasted_def commit_count_def prep_count_def Let_def)

lemma node_done_other: "j \<noteq> i \<Longrightarrow> node_done req s0 i (xs @ [(e, a, j, m)]) s es = node_done req s0 i xs s es"
  by (simp add: node_done_def)

lemma node_done_run:
  assumes "requestPool s0 = Map.empty" and "currentRound s0 = 0"
    and "\<forall>x \<in> set xs. snd (snd (snd x)) \<in> round_msgs req"
  shows "node_done req s0 i xs (fst (local_run pbft_handle i xs s0)) (snd (local_run pbft_handle i xs s0))"
  using assms(3)
proof (induction xs rule: rev_induct)
  case Nil
  then show ?case using node_done_fresh [OF assms(1,2)] by simp
next
  case (snoc x xs)
  obtain e a j m where x: "x = (e, a, j, m)" by (cases x)
  obtain s es where r: "local_run pbft_handle i xs s0 = (s, es)" by fastforce
  have IH: "node_done req s0 i xs s es" using snoc r by simp
  show ?case
  proof (cases "j = i")
    case True
    obtain s' es' where h: "pbft_handle i e m s = (s', es')" by fastforce
    have "m \<in> round_msgs req" using snoc.prems x by simp
    from node_done_step [OF IH this h] show ?thesis
      using True by (simp add: local_run_append r x h)
  next
    case False
    with IH show ?thesis by (simp add: local_run_append r x node_done_other)
  qed
qed

lemma pbft_handle_round:
  assumes "m \<in> round_msgs req" and "pbft_handle i now m s = (s', es)"
  shows "\<forall>k m'. Broadcast k m' \<in> set es \<longrightarrow> m' \<in> round_msgs req"
proof -
  obtain p k cb rep rd where c: "counters (Digest req) s = (p, k, cb, rep, rd)" by (metis prod_cases5)
  from assms(1) consider "m = pbft_msg MsgPrePrepare req 0" | "m = pbft_msg MsgPrepare req 0" | "m = pbft_msg MsgCommit req 0"
    by (auto simp: round_msgs_def)
  then show ?thesis
  proof cases
    case 1
    with dispatch_prePrepare_counts [of now req 0 s] assms(2) show ?thesis
      by (auto simp: pbft_handle_def round_msgs_def split: if_splits)
  next
    case 2
    with dispatch_prepare_counts [OF c, of now 0] assms(2) show ?thesis
      by (auto simp: pbft_handle_def round_msgs_def split: if_splits)
  next
    case 3
    with dispatch_commit_counts [OF c, of now 0] assms(2) show ?thesis
      by (auto simp: pbft_handle_def round_msgs_def split: if_splits)
  qed
qed

interpretation pbft_round_net: local_invariant pbft_handle "\<lambda>i s. True" "\<lambda>m. m \<in> round_msgs req" for req
  by unfold_locales (use pbft_handle_round in blast)

section \<open>A round of the shard\<close>

text \<open>
  The view node has broadcast the pre-prepare message of round 0 and started the goroutine that
  handles it on the view node itself.
\<close>

definition pbft_round :: "config \<Rightarrow> request \<Rightarrow> (int \<Rightarrow> unit pbft) \<Rightarrow> (time, unit pbft) net" where
  "pbft_round c req ns =
     net_start ns (map (\<lambda>j. (ViewNodeId c, j, pbft_msg MsgPrePrepare req 0)) [0..NodeNum c - 1])"

definition pbft_net_run ::
  "config \<Rightarrow> request \<Rightarrow> (int \<Rightarrow> unit pbft) \<Rightarrow> (nat \<times> time) list \<Rightarrow> (time, unit pbft) net" where
  "pbft_net_run c req ns xs = net_run pbft_handle (ShardId req) [0..NodeNum c - 1] xs (pbft_round c req ns)"

definition honest_nodes :: "config \<Rightarrow> int \<Rightarrow> (int \<Rightarrow> string) \<Rightarrow> (int \<Rightarrow> unit pbft) \<Rightarrow> bool" where
  "honest_nodes c sid ip ns \<longleftrightarrow>
     (\<forall>i. NewPbftCosensusMod c i sid (ip i) (\<lambda>k. ()) = Inr (ns i)) \<and> ViewNodeId c \<in> {0..<NodeNum c}"

lemma pbft_net_facts:
  assumes "honest_nodes c sid ip ns" and "g = pbft_net_run c req ns xs"
  shows "net_inv pbft_handle (ShardId req) [0..NodeNum c - 1] ns
      (map (\<lambda>j. (ViewNodeId c, j, pbft_msg MsgPrePrepare req 0)) [0..NodeNum c - 1]) g"
    and "receivers_in (set [0..NodeNum c - 1]) g"
    and "node_done req (ns i) i (served g) (nodes g i) (effects_of i (net_log g))"
proof -
  let ?ps = "map (\<lambda>j. (ViewNodeId c, j, pbft_msg MsgPrePrepare req 0)) [0..NodeNum c - 1]"
  show inv: "net_inv pbft_handle (ShardId req) [0..NodeNum c - 1] ns ?ps g"
    unfolding assms(2) pbft_net_run_def pbft_round_def by (rule net_inv_reached)
  show "receivers_in (set [0..NodeNum c - 1]) g"
    unfolding assms(2) pbft_net_run_def
    by (rule receivers_run) (auto simp: receivers_in_def pbft_round_def net_start_def)
  have "pbft_round_net.ok_net req (pbft_round c req ns)"
    unfolding pbft_round_def by (rule pbft_round_net.ok_net_start) (auto simp: round_msgs_def)
  then have "pbft_round_net.ok_net req g" unfolding assms(2) pbft_net_run_def by (rule pbft_round_net.ok_net_run)
  then have ok: "\<forall>x \<in> set (served g). snd (snd (snd x)) \<in> round_msgs req"
    by (auto simp: pbft_round_net.ok_net_def)
  have "0 < NodeNum c" using assms(1) by (auto simp: honest_nodes_def)
  then have "requestPool (ns i) = Map.empty" "currentRound (ns i) = 0"
    using malicious_num_bound(5,6) [of c i sid "ip i" "\<lambda>k. ()" "ns i"] assms(1) by (auto simp: honest_nodes_def)
  from node_done_run [OF this ok, of i] inv show "node_done req (ns i) i (served g) (nodes g i) (effects_of i (net_log g))"
    by (simp add: net_inv_def)
qed

lemma bcasts_round:
  assumes "\<forall>n m. Broadcast n m \<in> set es \<longrightarrow> n = ShardId req \<and> m \<in> round_msgs req"
  shows "bcasts (ShardId req) es = casts (ShardId req) (pbft_msg MsgPrePrepare req 0) es +
    casts (ShardId req) (pbft_msg MsgPrepare req 0) es + casts (ShardId req) (pbft_msg MsgCommit req 0) es"
  using assms
proof (induction es)
  case (Cons ef es)
  then have "bcasts (ShardId req) es = casts (ShardId req) (pbft_msg MsgPrePrepare req 0) es +
    casts (ShardId req) (pbft_msg MsgPrepare req 0) es + casts (ShardId req) (pbft_msg MsgCommit req 0) es" by simp
  moreover have "m \<in> round_msgs req" if "ef = Broadcast (ShardId req) m" for m using Cons.prems that by simp
  ultimately show ?case by (cases ef) (auto simp: bcasts_def round_msgs_def)
qed (simp add: bcasts_def)

lemma sent_to_prePrepares:
  "sent_to i m (map (\<lambda>j. (v, j, m')) ids) = (if m' = m then length (filter (\<lambda>j. j = i) ids) else 0)"
  by (induction ids) auto

lemma upto_ids:
  "set [0..n - 1] = {0..<n}" "distinct [0..n - 1]" "length [0..n - (1::int)] = nat n"
  "length (filter (\<lambda>j. j = i) [0..n - 1]) = (if i \<in> {0..<n} then 1 else 0)"
proof -
  show s: "set [0..n - 1] = {0..<n}" by auto
  show d: "distinct [0..n - 1]" by simp
  show "length [0..n - (1::int)] = nat n" by simp
  show "length (filter (\<lambda>j. j = i) [0..n - 1]) = (if i \<in> {0..<n} then 1 else 0)"
  proof (cases "i \<in> {0..<n}")
    case True
    then have "i \<in> set [0..n - 1]" by simp
    with d have "length (filter (\<lambda>j. j = i) [0..n - 1]) = 1"
      by (induction "[0..n - 1]") (simp_all add: distinct_length_filter Int_absorb1)
    with True show ?thesis by simp
  qed (auto simp: filter_empty_conv)
qed

lemma prePrepares_got:
  assumes "honest_nodes c sid ip ns" and "g = pbft_net_run c req ns xs" and "i \<in> {0..<NodeNum c}"
  shows "got i (pbft_msg MsgPrePrepare req 0) (served g) \<le> 1"
    and "at_rest g \<Longrightarrow> got i (pbft_msg MsgPrePrepare req 0) (served g) = 1"
proof -
  note f = pbft_net_facts [OF assms(1,2)]
  have "casts (ShardId req) (pbft_msg MsgPrePrepare req 0) (effects_of j (net_log g)) = 0" for j
    using f(3) by (simp add: node_done_def Let_def)
  moreover have "fst ` set (net_log g) \<subseteq> set [0..NodeNum c - 1]" using f(2) by (simp add: receivers_in_def)
  ultimately have "sent_to i (pbft_msg MsgPrePrepare req 0) (outgoing (ShardId req) [0..NodeNum c - 1] (net_log g)) = 0"
    using sent_to_outgoing [OF upto_ids(2), of i "NodeNum c" "net_log g" "pbft_msg MsgPrePrepare req 0" "ShardId req"] assms(3)
    by simp
  with got_le_sent [OF f(1), of i "pbft_msg MsgPrePrepare req 0"] assms(3)
  have e: "got i (pbft_msg MsgPrePrepare req 0) (served g) + sent_to i (pbft_msg MsgPrePrepare req 0) (packets g) = 1"
    by (simp add: sent_to_prePrepares upto_ids(4))
  then show "got i (pbft_msg MsgPrePrepare req 0) (served g) \<le> 1" by simp
  show "got i (pbft_msg MsgPrePrepare req 0) (served g) = 1" if "at_rest g" using e that by (simp add: at_rest_def)
qed

lemma others_sum:
  fixes h :: "int \<Rightarrow> nat"
  assumes "\<And>j. j \<in> {0..<n} \<Longrightarrow> j \<noteq> v \<Longrightarrow> 1 \<le> h j" and "i \<in> {0..<n}" and "v \<in> {0..<n}"
  shows "n - 2 \<le> int (\<Sum>j \<in> {0..<n} - {i}. h j)"
proof -
  have "n - 2 \<le> int (card ({0..<n} - {i, v}))"
    using assms(2,3) by (cases "i = v") (simp_all add: card_Diff_subset)
  also have "card ({0..<n} - {i, v}) = (\<Sum>j \<in> {0..<n} - {i, v}. 1)" by simp
  also have "\<dots> \<le> (\<Sum>j \<in> {0..<n} - {i, v}. h j)" by (rule sum_mono) (use assms(1) in auto)
  also have "\<dots> \<le> (\<Sum>j \<in> {0..<n} - {i}. h j)" by (rule sum_mono2) auto
  finally show ?thesis by simp
qed

lemma round_at_rest:
  assumes "honest_nodes c sid ip ns" and "3 \<le> NodeNum c" and "g = pbft_net_run c req ns xs" and "at_rest g"
    and "i \<in> {0..<NodeNum c}"
  shows "commits_of (Digest req) (effects_of i (net_log g)) = 1 \<and> isReplySent (Digest req) (nodes g i)"
proof -
  note f = pbft_net_facts [OF assms(1,3)]
  let ?n = "NodeNum c" and ?v = "ViewNodeId c" and ?sid = "ShardId req"
  let ?P = "pbft_msg MsgPrepare req 0" and ?C = "pbft_msg MsgCommit req 0"
  have v: "?v \<in> {0..<?n}" using assms(1) by (simp add: honest_nodes_def)
  have node: "0 \<le> malicious_num (ns j)" "3 * malicious_num (ns j) + 1 \<le> ?n" "Nid (ns j) = j" "view (ns j) = ?v" for j
    using malicious_num_bound [of c j sid "ip j" "\<lambda>k. ()" "ns j"] assms(1,2) by (auto simp: honest_nodes_def)
  have got: "got j m (served g) = (\<Sum>k \<in> {0..<?n} - {j}. casts ?sid m (effects_of k (net_log g)))"
    if "j \<in> {0..<?n}" "m \<in> {?P, ?C}" for j m
    using at_rest_got [OF f(1,2) assms(4) upto_ids(2), unfolded upto_ids(1), of j m] that
    by (auto simp: sent_to_prePrepares)
  have P: "casts ?sid ?P (effects_of j (net_log g)) = 1" if "j \<in> {0..<?n}" "j \<noteq> ?v" for j
    using f(3) [of j] prePrepares_got(2) [OF assms(1,3) that(1) assms(4)] node(3,4) that(2)
    by (simp add: node_done_def Let_def)
  have C: "casts ?sid ?C (effects_of j (net_log g)) = 1" if j: "j \<in> {0..<?n}" "j \<noteq> ?v" for j
  proof -
    have "?n - 2 \<le> int (got j ?P (served g))"
      unfolding got [OF j(1) insertI1] by (rule others_sum [OF _ j(1) v]) (simp add: P)
    moreover have "needCnt (ns j) = 2 * malicious_num (ns j) - 1" using node(3,4) j(2) by (simp add: needCnt_def)
    ultimately have "1 \<le> got j ?P (served g) \<and> needCnt (ns j) \<le> int (got j ?P (served g))"
      using node(1,2) [of j] assms(2) by linarith
    with f(3) [of j] node(3,4) j(2) show ?thesis by (simp add: node_done_def Let_def)
  qed
  have "?n - 2 \<le> int (got i ?C (served g))"
    unfolding got [OF assms(5) insertI2 [OF insertI1]] by (rule others_sum [OF _ assms(5) v]) (simp add: C)
  then have "1 \<le> got i ?C (served g) \<and> 2 * malicious_num (ns i) \<le> int (got i ?C (served g))"
    using node(1,2) [of i] assms(2) by linarith
  with f(3) [of i] show ?thesis by (simp add: node_done_def Let_def)
qed

lemma round_deliveries:
  assumes "honest_nodes c sid ip ns" and "g = pbft_net_run c req ns xs"
  shows "length (served g) \<le> nat (NodeNum c) + (nat (NodeNum c) - 1) * (2 * nat (NodeNum c))"
proof -
  note f = pbft_net_facts [OF assms]
  let ?n = "NodeNum c" and ?sid = "ShardId req"
  have "bcasts ?sid (effects_of i (net_log g)) \<le> 2" if "i \<in> {0..<?n}" for i
  proof -
    have "\<forall>n m. Broadcast n m \<in> set (effects_of i (net_log g)) \<longrightarrow> n = ?sid \<and> m \<in> round_msgs req"
      using f(3) [of i] by (simp add: node_done_def Let_def)
    from bcasts_round [OF this] f(3) [of i] prePrepares_got(1) [OF assms that] show ?thesis
      by (auto simp: node_done_def Let_def split: if_splits)
  qed
  then have "(\<Sum>i \<in> {0..<?n}. bcasts ?sid (effects_of i (net_log g))) \<le> (\<Sum>i \<in> {0..<?n}. 2)" by (intro sum_mono) auto
  then have "(\<Sum>i \<in> {0..<?n}. bcasts ?sid (effects_of i (net_log g))) \<le> 2 * nat ?n" by simp
  moreover have "fst ` set (net_log g) \<subseteq> set [0..?n - 1]" using f(2) by (simp add: receivers_in_def)
  ultimately have "length (outgoing ?sid [0..?n - 1] (net_log g)) \<le> (nat ?n - 1) * (2 * nat ?n)"
    using length_outgoing [OF upto_ids(2), of "net_log g" ?n ?sid] unfolding upto_ids(1,3) by (simp add: mult_le_mono2)
  with served_bound [OF f(1)] show ?thesis by (simp add: upto_ids(3))
qed

text \<open>
  A round of PBFT completes in an honest shard of three or more nodes under every order of
  delivery: after at most \<open>n + 2n(n - 1)\<close> deliveries nothing is left in flight, and once nothing is, every
  node has committed the request exactly once, and the view node has gone on to the next round.
\<close>

theorem pbft_shard_completes:
  assumes "honest_nodes c sid ip ns" and "3 \<le> NodeNum c" and "g = pbft_net_run c req ns xs"
  shows "length (served g) \<le> nat (NodeNum c) + (nat (NodeNum c) - 1) * (2 * nat (NodeNum c)) \<and>
    (at_rest g \<longrightarrow> (\<forall>i \<in> {0..<NodeNum c}. commits_of (Digest req) (effects_of i (net_log g)) = 1) \<and>
       currentRound (nodes g (ViewNodeId c)) = 1)"
proof -
  have v: "ViewNodeId c \<in> {0..<NodeNum c}" using assms(1) by (simp add: honest_nodes_def)
  have "Nid (ns (ViewNodeId c)) = view (ns (ViewNodeId c))"
    using malicious_num_bound(7,8) [of c "ViewNodeId c" sid "ip (ViewNodeId c)" "\<lambda>k. ()" "ns (ViewNodeId c)"] assms(1,2)
    by (auto simp: honest_nodes_def)
  then have "currentRound (nodes g (ViewNodeId c)) = 1" if "at_rest g"
    using round_at_rest [OF assms that v] pbft_net_facts(3) [OF assms(1,3), of "ViewNodeId c"]
    by (auto simp: node_done_def Let_def)
  with round_at_rest [OF assms] round_deliveries [OF assms(1,3)] show ?thesis by blast
qed


section \<open>Concrete shards\<close>

definition fresh_shard :: "int \<Rightarrow> int \<Rightarrow> unit pbft" where
  "fresh_shard n i = \<lparr>Nid = i, Sid = 0, Ipaddr = ''n'', view = 0, pbft_num = n, malicious_num = (n - 1) sdiv 3,
     requestQueue = NewQueue, requestPool = Map.empty, currentRound = 0, addonState = ()\<rparr>"

lemma fresh_shard_honest: "0 < n \<Longrightarrow> honest_nodes (shard_cfg n) 0 (\<lambda>i. ''n'') (fresh_shard n)"
  by (simp add: honest_nodes_def NewPbftCosensusMod_def shard_cfg_def NewPbftAddon_def example_config_def fresh_shard_def)

text \<open>
  With two nodes the round can fail: if the other node's commit message overtakes its prepare
  message, the view node commits, drops the prepare message as belonging to a past round and never
  sends its own commit message, and the other node never commits.  Here is such an order.
\<close>

theorem two_nodes_may_stall:
  "let g = pbft_net_run (shard_cfg 2) (example_req ''A'') (fresh_shard 2) [(1, 0), (0, 0), (1, 0), (1, 0), (0, 0)] in
     at_rest g \<and> commits_of ''A'' (effects_of 0 (net_log g)) = 1 \<and> commits_of ''A'' (effects_of 1 (net_log g)) = 0"
  by code_simp

definition four_nodes_run :: "(time, unit pbft) net" where
  "four_nodes_run = pbft_net_run (shard_cfg 4) (example_req ''A'') (fresh_shard 4) (replicate 28 (0, 0))"

theorem pbft_shard_completes_witness:
  "at_rest four_nodes_run \<and> commits_of ''A'' (effects_of 3 (net_log four_nodes_run)) = 1"
proof -
  have r: "at_rest four_nodes_run" by code_simp
  have n: "NodeNum (shard_cfg 4) = 4" "(3::int) \<le> 4" by (simp_all add: shard_cfg_def)
  have "honest_nodes (shard_cfg 4) 0 (\<lambda>i. ''n'') (fresh_shard 4)" by (rule fresh_shard_honest) simp
  from pbft_shard_completes [OF this _ four_nodes_run_def] r n show ?thesis
    by (auto simp: example_req_def)
qed


end
