(* ===== verification/PBFT_Log.thy ===== *)
theory PBFT_Log
  imports PBFT_Shard
begin

text \<open>
  An honest PBFT shard over many rounds.  Requests are proposed to the view node at any time; its loop takes the next
  one when it has been notified of the last, while messages of earlier rounds may still be in flight and overtake those
  of later ones.  The loop is taken to wait whenever it is notified (theory PBFT_Run shows what happens otherwise).
\<close>

section \<open>One handler, all requests\<close>

text \<open>What a node keeps about the request with digest \<open>d\<close>.\<close>

definition view4 :: "bytes \<Rightarrow> 'ad pbft \<Rightarrow> int \<times> int \<times> bool \<times> bool" where
  "view4 d s = (prep_count d s, commit_count d s, isCommitBroadcasted d s, isReplySent d s)"

text \<open>A handler of a message about \<open>req\<close> leaves the other requests, the queue and the parameters alone.\<close>

definition only_about :: "request \<Rightarrow> 'ad pbft \<Rightarrow> 'ad pbft \<Rightarrow> bool" where
  "only_about req s s' \<longleftrightarrow> params s' = params s \<and> requestQueue s' = requestQueue s \<and> (\<forall>d. d \<noteq> Digest req \<longrightarrow> view4 d s' = view4 d s)"

lemmas view4_defs = view4_def prep_count_def commit_count_def pool_defs getCurrentRound_def needCnt_pool IncCurrentRound_def
  only_about_def params_def

lemma handle_prePrepare:
  assumes "pbft_handle i now (pbft_msg MsgPrePrepare req r) s = (s', es)"
  shows "only_about req s s' \<and> currentRound s' = currentRound s \<and> view4 (Digest req) s' = view4 (Digest req) s \<and>
    es = (if currentRound s \<le> r then [Broadcast (ShardId req) (pbft_msg MsgPrepare req r)] else [])"
  using assms
  by (cases "requestPool s (Digest req)"; cases "currentRound s \<le> r")
    (auto simp: pbft_handle_def dispatch_def pbft_handler_def pbft_msg_def handlePrePrepare_def view4_defs)

lemma handle_prepare:
  assumes "pbft_handle i now (pbft_msg MsgPrepare req r) s = (s', es)" and "view4 (Digest req) s = (p, k, cb, rep)"
  shows "only_about req s s' \<and> currentRound s' = currentRound s \<and>
    view4 (Digest req) s' = (if currentRound s \<le> r \<and> \<not> cb then (p + 1, k, needCnt s \<le> p + 1, rep) else (p, k, cb, rep)) \<and>
    es = (if currentRound s \<le> r \<and> \<not> cb \<and> needCnt s \<le> p + 1 then [Broadcast (ShardId req) (pbft_msg MsgCommit req r)] else [])"
  using assms
  by (cases "requestPool s (Digest req)"; cases "currentRound s \<le> r"; cases cb; cases "needCnt s \<le> p + 1")
    (auto simp: pbft_handle_def dispatch_def pbft_handler_def pbft_msg_def handlePrepare_def view4_defs)

lemma handle_commit:
  assumes "pbft_handle i now (pbft_msg MsgCommit req r) s = (s', es)" and "view4 (Digest req) s = (p, k, cb, rep)"
  shows "only_about req s s' \<and>
    (let new = currentRound s \<le> r \<and> \<not> rep \<and> 2 * malicious_num s \<le> k + 1 in
     view4 (Digest req) s' = (if currentRound s \<le> r then (p, k + 1, cb, rep \<or> new) else (p, k, cb, rep)) \<and>
     currentRound s' = (if new \<and> Nid s = view s then currentRound s + 1 else currentRound s) \<and>
     es = (if new then CommitCalled req # (if Nid s = view s then [NotifyDone] else []) else []))"
  using assms
  by (cases "requestPool s (Digest req)"; cases "currentRound s \<le> r"; cases rep; cases "2 * malicious_num s \<le> k + 1"; cases "Nid s = view s")
    (auto simp: pbft_handle_def dispatch_def pbft_handler_def pbft_msg_def handleCommit_def view4_defs bindO_def)

text \<open>What proposing a request does to the view node.\<close>

definition propose_msg :: "request \<Rightarrow> message" where
  "propose_msg req = \<lparr>MsgType = MsgPropose, msg_Content = PRequest req\<rparr>"

lemma handle_propose:
  assumes "pbft_handle i now (propose_msg req) s = (s', es)" and "view4 (Digest req) s = (0, 0, False, False)"
  shows "params s' = params s \<and> currentRound s' = currentRound s \<and> items (requestQueue s') = items (requestQueue s) @ [req] \<and>
    (\<forall>d. view4 d s' = view4 d s) \<and> es = []"
  using assms
  by (cases "requestPool s (Digest req)")
    (auto simp: pbft_handle_def dispatch_def pbft_handler_def propose_msg_def handlePropose_def view4_defs NewRequestInfo_def
      Enqueue_def Let_def split: if_splits)

section \<open>One round at one node\<close>

definition msgs_of :: "request \<Rightarrow> int \<Rightarrow> message set" where
  "msgs_of req r = {pbft_msg MsgPrePrepare req r, pbft_msg MsgPrepare req r, pbft_msg MsgCommit req r}"

lemma pbft_msg_round [simp]: "pbft_msg t req r = pbft_msg t' req' r' \<longleftrightarrow> t = t' \<and> req = req' \<and> r = r'"
  by (auto simp: pbft_msg_def)

definition committed :: "effect list \<Rightarrow> request list" where
  "committed es = concat (map (\<lambda>e. case e of CommitCalled req \<Rightarrow> [req] | _ \<Rightarrow> []) es)"

definition notified :: "effect list \<Rightarrow> nat" where
  "notified es = length (filter (\<lambda>e. e = NotifyDone) es)"

lemma committed_simps [simp]:
  "committed [] = []" "committed (es @ es') = committed es @ committed es'"
  "committed (CommitCalled req # es) = req # committed es" "committed (Broadcast n m # es) = committed es"
  "committed (NotifyDone # es) = committed es"
  by (simp_all add: committed_def)

lemma notified_simps [simp]:
  "notified [] = 0" "notified (es @ es') = notified es + notified es'"
  "notified (CommitCalled req # es) = notified es" "notified (Broadcast n m # es) = notified es"
  "notified (NotifyDone # es) = Suc (notified es)"
  by (simp_all add: notified_def)

text \<open>
  As \<open>node_done\<close> for one round among many: what the node has done about the request of round \<open>r\<close> after the deliveries \<open>xs\<close>.
\<close>

definition round_done :: "request \<Rightarrow> int \<Rightarrow> unit pbft \<Rightarrow> int \<Rightarrow> (time \<times> packet) list \<Rightarrow> unit pbft \<Rightarrow> effect list \<Rightarrow> bool" where
  "round_done req r s0 i xs s es \<longleftrightarrow>
     (let pp = got i (pbft_msg MsgPrePrepare req r) xs; p = got i (pbft_msg MsgPrepare req r) xs;
          k = got i (pbft_msg MsgCommit req r) xs; d = Digest req; sid = ShardId req;
          rep = (1 \<le> k \<and> 2 * malicious_num s0 \<le> int k); cb = isCommitBroadcasted d s
      in isReplySent d s = rep \<and> (\<not> rep \<longrightarrow> commit_count d s = int k) \<and>
        casts sid (pbft_msg MsgPrePrepare req r) es = 0 \<and> casts sid (pbft_msg MsgPrepare req r) es \<le> pp \<and>
        casts sid (pbft_msg MsgCommit req r) es = (if cb then 1 else 0) \<and>
        (Nid s0 \<noteq> view s0 \<longrightarrow> casts sid (pbft_msg MsgPrepare req r) es = pp \<and>
           cb = (1 \<le> p \<and> needCnt s0 \<le> int p) \<and> (\<not> cb \<longrightarrow> prep_count d s = int p)))"

text \<open>The other effects of one delivery.\<close>

definition delivery_ok :: "request \<Rightarrow> int \<Rightarrow> unit pbft \<Rightarrow> unit pbft \<Rightarrow> unit pbft \<Rightarrow> effect list \<Rightarrow> bool" where
  "delivery_ok req r s0 s s' es \<longleftrightarrow>
     only_about req s s' \<and> (\<forall>n m. Broadcast n m \<in> set es \<longrightarrow> n = ShardId req \<and> m \<in> msgs_of req r) \<and>
     (isReplySent (Digest req) s \<longrightarrow> isReplySent (Digest req) s') \<and>
     (let new = isReplySent (Digest req) s' \<and> \<not> isReplySent (Digest req) s in
      committed es = (if new then [req] else []) \<and> notified es = (if new \<and> Nid s0 = view s0 then 1 else 0) \<and>
      currentRound s' = (if new \<and> Nid s0 = view s0 then currentRound s + 1 else currentRound s) \<and>
      (new \<longrightarrow> currentRound s \<le> r))"

lemma round_done_step:
  assumes "round_done req r s0 i xs s es" and "params s = params s0" and "m \<in> msgs_of req r"
    and "currentRound s \<le> r \<longleftrightarrow> \<not> (isReplySent (Digest req) s \<and> Nid s0 = view s0)"
    and "pbft_handle i now m s = (s', es')"
  shows "round_done req r s0 i (xs @ [(now, a, i, m)]) s' (es @ es') \<and> delivery_ok req r s0 s s' es'"
proof -
  obtain p k cb rep where v: "view4 (Digest req) s = (p, k, cb, rep)" by (metis prod_cases4)
  then have vs: "prep_count (Digest req) s = p" "commit_count (Digest req) s = k" "isCommitBroadcasted (Digest req) s = cb"
    "isReplySent (Digest req) s = rep" by (auto simp: view4_def)
  have par: "Nid s = Nid s0" "view s = view s0" "malicious_num s = malicious_num s0" "needCnt s = needCnt s0"
    using assms(2) by (simp_all add: params_def needCnt_def)
  from assms(3) consider "m = pbft_msg MsgPrePrepare req r" | "m = pbft_msg MsgPrepare req r" | "m = pbft_msg MsgCommit req r"
    by (auto simp: msgs_of_def)
  then show ?thesis
  proof cases
    case 1
    with handle_prePrepare [of i now req r s s' es'] assms(5) have h: "only_about req s s'" "currentRound s' = currentRound s"
      "view4 (Digest req) s' = view4 (Digest req) s"
      "es' = (if currentRound s \<le> r then [Broadcast (ShardId req) (pbft_msg MsgPrepare req r)] else [])" by auto
    have new: "prep_count (Digest req) s' = p" "commit_count (Digest req) s' = k" "isCommitBroadcasted (Digest req) s' = cb"
      "isReplySent (Digest req) s' = rep" using h(3) v by (auto simp: view4_def)
    have "delivery_ok req r s0 s s' es'" using h(1,2,4) new(4) vs(4) by (auto simp: delivery_ok_def msgs_of_def Let_def)
    moreover have "round_done req r s0 i (xs @ [(now, a, i, m)]) s' (es @ es')"
      using assms(1,4) 1 h(4) new vs by (auto simp: round_done_def Let_def)
    ultimately show ?thesis by blast
  next
    case 2
    with handle_prepare [OF _ v, of i now r s' es'] assms(5) par(4) have h: "only_about req s s'" "currentRound s' = currentRound s"
      "view4 (Digest req) s' = (if currentRound s \<le> r \<and> \<not> cb then (p + 1, k, needCnt s0 \<le> p + 1, rep) else (p, k, cb, rep))"
      "es' = (if currentRound s \<le> r \<and> \<not> cb \<and> needCnt s0 \<le> p + 1 then [Broadcast (ShardId req) (pbft_msg MsgCommit req r)] else [])"
      by auto
    have new: "prep_count (Digest req) s' = (if currentRound s \<le> r \<and> \<not> cb then p + 1 else p)" "commit_count (Digest req) s' = k"
      "isCommitBroadcasted (Digest req) s' = (cb \<or> currentRound s \<le> r \<and> needCnt s0 \<le> p + 1)"
      "isReplySent (Digest req) s' = rep" using h(3) by (auto simp: view4_def split: if_splits)
    have "delivery_ok req r s0 s s' es'" using h(1,2,4) new(4) vs(4) by (auto simp: delivery_ok_def msgs_of_def Let_def)
    moreover have "round_done req r s0 i (xs @ [(now, a, i, m)]) s' (es @ es')"
    proof (cases "currentRound s \<le> r \<and> \<not> cb \<and> needCnt s0 \<le> p + 1")
      case True
      with assms(1,4) 2 h(4) new vs show ?thesis by (auto simp: round_done_def Let_def)
    next
      case False
      then have "es' = []" "isCommitBroadcasted (Digest req) s' = cb" using h(4) new(3) by auto
      with assms(1,4) 2 False new(1,2,4) vs show ?thesis by (cases cb) (auto simp: round_done_def Let_def)
    qed
    ultimately show ?thesis by blast
  next
    case 3
    let ?n = "currentRound s \<le> r \<and> \<not> rep \<and> 2 * malicious_num s0 \<le> k + 1"
    from 3 handle_commit [OF _ v, of i now r s' es'] assms(5) par have h: "only_about req s s'"
      "view4 (Digest req) s' = (if currentRound s \<le> r then (p, k + 1, cb, rep \<or> ?n) else (p, k, cb, rep))"
      "currentRound s' = (if ?n \<and> Nid s0 = view s0 then currentRound s + 1 else currentRound s)"
      "es' = (if ?n then CommitCalled req # (if Nid s0 = view s0 then [NotifyDone] else []) else [])"
      by (auto simp: Let_def)
    have new: "prep_count (Digest req) s' = p" "commit_count (Digest req) s' = (if currentRound s \<le> r then k + 1 else k)"
      "isCommitBroadcasted (Digest req) s' = cb" "isReplySent (Digest req) s' = (rep \<or> ?n)"
      using h(2) by (auto simp: view4_def split: if_splits)
    have "delivery_ok req r s0 s s' es'" using h(1,3,4) new(4) vs(4) by (auto simp: delivery_ok_def Let_def)
    moreover have "round_done req r s0 i (xs @ [(now, a, i, m)]) s' (es @ es')"
      using assms(1,4) 3 h(4) new vs by (cases rep) (auto simp: round_done_def Let_def)
    ultimately show ?thesis by blast
  qed
qed

text \<open>A delivery about one request does not touch what the node has done about another.\<close>

lemma round_done_frame:
  assumes "round_done req' r' s0 i xs s es" and "delivery_ok req r s0 s s' es'" and "Digest req' \<noteq> Digest req" and "m \<in> msgs_of req r"
  shows "round_done req' r' s0 i (xs @ [(now, a, j, m)]) s' (es @ es')"
proof -
  have "req' \<noteq> req" using assms(3) by auto
  then have other: "pbft_msg t req' r' \<notin> msgs_of req r" for t by (auto simp: msgs_of_def)
  then have "Broadcast (ShardId req') (pbft_msg t req' r') \<notin> set es'" for t
    using assms(2) unfolding delivery_ok_def by blast
  then have "m \<noteq> pbft_msg t req' r'" "casts (ShardId req') (pbft_msg t req' r') es' = 0" for t
    using other assms(4) by (auto simp: casts_def filter_empty_conv)
  moreover have "view4 (Digest req') s' = view4 (Digest req') s" using assms(2,3) by (auto simp: delivery_ok_def only_about_def)
  ultimately show ?thesis using assms(1) by (simp add: round_done_def view4_def Let_def)
qed

lemma round_done_other: "j \<noteq> i \<Longrightarrow> round_done req r s0 i (xs @ [(e, a, j, m)]) s es = round_done req r s0 i xs s es"
  by (simp add: round_done_def)

section \<open>A node over many rounds\<close>

text \<open>\<open>S\<close> are the requests of the rounds that have begun, in order.\<close>

definition node_ok :: "request list \<Rightarrow> unit pbft \<Rightarrow> (time \<times> packet) list \<Rightarrow> int \<Rightarrow> unit pbft \<Rightarrow> effect list \<Rightarrow> bool" where
  "node_ok S s0 xs i s es \<longleftrightarrow>
     params s = params s0 \<and> (\<forall>r < length S. round_done (S ! r) (int r) s0 i xs s es) \<and>
     (\<forall>d. d \<notin> Digest ` set S \<longrightarrow> view4 d s = (0, 0, False, False)) \<and>
     distinct (committed es) \<and> set (committed es) = {req \<in> set S. isReplySent (Digest req) s} \<and>
     (if Nid s0 = view s0
      then currentRound s = int (notified es) \<and> notified es \<le> length S \<and> length S \<le> Suc (notified es) \<and>
        (\<forall>r < length S. isReplySent (Digest (S ! r)) s \<longleftrightarrow> r < notified es) \<and> committed es = take (notified es) S
      else currentRound s = 0)"

lemma node_ok_start:
  assumes "requestPool s = Map.empty" and "currentRound s = 0"
  shows "node_ok [] s [] i s []"
  using assms by (simp add: node_ok_def view4_def prep_count_def commit_count_def isCommitBroadcasted_def isReplySent_def)

lemma other_digest:
  "distinct (map Digest S) \<Longrightarrow> r < length S \<Longrightarrow> r' < length S \<Longrightarrow> r' \<noteq> r \<Longrightarrow> Digest (S ! r') \<noteq> Digest (S ! r)"
  by (metis distinct_conv_nth length_map nth_map)

lemma node_ok_deliver:
  assumes "node_ok S s0 xs i s es" and "distinct (map Digest S)" and "r < length S" and "m \<in> msgs_of (S ! r) (int r)"
    and "pbft_handle i now m s = (s', es')"
  shows "node_ok S s0 (xs @ [(now, a, i, m)]) i s' (es @ es') \<and> delivery_ok (S ! r) (int r) s0 s s' es'"
proof -
  let ?d = "Digest (S ! r)"
  note n = assms(1) [unfolded node_ok_def]
  have "currentRound s \<le> int r \<longleftrightarrow> \<not> (isReplySent ?d s \<and> Nid s0 = view s0)" using n assms(3) by (auto split: if_splits)
  with round_done_step [OF _ _ assms(4) _ assms(5)] n assms(3)
  have r: "round_done (S ! r) (int r) s0 i (xs @ [(now, a, i, m)]) s' (es @ es')" and d: "delivery_ok (S ! r) (int r) s0 s s' es'"
    by blast+
  have rounds: "round_done (S ! r') (int r') s0 i (xs @ [(now, a, i, m)]) s' (es @ es')" if "r' < length S" for r'
  proof (cases "r' = r")
    case False
    with round_done_frame [OF _ d other_digest [OF assms(2,3) that] assms(4)] n that show ?thesis by blast
  qed (use r in simp)
  have about: "params s' = params s" "\<And>d. d \<noteq> ?d \<Longrightarrow> view4 d s' = view4 d s" using d by (auto simp: delivery_ok_def only_about_def)
  have reps: "isReplySent d s' = isReplySent d s" if "d \<noteq> ?d" for d using about(2) [OF that] by (simp add: view4_def)
  let ?new = "isReplySent ?d s' \<and> \<not> isReplySent ?d s"
  have e: "committed es' = (if ?new then [S ! r] else [])" "notified es' = (if ?new \<and> Nid s0 = view s0 then 1 else 0)"
    "currentRound s' = (if ?new \<and> Nid s0 = view s0 then currentRound s + 1 else currentRound s)"
    "isReplySent ?d s \<Longrightarrow> isReplySent ?d s'" "?new \<Longrightarrow> currentRound s \<le> int r"
    using d by (auto simp: delivery_ok_def Let_def)
  have inj: "Digest req \<noteq> ?d" if "req \<in> set S" "req \<noteq> S ! r" for req
    using assms(2,3) that by (metis distinct_map inj_on_eq_iff nth_mem)
  have sets: "set (committed (es @ es')) = {req \<in> set S. isReplySent (Digest req) s'}"
  proof -
    have step: "isReplySent (Digest req) s' \<longleftrightarrow> isReplySent (Digest req) s \<or> ?new \<and> req = S ! r" if "req \<in> set S" for req
      using inj [OF that] reps e(4) by (cases "req = S ! r") auto
    have "set (committed es') = {req \<in> set S. ?new \<and> req = S ! r}" using e(1) assms(3) by (auto split: if_splits)
    moreover have "set (committed es) = {req \<in> set S. isReplySent (Digest req) s}" using n by blast
    ultimately show ?thesis unfolding committed_simps set_append using step by blast
  qed
  moreover have "distinct (committed (es @ es'))" using n e(1) by auto
  moreover have "currentRound s' = int (notified (es @ es')) \<and> notified (es @ es') \<le> length S \<and>
      length S \<le> Suc (notified (es @ es')) \<and> (\<forall>r' < length S. isReplySent (Digest (S ! r')) s' \<longleftrightarrow> r' < notified (es @ es')) \<and>
      committed (es @ es') = take (notified (es @ es')) S" if v: "Nid s0 = view s0"
  proof (cases ?new)
    case True
    have nv: "currentRound s = int (notified es)" "length S \<le> Suc (notified es)" "committed es = take (notified es) S"
      "\<And>r'. r' < length S \<Longrightarrow> isReplySent (Digest (S ! r')) s \<longleftrightarrow> r' < notified es" using n v by auto
    with e(5) True assms(3) have r: "r = notified es" "length S = Suc (notified es)" by auto
    have "isReplySent (Digest (S ! r')) s' \<longleftrightarrow> r' < Suc (notified es)" if "r' < length S" for r'
      using True nv(4) [OF that] reps other_digest [OF assms(2,3) that] r(1) by (cases "r' = r") auto
    moreover have "take (notified es) S @ [S ! notified es] = S" using r(2) by (simp flip: take_Suc_conv_app_nth)
    ultimately show ?thesis using nv e True v r by simp
  next
    case False
    then have "isReplySent ?d s' = isReplySent ?d s" using e(4) by blast
    then have "isReplySent d s' = isReplySent d s" for d using reps by (cases "d = ?d") auto
    with False n v e(1-3) show ?thesis by auto
  qed
  moreover have "currentRound s' = 0" if "Nid s0 \<noteq> view s0" using that n e(3) by simp
  moreover have "view4 d s' = (0, 0, False, False)" if "d \<notin> Digest ` set S" for d
    using that about(2) n assms(3) by (metis image_eqI nth_mem)
  ultimately show ?thesis using n rounds about(1) d unfolding node_ok_def by auto
qed

text \<open>A new round begins with a request that nobody has heard of.\<close>

lemma node_ok_next:
  assumes "node_ok S s0 xs i s es" and "Digest req \<notin> Digest ` set S"
    and "\<And>j m. m \<in> msgs_of req (int (length S)) \<Longrightarrow> got j m xs = 0"
    and "\<And>n m. Broadcast n m \<in> set es \<Longrightarrow> m \<notin> msgs_of req (int (length S))"
    and "Nid s0 = view s0 \<Longrightarrow> notified es = length S"
    and "params s' = params s" and "currentRound s' = currentRound s" and "\<And>d. view4 d s' = view4 d s"
  shows "node_ok (S @ [req]) s0 xs i s' es"
proof -
  note n = assms(1) [unfolded node_ok_def]
  let ?d = "Digest req"
  have same: "isReplySent d s' = isReplySent d s" "prep_count d s' = prep_count d s" "commit_count d s' = commit_count d s"
    "isCommitBroadcasted d s' = isCommitBroadcasted d s" for d
    using assms(8) [of d] by (auto simp: view4_def)
  have zero: "prep_count ?d s = 0" "commit_count ?d s = 0" "\<not> isCommitBroadcasted ?d s" "\<not> isReplySent ?d s"
    using n assms(2) by (auto simp: view4_def)
  have "casts (ShardId req) m es = 0" if "m \<in> msgs_of req (int (length S))" for m
    using assms(4) that by (auto simp: casts_def filter_empty_conv)
  then have "round_done req (int (length S)) s0 i xs s' es"
    using assms(3) zero same by (simp add: round_done_def msgs_of_def)
  moreover have "round_done (S ! r) (int r) s0 i xs s' es" if "r < length S" for r
    using n that by (simp add: round_done_def same Let_def)
  ultimately have rounds: "\<forall>r < length (S @ [req]). round_done ((S @ [req]) ! r) (int r) s0 i xs s' es"
    by (auto simp: nth_append less_Suc_eq)
  have "\<forall>r < length (S @ [req]). isReplySent (Digest ((S @ [req]) ! r)) s' \<longleftrightarrow> r < notified es" if "Nid s0 = view s0"
    using n zero(4) assms(5) that by (auto simp: nth_append less_Suc_eq same)
  with rounds n zero assms(5-8) show ?thesis unfolding node_ok_def by (auto simp: same)
qed

lemma node_ok_cong:
  assumes "node_ok S s0 xs i s es" and "params s' = params s" and "currentRound s' = currentRound s" and "\<And>d. view4 d s' = view4 d s"
  shows "node_ok S s0 xs i s' es"
proof -
  have same: "isReplySent d s' = isReplySent d s" "prep_count d s' = prep_count d s" "commit_count d s' = commit_count d s"
    "isCommitBroadcasted d s' = isCommitBroadcasted d s" for d
    using assms(4) [of d] by (auto simp: view4_def)
  have "round_done req r s0 i xs s' es = round_done req r s0 i xs s es" for req r by (simp add: round_done_def same)
  with assms show ?thesis by (simp add: node_ok_def same)
qed

lemma node_ok_other: "j \<noteq> i \<Longrightarrow> node_ok S s0 (xs @ [(e, a, j, m)]) i s es = node_ok S s0 xs i s es"
  by (simp add: node_ok_def round_done_other)

section \<open>The shard\<close>

record shard_log =
  rl_net :: "(time, unit pbft) net"
  rl_started :: "request list"     \<comment> \<open>the requests the loop has taken\<close>
  rl_proposed :: "request list"

datatype log_event =
    Deliver nat time          \<comment> \<open>the packet delivered, and the clock\<close>
  | Propose time request      \<comment> \<open>a proposer of the view node hands over a request\<close>
  | TakeNext                  \<comment> \<open>the loop of the view node goes on\<close>

text \<open>The pre-prepare messages of a round: to the other nodes, and to the goroutine of the view node itself.\<close>

definition round_packets :: "config \<Rightarrow> request \<Rightarrow> int \<Rightarrow> packet list" where
  "round_packets c req r = map (\<lambda>j. (ViewNodeId c, j, pbft_msg MsgPrePrepare req r)) [0..NodeNum c - 1]"

text \<open>The loop takes the next request when it has been notified once for each that it has taken.\<close>

fun log_step :: "config \<Rightarrow> int \<Rightarrow> log_event \<Rightarrow> shard_log \<Rightarrow> shard_log" where
  "log_step c sid (Deliver k now) L = L\<lparr>rl_net := net_step pbft_handle sid [0..NodeNum c - 1] (k, now) (rl_net L)\<rparr>"
| "log_step c sid (Propose now req) L =
     (let g = rl_net L; v = ViewNodeId c in
      case pbft_handle v now (propose_msg req) (nodes g v) of
        (s, es) \<Rightarrow> L\<lparr>rl_net := g\<lparr>nodes := (nodes g)(v := s), net_log := net_log g @ map (Pair v) es\<rparr>,
          rl_proposed := rl_proposed L @ [req]\<rparr>)"
| "log_step c sid TakeNext L =
     (let g = rl_net L; v = ViewNodeId c; s = nodes g v in
      if notified (effects_of v (net_log g)) \<noteq> length (rl_started L) then L
      else case Dequeue (requestQueue s) of
        None \<Rightarrow> L
      | Some (req, q) \<Rightarrow>
          L\<lparr>rl_net := g\<lparr>nodes := (nodes g)(v := s\<lparr>requestQueue := q\<rparr>),
              packets := packets g @ round_packets c req (getCurrentRound s)\<rparr>,
            rl_started := rl_started L @ [req]\<rparr>)"

definition log_run :: "config \<Rightarrow> int \<Rightarrow> log_event list \<Rightarrow> shard_log \<Rightarrow> shard_log" where
  "log_run c sid evs L = fold (log_step c sid) evs L"

definition log_start :: "(int \<Rightarrow> unit pbft) \<Rightarrow> shard_log" where
  "log_start ns = \<lparr>rl_net = net_start ns [], rl_started = [], rl_proposed = []\<rparr>"

text \<open>The pre-prepare messages of all rounds that have begun.\<close>

definition first_packets :: "config \<Rightarrow> request list \<Rightarrow> packet list" where
  "first_packets c S = concat (map (\<lambda>r. round_packets c (S ! r) (int r)) [0..<length S])"

lemma first_packets_snoc: "first_packets c (S @ [req]) = first_packets c S @ round_packets c req (int (length S))"
proof -
  have "map (\<lambda>r. round_packets c ((S @ [req]) ! r) (int r)) [0..<length S] = map (\<lambda>r. round_packets c (S ! r) (int r)) [0..<length S]"
    by (rule map_cong) (simp_all add: nth_append)
  moreover have "first_packets c (S @ [req]) =
      concat (map (\<lambda>r. round_packets c ((S @ [req]) ! r) (int r)) [0..<length S]) @ round_packets c req (int (length S))"
    by (simp add: first_packets_def)
  ultimately show ?thesis by (simp only: first_packets_def)
qed

definition known_msg :: "request list \<Rightarrow> message \<Rightarrow> bool" where
  "known_msg S m \<longleftrightarrow> (\<exists>r < length S. m \<in> msgs_of (S ! r) (int r))"

lemma known_msg_snoc: "known_msg S m \<Longrightarrow> known_msg (S @ [req]) m"
  by (auto simp: known_msg_def nth_append intro: less_SucI)

definition shard_inv :: "config \<Rightarrow> int \<Rightarrow> (int \<Rightarrow> unit pbft) \<Rightarrow> shard_log \<Rightarrow> bool" where
  "shard_inv c sid ns L \<longleftrightarrow>
     (let g = rl_net L; S = rl_started L; ids = [0..NodeNum c - 1] in
      rl_proposed L = S @ items (requestQueue (nodes g (ViewNodeId c))) \<and>
      mset (first_packets c S @ outgoing sid ids (net_log g)) = mset (packets g) + mset (map snd (served g)) \<and>
      receivers_in (set ids) g \<and>
      (\<forall>p \<in> set (packets g) \<union> snd ` set (served g). known_msg S (snd (snd p))) \<and>
      (\<forall>x \<in> set (net_log g). \<forall>n m. snd x = Broadcast n m \<longrightarrow> n = sid \<and> known_msg S m) \<and>
      (\<forall>i. node_ok S (ns i) (served g) i (nodes g i) (effects_of i (net_log g))))"

lemma conserve_step:
  assumes "mset (ps @ outgoing sid ids (net_log g)) = mset (packets g) + mset (map snd (served g))"
  shows "mset (ps @ outgoing sid ids (net_log (net_step handle sid ids x g))) =
    mset (packets (net_step handle sid ids x g)) + mset (map snd (served (net_step handle sid ids x g)))"
proof -
  obtain k e where x: "x = (k, e)" by (cases x)
  show ?thesis
  proof (cases "k < length (packets g)")
    case True
    obtain i j m where p: "packets g ! k = (i, j, m)" by (metis prod_cases3)
    obtain s es where h: "handle j e m (nodes g j) = (s, es)" by fastforce
    have "mset (packets g) = add_mset (i, j, m) (mset (take k (packets g) @ drop (Suc k) (packets g)))"
      using mset_remove_nth [OF True] p by simp
    with assms x True p h show ?thesis by auto
  qed (use assms x in simp)
qed

lemma shard_inv_deliver:
  assumes "shard_inv c sid ns L" and "distinct (map Digest (rl_proposed L))" and "\<forall>req \<in> set (rl_proposed L). ShardId req = sid"
  shows "shard_inv c sid ns (log_step c sid (Deliver k now) L)"
proof (cases "k < length (packets (rl_net L))")
  case True
  let ?g = "rl_net L" and ?S = "rl_started L" and ?ids = "[0..NodeNum c - 1]"
  note inv = assms(1) [unfolded shard_inv_def Let_def]
  obtain a j m where p: "packets ?g ! k = (a, j, m)" by (metis prod_cases3)
  obtain s' es' where h: "pbft_handle j now m (nodes ?g j) = (s', es')" by fastforce
  let ?g' = "net_step pbft_handle sid ?ids (k, now) ?g"
  have g': "nodes ?g' = (nodes ?g)(j := s')" "served ?g' = served ?g @ [(now, a, j, m)]"
    "net_log ?g' = net_log ?g @ map (Pair j) es'"
    "packets ?g' = take k (packets ?g) @ drop (Suc k) (packets ?g) @ outgoing sid ?ids (map (Pair j) es')"
    using True p h by simp_all
  have "(a, j, m) \<in> set (packets ?g)" using True p by (metis nth_mem)
  moreover have "\<forall>q \<in> set (packets ?g). known_msg ?S (snd (snd q))" using inv by blast
  ultimately have "known_msg ?S m" by (metis snd_conv)
  then obtain r where r: "r < length ?S" "m \<in> msgs_of (?S ! r) (int r)" unfolding known_msg_def by blast
  have dS: "distinct (map Digest ?S)" using assms(2) inv by simp
  have node: "node_ok ?S (ns i) (served ?g) i (nodes ?g i) (effects_of i (net_log ?g))" for i using inv by blast
  from node_ok_deliver [OF node dS r h, where a = a]
  have j: "node_ok ?S (ns j) (served ?g') j s' (effects_of j (net_log ?g'))" and d: "delivery_ok (?S ! r) (int r) (ns j) (nodes ?g j) s' es'"
    unfolding g' by simp_all
  have "ShardId (?S ! r) = sid" using assms(3) inv r(1) by simp
  then have out: "n = sid \<and> known_msg ?S m'" if "Broadcast n m' \<in> set es'" for n m'
    using d that r(1) unfolding delivery_ok_def known_msg_def by blast
  have outp: "known_msg ?S (snd (snd q))" if "q \<in> set (outgoing sid ?ids (map (Pair j) es'))" for q
  proof -
    from that obtain ef where ef: "ef \<in> set es'" "q \<in> set (packets_of sid ?ids (j, ef))" by (auto simp: outgoing_def)
    with out show ?thesis by (cases ef) (auto split: if_splits)
  qed
  have "node_ok ?S (ns i) (served ?g') i (nodes ?g' i) (effects_of i (net_log ?g'))" for i
    using j node [of i] node_ok_other [of j i] unfolding g' by (cases "i = j") auto
  moreover have "requestQueue (nodes ?g' (ViewNodeId c)) = requestQueue (nodes ?g (ViewNodeId c))"
    using d unfolding g' delivery_ok_def only_about_def by auto
  moreover have "\<forall>q \<in> set (packets ?g') \<union> snd ` set (served ?g'). known_msg ?S (snd (snd q))"
  proof
    fix q assume "q \<in> set (packets ?g') \<union> snd ` set (served ?g')"
    then have "q \<in> set (packets ?g) \<union> snd ` set (served ?g) \<or> q \<in> set (outgoing sid ?ids (map (Pair j) es')) \<or> q = (a, j, m)"
      unfolding g' by (auto dest: in_set_takeD in_set_dropD)
    moreover have "known_msg ?S m" using r by (auto simp: known_msg_def)
    ultimately show "known_msg ?S (snd (snd q))" using inv outp by (elim disjE) auto
  qed
  moreover have "\<forall>x \<in> set (net_log ?g'). \<forall>n m. snd x = Broadcast n m \<longrightarrow> n = sid \<and> known_msg ?S m"
  proof -
    have "\<forall>x \<in> set (net_log ?g). \<forall>n m. snd x = Broadcast n m \<longrightarrow> n = sid \<and> known_msg ?S m" using inv by blast
    with out show ?thesis unfolding g' by fastforce
  qed
  ultimately show ?thesis
    using inv conserve_step [of "first_packets c ?S" sid ?ids ?g pbft_handle "(k, now)"] receivers_step [of ?ids ?g pbft_handle sid "(k, now)"]
    unfolding shard_inv_def Let_def log_step.simps shard_log.simps
    by (simp del: net_step.simps)
qed (use assms(1) in simp)

lemma shard_inv_propose:
  assumes "shard_inv c sid ns L" and "distinct (map Digest (rl_proposed (log_step c sid (Propose now req) L)))"
  shows "shard_inv c sid ns (log_step c sid (Propose now req) L)"
proof -
  let ?g = "rl_net L" and ?v = "ViewNodeId c" and ?S = "rl_started L"
  note inv = assms(1) [unfolded shard_inv_def Let_def]
  obtain s' es where h: "pbft_handle ?v now (propose_msg req) (nodes ?g ?v) = (s', es)" by fastforce
  then have "Digest req \<notin> Digest ` set ?S" using assms(2) inv by (auto simp: Let_def)
  then have "view4 (Digest req) (nodes ?g ?v) = (0, 0, False, False)" using inv unfolding node_ok_def by blast
  from handle_propose [OF h this] have p: "params s' = params (nodes ?g ?v)" "currentRound s' = currentRound (nodes ?g ?v)"
    "items (requestQueue s') = items (requestQueue (nodes ?g ?v)) @ [req]" "\<And>d. view4 d s' = view4 d (nodes ?g ?v)" "es = []"
    by auto
  have n: "node_ok ?S (ns i) (served ?g) i (nodes ?g i) (effects_of i (net_log ?g))" for i using inv by blast
  have "node_ok ?S (ns i) (served ?g) i (((nodes ?g)(?v := s')) i) (effects_of i (net_log ?g))" for i
    using n [of i] node_ok_cong [OF n p(1,2,4)] by simp
  with inv h p(3,5) show ?thesis by (simp add: shard_inv_def Let_def receivers_in_def)
qed

lemma known_fresh:
  assumes "known_msg S m" and "Digest req \<notin> Digest ` set S"
  shows "m \<notin> msgs_of req r"
  using assms by (auto simp: known_msg_def msgs_of_def)

lemma shard_inv_take:
  assumes "shard_inv c sid ns L" and "distinct (map Digest (rl_proposed L))"
    and "\<And>i. Nid (ns i) = i \<and> view (ns i) = ViewNodeId c"
  shows "shard_inv c sid ns (log_step c sid TakeNext L)"
proof (cases "notified (effects_of (ViewNodeId c) (net_log (rl_net L))) = length (rl_started L) \<and>
    items (requestQueue (nodes (rl_net L) (ViewNodeId c))) \<noteq> []")
  case True
  let ?g = "rl_net L" and ?v = "ViewNodeId c" and ?S = "rl_started L" and ?s = "nodes (rl_net L) (ViewNodeId c)"
  note inv = assms(1) [unfolded shard_inv_def Let_def]
  from True obtain req q where q: "items (requestQueue ?s) = req # q" by (cases "items (requestQueue ?s)") auto
  let ?s' = "?s\<lparr>requestQueue := (requestQueue ?s)\<lparr>items := q\<rparr>\<rparr>" and ?k = "int (length ?S)"
  have n: "node_ok ?S (ns i) (served ?g) i (nodes ?g i) (effects_of i (net_log ?g))" for i using inv by blast
  have "currentRound ?s = ?k" using n [of ?v] True assms(3) [of ?v] by (simp add: node_ok_def)
  then have step: "log_step c sid TakeNext L =
      L\<lparr>rl_net := ?g\<lparr>nodes := (nodes ?g)(?v := ?s'), packets := packets ?g @ round_packets c req ?k\<rparr>, rl_started := ?S @ [req]\<rparr>"
    using True q by (simp add: Dequeue_def getCurrentRound_def Let_def)
  have fresh: "Digest req \<notin> Digest ` set ?S" using assms(2) inv q by auto
  have unknown: "m \<notin> msgs_of req ?k" if "known_msg ?S m" for m using known_fresh [OF that fresh] .
  have none: "got j m (served ?g) = 0" if "m \<in> msgs_of req ?k" for j m
  proof -
    have "snd (snd x) \<noteq> (j, m)" if "x \<in> set (served ?g)" for x
      using inv unknown that \<open>m \<in> msgs_of req ?k\<close> by (metis UnI2 image_eqI snd_conv)
    then show ?thesis by (auto simp: got_def filter_empty_conv)
  qed
  have silent: "m \<notin> msgs_of req ?k" if "Broadcast n m \<in> set (effects_of i (net_log ?g))" for i n m
  proof -
    have "\<forall>x \<in> set (net_log ?g). \<forall>n m. snd x = Broadcast n m \<longrightarrow> n = sid \<and> known_msg ?S m" using inv by blast
    with that have "known_msg ?S m" by (auto simp: effects_of_def)
    then show ?thesis by (rule unknown)
  qed
  have view: "Nid (ns i) = view (ns i) \<longleftrightarrow> i = ?v" for i using assms(3) [of i] by auto
  have "node_ok (?S @ [req]) (ns i) (served ?g) i (((nodes ?g)(?v := ?s')) i) (effects_of i (net_log ?g))" for i
  proof (rule node_ok_next [OF n fresh none silent])
    show "Nid (ns i) = view (ns i) \<Longrightarrow> notified (effects_of i (net_log ?g)) = length ?S" using view True by simp
  qed (auto simp: params_def view4_def prep_count_def commit_count_def isCommitBroadcasted_def isReplySent_def)
  moreover have "\<forall>p \<in> set (packets ?g @ round_packets c req ?k) \<union> snd ` set (served ?g). known_msg (?S @ [req]) (snd (snd p))"
  proof -
    have "known_msg (?S @ [req]) (snd (snd p))" if "p \<in> set (round_packets c req ?k)" for p
      using that by (auto simp: round_packets_def known_msg_def msgs_of_def intro!: exI [of _ "length ?S"])
    moreover have "\<forall>p \<in> set (packets ?g) \<union> snd ` set (served ?g). known_msg (?S @ [req]) (snd (snd p))"
      using inv known_msg_snoc by blast
    ultimately show ?thesis by (metis Un_iff set_append)
  qed
  moreover have "\<forall>x \<in> set (net_log ?g). \<forall>n m. snd x = Broadcast n m \<longrightarrow> n = sid \<and> known_msg (?S @ [req]) m"
    using inv known_msg_snoc by blast
  moreover have "receivers_in (set [0..NodeNum c - 1]) (?g\<lparr>nodes := (nodes ?g)(?v := ?s'), packets := packets ?g @ round_packets c req ?k\<rparr>)"
    using inv by (auto simp: receivers_in_def round_packets_def)
  ultimately show ?thesis
    using inv q unfolding step by (simp add: shard_inv_def first_packets_snoc Let_def)
next
  case False
  then have "log_step c sid TakeNext L = L" by (auto simp: Dequeue_def Let_def split: list.split)
  with assms(1) show ?thesis by simp
qed

definition proposals :: "log_event list \<Rightarrow> request list" where
  "proposals evs = concat (map (\<lambda>e. case e of Propose now req \<Rightarrow> [req] | _ \<Rightarrow> []) evs)"

lemma proposals_simps [simp]:
  "proposals [] = []" "proposals (evs @ evs') = proposals evs @ proposals evs'" "proposals [Propose now req] = [req]"
  "proposals [Deliver k now] = []" "proposals [TakeNext] = []"
  by (simp_all add: proposals_def)

lemma log_run_simps [simp]:
  "log_run c sid [] L = L" "log_run c sid (evs @ [e]) L = log_step c sid e (log_run c sid evs L)"
  by (simp_all add: log_run_def)

lemma log_run_proposed: "rl_proposed (log_run c sid evs (log_start ns)) = proposals evs"
proof (induction evs rule: rev_induct)
  case (snoc e evs)
  then show ?case by (cases e) (auto simp: Let_def split: prod.split option.split)
qed (simp add: log_start_def)

lemma shard_inv_run:
  assumes "honest_nodes c sid ip ns" and "\<And>i. items (requestQueue (ns i)) = []" and "1 \<le> NodeNum c"
    and "distinct (map Digest (proposals evs))" and "\<forall>req \<in> set (proposals evs). ShardId req = sid"
  shows "shard_inv c sid ns (log_run c sid evs (log_start ns))"
  using assms(4,5)
proof (induction evs rule: rev_induct)
  case Nil
  have n: "requestPool (ns i) = Map.empty" "currentRound (ns i) = 0" for i
    using malicious_num_bound(5,6) [of c i sid "ip i" "\<lambda>k. ()" "ns i"] assms(1,3) by (auto simp: honest_nodes_def)
  then show ?case using node_ok_start assms(2)
    by (simp add: shard_inv_def log_start_def net_start_def first_packets_def outgoing_def receivers_in_def effects_of_def Let_def)
next
  case (snoc e evs)
  let ?L = "log_run c sid evs (log_start ns)"
  have ids: "Nid (ns i) = i \<and> view (ns i) = ViewNodeId c" for i
    using malicious_num_bound(7,8) [of c i sid "ip i" "\<lambda>k. ()" "ns i"] assms(1,3) by (auto simp: honest_nodes_def)
  have IH: "shard_inv c sid ns ?L" using snoc by simp
  have d: "distinct (map Digest (rl_proposed ?L))" "\<forall>req \<in> set (rl_proposed ?L). ShardId req = sid"
    using snoc.prems by (simp_all add: log_run_proposed)
  show ?case
  proof (cases e)
    case (Deliver k now)
    with shard_inv_deliver [OF IH d] show ?thesis by simp
  next
    case (Propose now req)
    have "distinct (map Digest (rl_proposed (log_run c sid (evs @ [e]) (log_start ns))))"
      unfolding log_run_proposed using snoc.prems by simp
    with shard_inv_propose [OF IH] Propose show ?thesis by (metis log_run_simps(2))
  next
    case TakeNext
    with shard_inv_take [OF IH d(1) ids] show ?thesis by simp
  qed
qed

section \<open>What a run leads to\<close>

lemma sent_first:
  assumes "j \<in> {0..<NodeNum c}"
  shows "sent_to j (pbft_msg t req (int r)) (first_packets c S) = (if t = MsgPrePrepare \<and> r < length S \<and> S ! r = req then 1 else 0)"
proof (induction S rule: rev_induct)
  case Nil
  then show ?case by (simp add: first_packets_def)
next
  case (snoc x S)
  have "sent_to j (pbft_msg t req (int r)) (round_packets c x (int (length S))) =
      (if t = MsgPrePrepare \<and> x = req \<and> r = length S then 1 else 0)"
    using assms by (auto simp: round_packets_def sent_to_prePrepares upto_ids(4))
  with snoc show ?case by (auto simp: first_packets_snoc nth_append less_Suc_eq)
qed

lemma length_first: "length (first_packets c S) = length S * nat (NodeNum c)"
proof (induction S rule: rev_induct)
  case (snoc x S)
  then show ?case by (simp add: first_packets_snoc round_packets_def upto_ids(3))
qed (simp add: first_packets_def)

lemma bcasts_sum:
  assumes "finite M" and "\<And>n m. Broadcast n m \<in> set es \<Longrightarrow> n = sid \<and> m \<in> M"
  shows "bcasts sid es = (\<Sum>m \<in> M. casts sid m es)"
  using assms(2)
proof (induction es)
  case (Cons ef es)
  have "(\<Sum>m \<in> M. casts sid m (ef # es)) = (\<Sum>m \<in> M. (if ef = Broadcast sid m then 1 else 0) + casts sid m es)"
    by (rule sum.cong) simp_all
  moreover have "(\<Sum>m \<in> M. if ef = Broadcast sid m then 1 else (0 :: nat)) = bcasts sid [ef]"
  proof (cases ef)
    case (Broadcast n m')
    then have "n = sid" "m' \<in> M" using Cons.prems [of n m'] by simp_all
    moreover have "(\<Sum>m \<in> M. if ef = Broadcast sid m then 1 else (0 :: nat)) = (\<Sum>m \<in> M. if m = m' then 1 else 0)"
      using Broadcast \<open>n = sid\<close> by (intro sum.cong) auto
    ultimately show ?thesis using Broadcast assms(1) by (simp add: bcasts_def)
  qed (simp_all add: bcasts_def)
  moreover have "bcasts sid (ef # es) = bcasts sid [ef] + bcasts sid es" by (cases ef) (auto simp: bcasts_def)
  moreover have "bcasts sid es = (\<Sum>m \<in> M. casts sid m es)" by (rule Cons.IH) (use Cons.prems in auto)
  ultimately show ?case by (simp add: sum.distrib)
qed (simp add: bcasts_def)

text \<open>The shape of every state of an honest shard: what each node has sent and received about each round.\<close>

definition honest_shard :: "config \<Rightarrow> int \<Rightarrow> (int \<Rightarrow> unit pbft) \<Rightarrow> shard_log \<Rightarrow> bool" where
  "honest_shard c sid ns L \<longleftrightarrow>
     (\<exists>ip. honest_nodes c sid ip ns) \<and> 1 \<le> NodeNum c \<and> shard_inv c sid ns L \<and> (\<forall>req \<in> set (rl_proposed L). ShardId req = sid)"

lemma round_facts:
  assumes "honest_shard c sid ns L" and "r < length (rl_started L)" and "i \<in> {0..<NodeNum c}"
  defines "g \<equiv> rl_net L" and "req \<equiv> rl_started L ! r"
  shows "round_done req (int r) (ns i) i (served g) (nodes g i) (effects_of i (net_log g))" and "ShardId req = sid"
    and "got i (pbft_msg t req (int r)) (served g) + sent_to i (pbft_msg t req (int r)) (packets g) =
      (if t = MsgPrePrepare then 1 else 0) +
      (\<Sum>j \<in> {0..<NodeNum c} - {i}. casts sid (pbft_msg t req (int r)) (effects_of j (net_log g)))"
    and "got i (pbft_msg MsgPrePrepare req (int r)) (served g) \<le> 1"
proof -
  let ?S = "rl_started L" and ?ids = "[0..NodeNum c - 1]" and ?m = "pbft_msg t req (int r)"
  from assms(1) have si: "shard_inv c sid ns L" by (simp add: honest_shard_def)
  note inv = si [unfolded shard_inv_def Let_def, folded g_def]
  show d: "round_done req (int r) (ns i) i (served g) (nodes g i) (effects_of i (net_log g))" for i
    using inv assms(2) unfolding req_def node_ok_def by blast
  show sid: "ShardId req = sid" using assms(1,2) inv by (auto simp: honest_shard_def req_def)
  have log: "fst ` set (net_log g) \<subseteq> set ?ids" using inv by (simp add: receivers_in_def)
  have i: "i \<in> set ?ids" using assms(3) by simp
  have sum: "got i (pbft_msg t req (int r)) (served g) + sent_to i (pbft_msg t req (int r)) (packets g) =
      (if t = MsgPrePrepare then 1 else 0) +
      (\<Sum>j \<in> {0..<NodeNum c} - {i}. casts sid (pbft_msg t req (int r)) (effects_of j (net_log g)))" for t
  proof -
    have "mset (first_packets c ?S @ outgoing sid ?ids (net_log g)) = mset (packets g @ map snd (served g))" using inv by simp
    from sent_to_mset [OF this, of i "pbft_msg t req (int r)"] show ?thesis
      using sent_first [OF assms(3), of t req r ?S] assms(2) sent_to_outgoing [OF upto_ids(2) i log, of "pbft_msg t req (int r)" sid]
      unfolding upto_ids(1) by (simp add: got_sent_to req_def)
  qed
  from this [of t] show "got i ?m (served g) + sent_to i ?m (packets g) =
      (if t = MsgPrePrepare then 1 else 0) + (\<Sum>j \<in> {0..<NodeNum c} - {i}. casts sid ?m (effects_of j (net_log g)))" .
  have "casts sid (pbft_msg MsgPrePrepare req (int r)) (effects_of j (net_log g)) = 0" for j
    using d [of j] sid by (simp add: round_done_def Let_def)
  then show "got i (pbft_msg MsgPrePrepare req (int r)) (served g) \<le> 1" using sum [of MsgPrePrepare] by simp
qed

lemma message_types: "MsgPrepare \<noteq> MsgPrePrepare" "MsgCommit \<noteq> MsgPrePrepare"
  by simp_all

lemma started_at_rest:
  assumes "honest_shard c sid ns L" and "3 \<le> NodeNum c" and "at_rest (rl_net L)" and "r < length (rl_started L)"
    and "i \<in> {0..<NodeNum c}"
  shows "isReplySent (Digest (rl_started L ! r)) (nodes (rl_net L) i)"
proof -
  let ?n = "NodeNum c" and ?v = "ViewNodeId c" and ?g = "rl_net L" and ?req = "rl_started L ! r"
  let ?P = "pbft_msg MsgPrepare ?req (int r)" and ?C = "pbft_msg MsgCommit ?req (int r)" and ?PP = "pbft_msg MsgPrePrepare ?req (int r)"
  obtain ip where h: "honest_nodes c sid ip ns" using assms(1) by (auto simp: honest_shard_def)
  then have v: "?v \<in> {0..<?n}" by (simp add: honest_nodes_def)
  have node: "0 \<le> malicious_num (ns j)" "3 * malicious_num (ns j) + 1 \<le> ?n" "Nid (ns j) = j" "view (ns j) = ?v" for j
    using malicious_num_bound [of c j sid "ip j" "\<lambda>k. ()" "ns j"] h assms(2) by (auto simp: honest_nodes_def)
  note f = round_facts [OF assms(1,4)]
  have none: "sent_to j m (packets ?g) = 0" for j m using assms(3) by (simp add: at_rest_def)
  have PP: "got j ?PP (served ?g) = 1" if "j \<in> {0..<?n}" for j
    using f(3) [OF that, of MsgPrePrepare] f(4) [OF that] none by simp
  have got: "got j (pbft_msg t ?req (int r)) (served ?g) = (\<Sum>k \<in> {0..<?n} - {j}. casts sid (pbft_msg t ?req (int r)) (effects_of k (net_log ?g)))"
    if "j \<in> {0..<?n}" "t \<noteq> MsgPrePrepare" for j t
    using f(3) [OF that(1), of t] none that(2) by simp
  have P: "casts sid ?P (effects_of j (net_log ?g)) = 1" if "j \<in> {0..<?n}" "j \<noteq> ?v" for j
    using f(1,2) [OF that(1)] PP [OF that(1)] node(3,4) that(2) by (simp add: round_done_def Let_def)
  have C: "casts sid ?C (effects_of j (net_log ?g)) = 1" if j: "j \<in> {0..<?n}" "j \<noteq> ?v" for j
  proof -
    have "?n - 2 \<le> int (got j ?P (served ?g))"
      unfolding got [OF j(1) message_types(1)] by (rule others_sum [OF _ j(1) v]) (simp add: P)
    moreover have "needCnt (ns j) = 2 * malicious_num (ns j) - 1" using node(3,4) j(2) by (simp add: needCnt_def)
    ultimately have "1 \<le> got j ?P (served ?g) \<and> needCnt (ns j) \<le> int (got j ?P (served ?g))"
      using node(1,2) [of j] assms(2) by linarith
    with f(1,2) [OF j(1)] node(3,4) j(2) show ?thesis by (simp add: round_done_def Let_def)
  qed
  have "?n - 2 \<le> int (got i ?C (served ?g))"
    unfolding got [OF assms(5) message_types(2)] by (rule others_sum [OF _ assms(5) v]) (simp add: C)
  then have "1 \<le> got i ?C (served ?g) \<and> 2 * malicious_num (ns i) \<le> int (got i ?C (served ?g))"
    using node(1,2) [of i] assms(2) by linarith
  with f(1) [OF assms(5)] show ?thesis by (simp add: round_done_def Let_def)
qed

lemma round_casts:
  assumes "honest_shard c sid ns L" and "r < length (rl_started L)" and "i \<in> {0..<NodeNum c}"
  shows "(\<Sum>m \<in> msgs_of (rl_started L ! r) (int r). casts sid m (effects_of i (net_log (rl_net L)))) \<le> 2"
  using round_facts(1,2,4) [OF assms] by (auto simp: msgs_of_def round_done_def Let_def)

lemma node_bcasts:
  assumes "honest_shard c sid ns L" and "i \<in> {0..<NodeNum c}"
  shows "bcasts sid (effects_of i (net_log (rl_net L))) \<le> 2 * length (rl_started L)"
proof -
  let ?S = "rl_started L" and ?es = "effects_of i (net_log (rl_net L))"
  let ?M = "\<lambda>r. msgs_of (?S ! r) (int r)"
  have "\<forall>x \<in> set (net_log (rl_net L)). \<forall>n m. snd x = Broadcast n m \<longrightarrow> n = sid \<and> known_msg ?S m"
    using assms(1) by (simp add: honest_shard_def shard_inv_def Let_def)
  then have "n = sid \<and> m \<in> (\<Union>r \<in> {..<length ?S}. ?M r)" if "Broadcast n m \<in> set ?es" for n m
    using that by (fastforce simp: effects_of_def known_msg_def)
  then have "bcasts sid ?es = (\<Sum>m \<in> (\<Union>r \<in> {..<length ?S}. ?M r). casts sid m ?es)"
    by (intro bcasts_sum) (auto simp: msgs_of_def)
  also have "\<dots> = (\<Sum>r < length ?S. \<Sum>m \<in> ?M r. casts sid m ?es)"
    by (rule sum.UNION_disjoint) (auto simp: msgs_of_def)
  also have "\<dots> \<le> (\<Sum>r < length ?S. 2)" by (rule sum_mono) (use round_casts [OF assms(1) _ assms(2)] in auto)
  finally show ?thesis by simp
qed

lemma shard_deliveries:
  assumes "honest_shard c sid ns L"
  shows "length (served (rl_net L)) \<le> length (rl_started L) * (nat (NodeNum c) + (nat (NodeNum c) - 1) * (2 * nat (NodeNum c)))"
proof -
  let ?g = "rl_net L" and ?S = "rl_started L" and ?ids = "[0..NodeNum c - 1]" and ?n = "nat (NodeNum c)"
  have inv: "mset (first_packets c ?S @ outgoing sid ?ids (net_log ?g)) = mset (packets ?g) + mset (map snd (served ?g))"
    "fst ` set (net_log ?g) \<subseteq> set ?ids"
    using assms by (simp_all add: honest_shard_def shard_inv_def receivers_in_def Let_def)
  have "(\<Sum>i \<in> {0..<NodeNum c}. bcasts sid (effects_of i (net_log ?g))) \<le> (\<Sum>i \<in> {0..<NodeNum c}. 2 * length ?S)"
    by (rule sum_mono) (rule node_bcasts [OF assms])
  then have "(\<Sum>i \<in> {0..<NodeNum c}. bcasts sid (effects_of i (net_log ?g))) \<le> ?n * (2 * length ?S)" by simp
  then have "length (outgoing sid ?ids (net_log ?g)) \<le> (?n - 1) * (?n * (2 * length ?S))"
    using length_outgoing [OF upto_ids(2) inv(2)] unfolding upto_ids(1,3) by (simp add: mult_le_mono2)
  moreover have "length (served ?g) \<le> length (first_packets c ?S) + length (outgoing sid ?ids (net_log ?g))"
    using arg_cong [OF inv(1), of size] by simp
  ultimately show ?thesis by (simp add: length_first algebra_simps)
qed

lemma new_module_queue: "NewPbftCosensusMod c i sid a mk = Inr s \<Longrightarrow> items (requestQueue s) = []"
  by (auto simp: NewPbftCosensusMod_def NewQueue_def split: option.splits if_splits)

lemma honest_shard_run:
  assumes "honest_nodes c sid ip ns" and "distinct (map Digest (proposals evs))" and "\<forall>req \<in> set (proposals evs). ShardId req = sid"
  shows "honest_shard c sid ns (log_run c sid evs (log_start ns))"
proof -
  have n: "1 \<le> NodeNum c" using assms(1) by (auto simp: honest_nodes_def)
  have "items (requestQueue (ns i)) = []" for i
    using assms(1) new_module_queue unfolding honest_nodes_def by blast
  from shard_inv_run [OF assms(1) this n assms(2,3)] show ?thesis
    using assms(1,3) n by (auto simp: honest_shard_def log_run_proposed)
qed

lemma honest_logs:
  assumes "honest_shard c sid ns L" and "distinct (map Digest (rl_proposed L))" and "i \<in> {0..<NodeNum c}"
  defines "log \<equiv> \<lambda>i. committed (effects_of i (net_log (rl_net L)))"
  shows "distinct (log i)" and "set (log i) = {req \<in> set (rl_started L). isReplySent (Digest req) (nodes (rl_net L) i)}"
    and "log (ViewNodeId c) = take (notified (effects_of (ViewNodeId c) (net_log (rl_net L)))) (rl_started L)"
    and "distinct (rl_started L)"
    and "rl_proposed L = rl_started L @ items (requestQueue (nodes (rl_net L) (ViewNodeId c)))"
    and "notified (effects_of (ViewNodeId c) (net_log (rl_net L))) \<le> length (rl_started L)"
proof -
  obtain ip where h: "honest_nodes c sid ip ns" "1 \<le> NodeNum c" using assms(1) by (auto simp: honest_shard_def)
  note inv = assms(1) [unfolded honest_shard_def shard_inv_def Let_def]
  have n: "node_ok (rl_started L) (ns i) (served (rl_net L)) i (nodes (rl_net L) i) (effects_of i (net_log (rl_net L)))" for i
    using inv by blast
  show "distinct (log i)" "set (log i) = {req \<in> set (rl_started L). isReplySent (Digest req) (nodes (rl_net L) i)}"
    using n [of i] by (simp_all add: node_ok_def log_def)
  have "Nid (ns (ViewNodeId c)) = view (ns (ViewNodeId c))"
    using malicious_num_bound(7,8) [of c "ViewNodeId c" sid "ip (ViewNodeId c)" "\<lambda>k. ()" "ns (ViewNodeId c)"] h
    by (auto simp: honest_nodes_def)
  with n [of "ViewNodeId c"] show "log (ViewNodeId c) = take (notified (effects_of (ViewNodeId c) (net_log (rl_net L)))) (rl_started L)"
    "notified (effects_of (ViewNodeId c) (net_log (rl_net L))) \<le> length (rl_started L)"
    by (simp_all add: node_ok_def log_def)
  show e: "rl_proposed L = rl_started L @ items (requestQueue (nodes (rl_net L) (ViewNodeId c)))" using inv by blast
  then show "distinct (rl_started L)" using assms(2) by (simp add: distinct_map)
qed


section \<open>Concrete runs\<close>

definition two_proposals :: "log_event list" where
  "two_proposals = [Propose 0 (example_req ''A''), Propose 0 (example_req ''B''), TakeNext] @ replicate 28 (Deliver 0 0) @ [TakeNext] @
     replicate 28 (Deliver 0 0)"


definition overtaking_run :: "log_event list" where
  "overtaking_run =
     [Propose 0 (example_req ''A''), Propose 0 (example_req ''B''), TakeNext] @
     map (\<lambda>k. Deliver k 0) [0, 0, 0, 1, 1, 2, 2, 3, 3, 4, 4, 5] @ [TakeNext] @
     map (\<lambda>k. Deliver k 0) [5, 6, 6, 7, 7, 7, 8, 8, 9, 9, 10, 10, 11, 11, 12, 11, 12, 4, 4] @ replicate 25 (Deliver 0 0)"


end
