(* ===== verification/Rounds.thy ===== *)
theory Rounds
  imports Message Config
begin

text \<open>
  Round numbers and the polling loop shared by the Dolev-Strong and the TBB module
  (consensusMod/ds, consensusMod/tbb).  A node's round is the time since the start of the
  protocol in milliseconds, divided by the tick interval, both divisions truncating.  The loop
  reads the clock and the start time anew in every iteration (another goroutine may set the
  start time), so its input is the sequence of readings \<open>(now, start)\<close>.  It may poll for
  ever, hence \<open>partial_function (option)\<close>.
\<close>

text \<open>How a handler's goroutine ends.\<close>

datatype fin = Done | Spins | Crashes panic

type_synonym reading = "time \<times> time"

definition round_at :: "config \<Rightarrow> reading \<Rightarrow> int" where
  "round_at c r = Milliseconds (fst r - snd r) sdiv TickInterval c"

text \<open>\<open>for { if round < bound { break }; sleep }\<close>; the result is the iteration that breaks.\<close>

partial_function (option) wait_round :: "config \<Rightarrow> int \<Rightarrow> (nat \<Rightarrow> reading) \<Rightarrow> nat \<Rightarrow> nat option" where
  "wait_round c bound clk i =
     (if round_at c (clk i) < bound then Some i else wait_round c bound clk (Suc i))"

lemma wait_round_code [code]:
  "wait_round c bound clk i = (if round_at c (clk i) < bound then Some i else wait_round c bound clk (Suc i))"
  by (rule wait_round.simps)

lemma wait_round_first:
  assumes "round_at c (clk (i + k)) < bound" and "\<forall>j < k. \<not> round_at c (clk (i + j)) < bound"
  shows "wait_round c bound clk i = Some (i + k)"
  using assms
proof (induction k arbitrary: i)
  case 0
  then show ?case by (simp add: wait_round.simps)
next
  case (Suc k)
  from Suc.prems(2) have "\<not> round_at c (clk i) < bound" by (metis add.right_neutral zero_less_Suc)
  moreover have "wait_round c bound clk (Suc i) = Some (Suc i + k)"
  proof (rule Suc.IH)
    show "round_at c (clk (Suc i + k)) < bound" using Suc.prems(1) by simp
    show "\<forall>j < k. \<not> round_at c (clk (Suc i + j)) < bound"
      using Suc.prems(2) by (metis add_Suc_shift not_less_eq)
  qed
  ultimately show ?case by (subst wait_round.simps) simp
qed

lemma wait_round_SomeD: "wait_round c bound clk i = Some k \<Longrightarrow> i \<le> k \<and> round_at c (clk k) < bound"
proof (rule wait_round.raw_induct [where P = "\<lambda>c bound clk i k. i \<le> k \<and> round_at c (clk k) < bound"])
  show "i \<le> k \<and> round_at c (clk k) < bound"
    if "\<And>c bound clk i k. w c bound clk i = Some k \<Longrightarrow> i \<le> k \<and> round_at c (clk k) < bound"
      "(if round_at c (clk i) < bound then Some i else w c bound clk (Suc i)) = Some k"
    for w c bound clk i k
    using that(2) by (auto split: if_splits dest!: that(1))
qed

lemma wait_round_None_iff: "wait_round c bound clk i = None \<longleftrightarrow> (\<forall>j \<ge> i. \<not> round_at c (clk j) < bound)"
proof
  assume n: "wait_round c bound clk i = None"
  show "\<forall>j \<ge> i. \<not> round_at c (clk j) < bound"
  proof (intro allI impI notI)
    fix j assume "i \<le> j" and j: "round_at c (clk j) < bound"
    define P where "P k = (round_at c (clk (i + k)) < bound)" for k
    have "P (j - i)" using \<open>i \<le> j\<close> j by (simp add: P_def)
    then have "P (LEAST k. P k)" "\<forall>m < (LEAST k. P k). \<not> P m"
      using LeastI not_less_Least by metis+
    with wait_round_first [of c clk i "LEAST k. P k" bound] n show False by (simp add: P_def)
  qed
next
  assume all: "\<forall>j \<ge> i. \<not> round_at c (clk j) < bound"
  show "wait_round c bound clk i = None"
    using wait_round_SomeD [of c bound clk i] all by (cases "wait_round c bound clk i") auto
qed

text \<open>Readings of a clock that does not run backwards, with a fixed start time.\<close>

definition steady :: "(nat \<Rightarrow> reading) \<Rightarrow> bool" where
  "steady clk \<longleftrightarrow> (\<forall>i j. i \<le> j \<longrightarrow> fst (clk i) \<le> fst (clk j)) \<and> (\<forall>i. snd (clk i) = snd (clk 0))"

lemma round_at_mono: "0 < TickInterval c \<Longrightarrow> fst r \<le> fst r' \<Longrightarrow> snd r = snd r' \<Longrightarrow> round_at c r \<le> round_at c r'"
  unfolding round_at_def by (intro sdiv_mono Milliseconds_mono) simp_all

text \<open>
  C36: the polling loop "wait until the round is reached" tests the wrong direction: with a steady
  clock it ends in its first iteration when the round is still below the bound, and otherwise
  never ends; it never waits for a round.  In general it ends in the first iteration whose
  readings give a round below the bound, for instance after the start time has been reset.
\<close>

theorem wait_round_exits_at_once_or_never:
  assumes "0 < TickInterval c"
  shows "(steady clk \<longrightarrow> wait_round c bound clk i = (if round_at c (clk i) < bound then Some i else None)) \<and>
    (\<forall>k. wait_round c bound clk i = Some k \<longleftrightarrow>
       i \<le> k \<and> round_at c (clk k) < bound \<and> (\<forall>j. i \<le> j \<longrightarrow> j < k \<longrightarrow> bound \<le> round_at c (clk j)))"
proof (intro conjI impI allI iffI)
  assume s: "steady clk"
  have "round_at c (clk i) \<le> round_at c (clk j)" if "i \<le> j" for j
    using s that assms unfolding steady_def by (intro round_at_mono) metis+
  then have "wait_round c bound clk i = None" if "\<not> round_at c (clk i) < bound"
    unfolding wait_round_None_iff using that by (meson le_less_trans not_le)
  then show "wait_round c bound clk i = (if round_at c (clk i) < bound then Some i else None)"
    by (simp add: wait_round.simps)
next
  fix k assume k: "wait_round c bound clk i = Some k"
  note 1 = wait_round_SomeD [OF k]
  then show "i \<le> k" "round_at c (clk k) < bound" by simp_all
  fix j assume j: "i \<le> j" "j < k"
  show "bound \<le> round_at c (clk j)"
  proof (rule ccontr)
    assume "\<not> bound \<le> round_at c (clk j)"
    then have ex: "\<exists>m. round_at c (clk (i + m)) < bound \<and> i + m \<le> j"
      using j by (intro exI [of _ "j - i"]) simp
    define m where "m = (LEAST m. round_at c (clk (i + m)) < bound)"
    have "round_at c (clk (i + m)) < bound" "\<forall>n < m. \<not> round_at c (clk (i + n)) < bound"
      unfolding m_def using ex LeastI_ex [of "\<lambda>m. round_at c (clk (i + m)) < bound"] not_less_Least by blast+
    from wait_round_first [OF this] k have "k = i + m" by simp
    moreover have "m \<le> j - i" unfolding m_def by (rule Least_le) (use j \<open>\<not> bound \<le> _\<close> in simp)
    ultimately show False using j by simp
  qed
next
  fix k assume a: "i \<le> k \<and> round_at c (clk k) < bound \<and> (\<forall>j. i \<le> j \<longrightarrow> j < k \<longrightarrow> bound \<le> round_at c (clk j))"
  then have "\<forall>j < k - i. \<not> round_at c (clk (i + j)) < bound" by (simp add: not_less)
  with a wait_round_first [of c clk i "k - i" bound] show "wait_round c bound clk i = Some k" by simp
qed

definition tick_config :: config where
  "tick_config = example_config\<lparr>TickInterval := 1000, NodeNum := 4\<rparr>"

theorem wait_round_exits_at_once_or_never_witness:
  "wait_round tick_config 2 (\<lambda>i. (int i + 2000 * Millisecond, 0)) 0 = None \<and>
   wait_round tick_config 2 (\<lambda>i. (int i + 1999 * Millisecond, 0)) 0 = Some 0"
proof -
  have t: "0 < TickInterval tick_config" by (simp add: tick_config_def)
  have s: "steady (\<lambda>i. (int i + n, 0))" for n by (simp add: steady_def)
  have "\<not> round_at tick_config (2000 * Millisecond, 0) < 2" "round_at tick_config (1999 * Millisecond, 0) < 2"
    by (simp_all add: round_at_def tick_config_def Milliseconds_def Millisecond_def sdiv_pos_eq_div)
  with wait_round_exits_at_once_or_never [OF t, of "\<lambda>i. (int i + 2000 * Millisecond, 0)" 2 0]
    wait_round_exits_at_once_or_never [OF t, of "\<lambda>i. (int i + 1999 * Millisecond, 0)" 2 0] s
  show ?thesis by simp
qed

end
