(* ===== verification/DolevStrong.thy ===== *)
theory DolevStrong
  imports Rounds Shard
begin

text \<open>
  The Dolev-Strong module (consensusMod/ds/handler_ds.go, handler_ds_m.go): one broadcast
  instance per \<open>Init\<close> message.  A handler returns the new state, its effects in order and how
  its goroutine ends; a goroutine that polls for ever keeps the changes it made before.  The
  two goroutines started by \<open>HandleInitMsg\<close> sleep until a point in time and are entries of
  \<open>timers\<close>; \<open>ds_fire\<close> is what one does when it wakes up.  BLS and hash are arguments.
\<close>

datatype ds_timer = CommitTimer | DoneTimer

record ds =
  ds_Nid :: int
  ds_view :: int
  ds_Ipaddr :: string
  ds_SecKey :: "bytes option"
  startTime :: "time atomic_value"
  ExtrSet :: "string goset"
  CommitValue :: string
  timers :: "(time \<times> ds_timer) list"

definition NewDSCosensusMod :: "int \<Rightarrow> string \<Rightarrow> bytes option \<Rightarrow> time \<Rightarrow> ds" where
  "NewDSCosensusMod nid ip sk now =
     \<lparr>ds_Nid = nid, ds_view = 0, ds_Ipaddr = ip, ds_SecKey = sk, startTime = NewAtomicValue now,
      ExtrSet = NewSet, CommitValue = [], timers = []\<rparr>"

type_synonym ds_result = "ds \<times> effect list \<times> fin"

definition HandleInitMsg :: "config \<Rightarrow> time \<Rightarrow> message \<Rightarrow> ds \<Rightarrow> ds_result" where
  "HandleInitMsg c now msg s =
     (case decode_time (msg_Content msg) of
        None \<Rightarrow> (s, [], Done)
      | Some start \<Rightarrow>
          let s1 = s\<lparr>startTime := snd (av_Set start None (startTime s)), ExtrSet := Clear (ExtrSet s)\<rparr>;
              delayDuration = (maliciousNodes c + 1) * TickInterval c * Millisecond;
              commitTime = av_Get (startTime s1) + delayDuration;
              s2 = s1\<lparr>timers := timers s1 @ [(commitTime, CommitTimer)]\<rparr>;
              s3 = (if ds_Nid s2 = ds_view s2
                    then s2\<lparr>timers := timers s2 @ [(now + TickInterval c * (NodeNum c + 7) * Millisecond, DoneTimer)]\<rparr>
                    else s2)
          in (s3, [], Done))"

text \<open>The body of the commit goroutine; \<open>ord\<close> is the iteration order of the set.\<close>

definition ds_commit :: "(string list \<Rightarrow> string list) \<Rightarrow> ds \<Rightarrow> ds" where
  "ds_commit ord s =
     (if Size (ExtrSet s) = 1 then s\<lparr>CommitValue := GetItems ord (ExtrSet s) ! 0\<rparr>
      else s\<lparr>CommitValue := ''0''\<rparr>)"

definition ds_fire :: "(string list \<Rightarrow> string list) \<Rightarrow> ds_timer \<Rightarrow> ds \<Rightarrow> ds_result" where
  "ds_fire ord t s =
     (case t of
        CommitTimer \<Rightarrow> (ds_commit ord s, [], Done)
      | DoneTimer \<Rightarrow> (s, [CallHandler MsgConsensusDone], Done))"

text \<open>\<open>checkSigList\<close> is a stub.\<close>

definition checkSigList :: "signature option list \<Rightarrow> bool" where
  "checkSigList sigs = True"

definition forward_msg :: "ds_sig_list \<Rightarrow> message" where
  "forward_msg l = \<lparr>MsgType = MsgForward, msg_Content = PDsSigList l\<rparr>"

definition HandleProposeMsg ::
  "config \<Rightarrow> bls \<Rightarrow> (bytes \<Rightarrow> bytes) \<Rightarrow> (nat \<Rightarrow> reading) \<Rightarrow> message \<Rightarrow> ds \<Rightarrow> ds_result" where
  "HandleProposeMsg c B sha256 clk msg s =
     (case decode_request (msg_Content msg) of
        None \<Rightarrow> (s, [], Done)
      | Some req \<Rightarrow>
          let s1 = s\<lparr>ExtrSet := Add (Content req) (ExtrSet s)\<rparr> in
          if ds_Nid s1 \<noteq> ds_view s1 then
            if TickInterval c = 0 then (s1, [], Crashes DivideByZero)
            else
              (case wait_round c 1 clk 0 of
                 None \<Rightarrow> (s1, [], Spins)
               | Some _ \<Rightarrow>
                   (s1, [Broadcast 0 (forward_msg
                      \<lparr>dl_Req = req, dl_SigList = [Sig req, Sign B sha256 (ds_SecKey s1) (Content req)],
                       dl_NodeList = [ds_view s1, ds_Nid s1]\<rparr>)], Done))
          else (s1, [], Done))"

text \<open>Reading 0 of the clock gives the handler's round, the later ones belong to the loop.\<close>

definition HandleForwardMsg ::
  "config \<Rightarrow> bls \<Rightarrow> (bytes \<Rightarrow> bytes) \<Rightarrow> (nat \<Rightarrow> reading) \<Rightarrow> message \<Rightarrow> ds \<Rightarrow> ds_result" where
  "HandleForwardMsg c B sha256 clk msg s =
     (case decode_ds_sig_list (msg_Content msg) of
        None \<Rightarrow> (s, [], Done)
      | Some l \<Rightarrow>
          if TickInterval c = 0 then (s, [], Crashes DivideByZero)
          else
            let round = round_at c (clk 0);
                sigLen = length (dl_SigList l);
                v = Content (dl_Req l) in
            if Contains v (ExtrSet s) then (s, [], Done)
            else if \<not> checkSigList (dl_SigList l) then (s, [], Done)
            else
              let warned = (int sigLen \<noteq> round \<and> int sigLen \<noteq> round + 1);
                  s1 = s\<lparr>ExtrSet := Add v (ExtrSet s)\<rparr> in
              (case wait_round c (int sigLen) clk 1 of
                 None \<Rightarrow> (s1, [], Spins)
               | Some _ \<Rightarrow>
                   (s1, [Broadcast 0 (forward_msg (l\<lparr>
                      dl_SigList := dl_SigList l @ [Sign B sha256 (ds_SecKey s1) v],
                      dl_NodeList := dl_NodeList l @ [ds_Nid s1]\<rparr>))], Done)))"

definition handleQueryMsg :: "message \<Rightarrow> ds \<Rightarrow> ds_result" where
  "handleQueryMsg msg s =
     (case decode_string (msg_Content msg) of
        None \<Rightarrow> (s, [], Done)
      | Some ip \<Rightarrow>
          (s, [SendTo ip \<lparr>MsgType = MsgReplyQuery, msg_Content = PString (CommitValue s)\<rparr>], Done))"

text \<open>The handlers of a malicious node other than the view node.\<close>

definition HandleInitMsg_m :: "message \<Rightarrow> ds \<Rightarrow> ds_result" where
  "HandleInitMsg_m msg s = (s, [], Done)"

definition HandleProposeMsg_m :: "message \<Rightarrow> ds \<Rightarrow> ds_result" where
  "HandleProposeMsg_m msg s = (s, [], Done)"

definition HandleForwardMsg_m :: "message \<Rightarrow> ds \<Rightarrow> ds_result" where
  "HandleForwardMsg_m msg s = (s, [], Done)"

definition handleQueryMsg_m :: "message \<Rightarrow> ds \<Rightarrow> ds_result" where
  "handleQueryMsg_m msg s = (s, [], Done)"

text \<open>\<open>RegisterHandlers\<close>, as the dispatch it sets up; other message types have no handler.\<close>

definition ds_dispatch ::
  "config \<Rightarrow> bls \<Rightarrow> (bytes \<Rightarrow> bytes) \<Rightarrow> (nat \<Rightarrow> reading) \<Rightarrow> message \<Rightarrow> ds \<Rightarrow> ds_result" where
  "ds_dispatch c B sha256 clk msg s =
     (if IsMalicious c \<and> ds_Nid s \<noteq> ViewNodeId c then
        (case MsgType msg of
           MsgInit \<Rightarrow> HandleInitMsg_m msg s
         | MsgPropose \<Rightarrow> HandleProposeMsg_m msg s
         | MsgForward \<Rightarrow> HandleForwardMsg_m msg s
         | MsgQuery \<Rightarrow> handleQueryMsg_m msg s
         | _ \<Rightarrow> (s, [], Done))
      else
        (case MsgType msg of
           MsgInit \<Rightarrow> HandleInitMsg c (fst (clk 0)) msg s
         | MsgPropose \<Rightarrow> HandleProposeMsg c B sha256 clk msg s
         | MsgForward \<Rightarrow> HandleForwardMsg c B sha256 clk msg s
         | MsgQuery \<Rightarrow> handleQueryMsg msg s
         | _ \<Rightarrow> (s, [], Done)))"

lemmas ds_defs = HandleInitMsg_def HandleProposeMsg_def HandleForwardMsg_def handleQueryMsg_def
  HandleInitMsg_m_def HandleProposeMsg_m_def HandleForwardMsg_m_def handleQueryMsg_m_def checkSigList_def

section \<open>The value a message carries\<close>

definition value_of :: "message \<Rightarrow> string option" where
  "value_of m =
     (case MsgType m of
        MsgPropose \<Rightarrow> map_option Content (decode_request (msg_Content m))
      | MsgForward \<Rightarrow> map_option (\<lambda>l. Content (dl_Req l)) (decode_ds_sig_list (msg_Content m))
      | _ \<Rightarrow> None)"

definition honest_cfg :: "config \<Rightarrow> bool" where
  "honest_cfg c \<longleftrightarrow> \<not> IsMalicious c \<and> 0 < TickInterval c"

text \<open>A step that is not an \<open>Init\<close> adds the value of its message to the extracted set.\<close>

lemma dispatch_extr:
  assumes "honest_cfg c" and "MsgType m \<noteq> MsgInit" and "set_invar (ExtrSet s)"
    and "ds_dispatch c B sha clk m s = (s', es, e)"
  shows "set_invar (ExtrSet s') \<and> elems (ExtrSet s') = elems (ExtrSet s) \<union> set_option (value_of m) \<and>
    CommitValue s' = CommitValue s \<and> timers s' = timers s \<and> startTime s' = startTime s"
proof -
  have a: "set_invar (Add v (ExtrSet s))" "elems (Add v (ExtrSet s)) = insert v (elems (ExtrSet s))" for v
    using gs.invar_add [OF assms(3)] gs.abs_add [OF assms(3)] by auto
  have c: "Contains v (ExtrSet s) \<longleftrightarrow> v \<in> elems (ExtrSet s)" for v
    by (rule gs.contains_iff [OF assms(3)])
  have h: "\<not> IsMalicious c" "TickInterval c \<noteq> 0" using assms(1) by (auto simp: honest_cfg_def)
  show ?thesis
  proof (cases "MsgType m = MsgPropose \<or> MsgType m = MsgForward")
    case True
    then show ?thesis
    proof
      assume p: "MsgType m = MsgPropose"
      with assms(3,4) h show ?thesis
        by (auto simp: ds_dispatch_def HandleProposeMsg_def value_of_def a Let_def
            split: option.splits if_splits)
    next
      assume p: "MsgType m = MsgForward"
      with assms(3,4) h show ?thesis
        by (auto simp: ds_dispatch_def HandleForwardMsg_def checkSigList_def value_of_def a c Let_def
            split: option.splits if_splits)
    qed
  next
    case False
    then have "value_of m = None" by (auto simp: value_of_def split: MessageType.splits)
    with False assms h show ?thesis
      by (auto simp: ds_dispatch_def handleQueryMsg_def split: MessageType.splits option.splits)
  qed
qed

text \<open>Serving a list of messages, each with its own clock readings.\<close>

fun ds_serve :: "config \<Rightarrow> bls \<Rightarrow> (bytes \<Rightarrow> bytes) \<Rightarrow> ((nat \<Rightarrow> reading) \<times> message) list \<Rightarrow> ds \<Rightarrow> ds" where
  "ds_serve c B sha256 [] s = s"
| "ds_serve c B sha256 ((clk, m) # ms) s = ds_serve c B sha256 ms (fst (ds_dispatch c B sha256 clk m s))"

definition values_of :: "((nat \<Rightarrow> reading) \<times> message) list \<Rightarrow> string set" where
  "values_of ms = (\<Union>m \<in> snd ` set ms. set_option (value_of m))"

lemma ds_serve_extr:
  assumes "honest_cfg c" and "\<forall>m \<in> snd ` set ms. MsgType m \<noteq> MsgInit" and "set_invar (ExtrSet s)"
  shows "set_invar (ExtrSet (ds_serve c B sha ms s)) \<and>
    elems (ExtrSet (ds_serve c B sha ms s)) = elems (ExtrSet s) \<union> values_of ms"
  using assms(2,3)
proof (induction ms arbitrary: s)
  case (Cons p ms)
  obtain clk m where p: "p = (clk, m)" by (cases p)
  obtain s1 es e where d: "ds_dispatch c B sha clk m s = (s1, es, e)" by (metis prod_cases3)
  from Cons.prems p have "MsgType m \<noteq> MsgInit" by simp
  from dispatch_extr [OF assms(1) this Cons.prems(2) d] Cons.IH [of s1] Cons.prems(1) p d show ?case
    by (auto simp: values_of_def)
qed (simp add: values_of_def)

lemma ds_commit_value:
  assumes "map_order ord" and "set_invar (ExtrSet s)"
  shows "CommitValue (ds_commit ord s) =
    (if \<exists>v. elems (ExtrSet s) = {v} then the_elem (elems (ExtrSet s)) else ''0'')"
proof (cases "\<exists>v. elems (ExtrSet s) = {v}")
  case True
  then obtain v where v: "elems (ExtrSet s) = {v}" by blast
  with gs.size_card [OF assms(2)] have "Size (ExtrSet s) = 1" by simp
  with GetItems_singleton [OF assms v] v show ?thesis by (simp add: ds_commit_def)
next
  case False
  have "Size (ExtrSet s) \<noteq> 1"
    using False gs.size_card [OF assms(2)] by (metis card_1_singletonE)
  with False show ?thesis by (simp add: ds_commit_def)
qed

lemma ds_after_init:
  assumes "honest_cfg c" and "map_order ord" and "decode_time (msg_Content init) = Some t"
    and "\<forall>m \<in> snd ` set ms. MsgType m \<noteq> MsgInit"
  shows "CommitValue (ds_commit ord (ds_serve c B sha ms (fst (HandleInitMsg c now init s)))) =
    (if \<exists>v. values_of ms = {v} then the_elem (values_of ms) else ''0'')"
proof -
  let ?s0 = "fst (HandleInitMsg c now init s)"
  have "elems (ExtrSet ?s0) = {} \<and> set_invar (ExtrSet ?s0)"
    using assms(3) by (simp add: HandleInitMsg_def Let_def Clear_def elems_def set_invar_def)
  with ds_serve_extr [OF assms(1,4), of ?s0 B sha] ds_commit_value [OF assms(2)]
  show ?thesis by simp
qed

section \<open>Properties\<close>

text \<open>
  C12: the value a node commits is a function of the set of values it received since the last
  \<open>Init\<close>: if every propose and forward message carried the same value \<open>v\<close> and there was one,
  it commits \<open>v\<close>, otherwise \<open>0\<close>.  Order, repetition, signature lists, clock readings and the
  iteration order of the set do not matter.
\<close>

theorem ds_commit_rule:
  assumes "honest_cfg c" and "map_order ord" and "decode_time (msg_Content init) = Some t"
    and "\<forall>m \<in> snd ` set ms. MsgType m \<noteq> MsgInit"
  shows "CommitValue (ds_commit ord (ds_serve c B sha ms (fst (HandleInitMsg c now init s)))) =
    (if \<exists>v. values_of ms = {v} then the_elem (values_of ms) else ''0'')"
  by (rule ds_after_init [OF assms])

text \<open>
  Agreement follows for nodes that received the same set of values: two honest nodes, with
  whatever schedules, clocks and set orders, then commit the same value.
\<close>

theorem ds_agreement:
  assumes "honest_cfg c" and "map_order ord1" and "map_order ord2"
    and "decode_time (msg_Content init) = Some t"
    and "\<forall>m \<in> snd ` set ms1 \<union> snd ` set ms2. MsgType m \<noteq> MsgInit" and "values_of ms1 = values_of ms2"
  shows "CommitValue (ds_commit ord1 (ds_serve c B sha ms1 (fst (HandleInitMsg c now1 init s1)))) =
    CommitValue (ds_commit ord2 (ds_serve c B sha ms2 (fst (HandleInitMsg c now2 init s2))))"
  using ds_after_init [OF assms(1,2,4), of ms1] ds_after_init [OF assms(1,3,4), of ms2] assms(5,6)
  by simp

text \<open>
  A forwarded value that is new to the node is always extracted, whatever its signature list
  holds; it is relayed when the round is still below the number of signatures, and otherwise (a
  message of the current round or a late one) the goroutine polls for ever and relays nothing.
\<close>

theorem ds_forward_relay:
  assumes "0 < TickInterval c" and "steady clk" and "\<not> Contains (Content (dl_Req l)) (ExtrSet s)"
  shows "HandleForwardMsg c B sha clk (forward_msg l) s =
    (let s' = s\<lparr>ExtrSet := Add (Content (dl_Req l)) (ExtrSet s)\<rparr> in
     if round_at c (clk 1) < int (length (dl_SigList l))
     then (s', [Broadcast 0 (forward_msg (l\<lparr>
                dl_SigList := dl_SigList l @ [Sign B sha (ds_SecKey s) (Content (dl_Req l))],
                dl_NodeList := dl_NodeList l @ [ds_Nid s]\<rparr>))], Done)
     else (s', [], Spins))"
proof -
  have "wait_round c b clk 1 = (if round_at c (clk 1) < b then Some 1 else None)" for b
  proof (cases "round_at c (clk 1) < b")
    case False
    have "round_at c (clk 1) \<le> round_at c (clk j)" if "1 \<le> j" for j
      using assms(1,2) that unfolding steady_def by (intro round_at_mono) metis+
    with False have "wait_round c b clk 1 = None"
      unfolding wait_round_None_iff by (meson le_less_trans)
    with False show ?thesis by simp
  qed (simp add: wait_round.simps)
  with assms(1,3) show ?thesis
    by (simp add: HandleForwardMsg_def forward_msg_def checkSigList_def Let_def)
qed

fun ds_effects :: "config \<Rightarrow> bls \<Rightarrow> (bytes \<Rightarrow> bytes) \<Rightarrow> ((nat \<Rightarrow> reading) \<times> message) list \<Rightarrow> ds \<Rightarrow> effect list" where
  "ds_effects c B sha256 [] s = []"
| "ds_effects c B sha256 ((clk, m) # ms) s =
     (case ds_dispatch c B sha256 clk m s of (s', es, _) \<Rightarrow> es @ ds_effects c B sha256 ms s')"

definition relays :: "string \<Rightarrow> effect list \<Rightarrow> nat" where
  "relays v es = length (filter (\<lambda>e. case e of
     Broadcast n m \<Rightarrow> MsgType m = MsgForward \<and> value_of m = Some v | _ \<Rightarrow> False) es)"

definition proposals :: "string \<Rightarrow> ((nat \<Rightarrow> reading) \<times> message) list \<Rightarrow> nat" where
  "proposals v ms = length (filter (\<lambda>m. MsgType (snd m) = MsgPropose \<and> value_of (snd m) = Some v) ms)"

lemma value_of_forward [simp]: "value_of (forward_msg l) = Some (Content (dl_Req l))" "MsgType (forward_msg l) = MsgForward"
  by (simp_all add: value_of_def forward_msg_def)

lemma dispatch_relays:
  assumes "honest_cfg c" and "MsgType m \<noteq> MsgInit" and "set_invar (ExtrSet s)"
    and d: "ds_dispatch c B sha clk m s = (s', es, e)"
  shows "relays v es \<le> (if MsgType m = MsgPropose \<and> value_of m = Some v then 1 else 0) +
    (if v \<notin> elems (ExtrSet s) \<and> v \<in> elems (ExtrSet s') then 1 else 0)"
proof -
  have h: "\<not> IsMalicious c" "TickInterval c \<noteq> 0" using assms(1) by (auto simp: honest_cfg_def)
  note x = dispatch_extr [OF assms]
  have c: "Contains v (ExtrSet s) \<longleftrightarrow> v \<in> elems (ExtrSet s)" for v
    by (rule gs.contains_iff [OF assms(3)])
  have nil: "relays v [] = 0" "relays v [SendTo a b] = 0" for a b by (simp_all add: relays_def)
  show ?thesis
  proof (cases "MsgType m")
    case MsgPropose
    with d h show ?thesis
      by (auto simp: ds_dispatch_def HandleProposeMsg_def value_of_def [of m] relays_def Let_def
          split: option.splits if_splits)
  next
    case MsgForward
    with d h x show ?thesis
      by (auto simp: ds_dispatch_def HandleForwardMsg_def checkSigList_def value_of_def [of m] relays_def c Let_def
          split: option.splits if_splits)
  qed (use d h assms(2) nil in \<open>auto simp: ds_dispatch_def handleQueryMsg_def split: option.splits\<close>)
qed

lemma relays_append: "relays v (es @ es') = relays v es + relays v es'"
  by (simp add: relays_def)

text \<open>
  A node relays a value at most once besides answering proposals: in every sequence of messages
  between two \<open>Init\<close>s, the forward messages it broadcasts for a value number at most the
  proposals of that value plus one, and none beyond the proposals once it has extracted it.
\<close>

theorem ds_relay_once:
  assumes "honest_cfg c" and "\<forall>m \<in> snd ` set ms. MsgType m \<noteq> MsgInit" and "set_invar (ExtrSet s)"
  shows "relays v (ds_effects c B sha ms s) \<le> proposals v ms + (if v \<in> elems (ExtrSet s) then 0 else 1)"
  using assms(2,3)
proof (induction ms arbitrary: s)
  case (Cons p ms)
  obtain clk m where p: "p = (clk, m)" by (cases p)
  obtain s1 es e where d: "ds_dispatch c B sha clk m s = (s1, es, e)" by (metis prod_cases3)
  from Cons.prems p have "MsgType m \<noteq> MsgInit" by simp
  note x = dispatch_extr [OF assms(1) this Cons.prems(2) d] and
    r = dispatch_relays [OF assms(1) this Cons.prems(2) d, of v]
  from Cons.IH [of s1] Cons.prems(1) x p
  have "relays v (ds_effects c B sha ms s1) \<le> proposals v ms + (if v \<in> elems (ExtrSet s1) then 0 else 1)" by simp
  moreover have "proposals v (p # ms) = proposals v ms + (if MsgType m = MsgPropose \<and> value_of m = Some v then 1 else 0)"
    by (simp add: proposals_def p)
  ultimately show ?case using r x by (simp add: p d relays_append split: if_splits)
qed (simp add: relays_def)

text \<open>
  On the view node the commit goroutine wakes up before the one that ends the round, if the
  protocol starts at most six ticks after the \<open>Init\<close> message is handled.
\<close>

theorem ds_commit_before_done:
  assumes "f64_unit (MaliciousRatio c)" and "0 \<le> NodeNum c" and "NodeNum c < 2 ^ 53" and "0 < TickInterval c"
    and "ds_Nid s = ds_view s" and "decode_time (msg_Content m) = Some start"
    and "onUpdate (startTime s) = None" and "timers s = []"
    and "start \<le> now + 6 * TickInterval c * Millisecond"
  shows "\<exists>tc td. timers (fst (HandleInitMsg c now m s)) = [(tc, CommitTimer), (td, DoneTimer)] \<and> tc \<le> td"
proof -
  let ?T = "TickInterval c * Millisecond"
  have "maliciousNodes c \<le> NodeNum c"
    using f64_scale_bounds [OF assms(1-3)] by (simp add: maliciousNodes_def)
  then have "(maliciousNodes c + 1) * ?T \<le> (NodeNum c + 1) * ?T"
    using assms(4) by (intro mult_right_mono) (simp_all add: Millisecond_def)
  moreover have "now + 6 * ?T + (NodeNum c + 1) * ?T = now + (NodeNum c + 7) * ?T" by (simp add: algebra_simps)
  ultimately have "start + (maliciousNodes c + 1) * ?T \<le> now + (NodeNum c + 7) * ?T" using assms(9) by simp
  then have le: "start + (maliciousNodes c + 1) * TickInterval c * Millisecond
      \<le> now + TickInterval c * (NodeNum c + 7) * Millisecond" by (simp only: mult.assoc mult.left_commute)
  have "timers (fst (HandleInitMsg c now m s)) =
      [(start + (maliciousNodes c + 1) * TickInterval c * Millisecond, CommitTimer),
       (now + TickInterval c * (NodeNum c + 7) * Millisecond, DoneTimer)]"
    using assms(5-8) by (simp add: HandleInitMsg_def av_Set_nil av_Get_def Let_def)
  with le show ?thesis by blast
qed

section \<open>Concrete runs\<close>

definition ds_cfg :: config where
  "ds_cfg = example_config\<lparr>TickInterval := 1000, NodeNum := 4, IsMalicious := False\<rparr>"

definition ds_node :: ds where
  "ds_node = NewDSCosensusMod 1 ''n1'' (Some ''k'') 0"

definition ds_req :: "string \<Rightarrow> request" where
  "ds_req v = \<lparr>ShardId = 0, ReqType = ReqVerifyString, Content = v, ReqTime = 0, Digest = v, Sig = None\<rparr>"

definition still :: "nat \<Rightarrow> reading" where
  "still = (\<lambda>i. (0, 0))"

definition ds_init :: message where
  "ds_init = \<lparr>MsgType = MsgInit, msg_Content = PTime 0\<rparr>"

definition ds_propose :: "string \<Rightarrow> message" where
  "ds_propose v = \<lparr>MsgType = MsgPropose, msg_Content = PRequest (ds_req v)\<rparr>"

definition unsigned_forward :: "string \<Rightarrow> message" where
  "unsigned_forward v = forward_msg \<lparr>dl_Req = ds_req v, dl_SigList = [], dl_NodeList = []\<rparr>"

lemma ds_cfg_honest: "honest_cfg ds_cfg"
  by (simp add: honest_cfg_def ds_cfg_def)

lemma ds_msgs [simp]:
  "value_of (ds_propose v) = Some v" "value_of (unsigned_forward v) = Some v"
  "MsgType (ds_propose v) = MsgPropose" "MsgType (unsigned_forward v) = MsgForward"
  "decode_time (msg_Content ds_init) = Some 0"
  by (simp_all add: value_of_def ds_propose_def unsigned_forward_def forward_msg_def ds_req_def ds_init_def)

text \<open>
  Signatures are not checked: after an honest proposal of \<open>A\<close> a single forward message with an
  empty signature list, from anybody and for any other value, makes the node commit \<open>0\<close>.
\<close>

theorem ds_unsigned_forward_disrupts:
  "CommitValue (ds_commit (\<lambda>xs. xs) (ds_serve ds_cfg pair_bls (\<lambda>m. m) [(still, ds_propose ''A'')]
      (fst (HandleInitMsg ds_cfg 0 ds_init ds_node)))) = ''A'' \<and>
   CommitValue (ds_commit (\<lambda>xs. xs) (ds_serve ds_cfg pair_bls (\<lambda>m. m)
      [(still, ds_propose ''A''), (still, unsigned_forward ''B'')]
      (fst (HandleInitMsg ds_cfg 0 ds_init ds_node)))) = ''0''"
  using ds_after_init [OF ds_cfg_honest map_order_id ds_msgs(5), of "[(still, ds_propose ''A'')]"]
    ds_after_init [OF ds_cfg_honest map_order_id ds_msgs(5),
      of "[(still, ds_propose ''A''), (still, unsigned_forward ''B'')]"]
  by (simp add: values_of_def)

theorem ds_commit_rule_witness:
  "CommitValue (ds_commit rev (ds_serve ds_cfg pair_bls (\<lambda>m. m)
      [(still, ds_propose ''A''), (still, unsigned_forward ''A'')]
      (fst (HandleInitMsg ds_cfg 0 ds_init ds_node)))) = ''A''"
  using ds_commit_rule [OF ds_cfg_honest map_order_rev ds_msgs(5),
      of "[(still, ds_propose ''A''), (still, unsigned_forward ''A'')]"]
  by (simp add: values_of_def)

theorem ds_agreement_witness:
  "CommitValue (ds_commit rev (ds_serve ds_cfg pair_bls (\<lambda>m. m)
      [(still, ds_propose ''A''), (still, unsigned_forward ''B'')] (fst (HandleInitMsg ds_cfg 0 ds_init ds_node)))) =
   CommitValue (ds_commit (\<lambda>xs. xs) (ds_serve ds_cfg pair_bls (\<lambda>m. m)
      [(still, unsigned_forward ''B''), (still, ds_propose ''A'')] (fst (HandleInitMsg ds_cfg 5 ds_init ds_node))))"
  by (rule ds_agreement [OF ds_cfg_honest map_order_rev map_order_id ds_msgs(5)]) (auto simp: values_of_def)

theorem ds_forward_relay_witness:
  "snd (snd (HandleForwardMsg ds_cfg pair_bls (\<lambda>m. m) still (unsigned_forward ''B'') ds_node)) = Spins"
proof -
  have "0 < TickInterval ds_cfg" "steady still" "round_at ds_cfg (still 1) = 0"
    "\<not> Contains (Content (ds_req ''B'')) (ExtrSet ds_node)"
    by (simp_all add: ds_cfg_def steady_def still_def round_at_def Milliseconds_def sdiv_pos_eq_div
        Millisecond_def ds_node_def NewDSCosensusMod_def Contains_def NewSet_def)
  with ds_forward_relay [of ds_cfg still "\<lparr>dl_Req = ds_req ''B'', dl_SigList = [], dl_NodeList = []\<rparr>" ds_node]
  show ?thesis by (simp add: unsigned_forward_def Let_def)
qed

theorem ds_relay_once_witness:
  "relays ''B'' (ds_effects ds_cfg pair_bls (\<lambda>m. m)
     [(still, unsigned_forward ''B''), (still, unsigned_forward ''B'')] ds_node) \<le> 1"
  using ds_relay_once [OF ds_cfg_honest, of "[(still, unsigned_forward ''B''), (still, unsigned_forward ''B'')]" ds_node "''B''"]
  by (simp add: ds_node_def NewDSCosensusMod_def NewSet_def set_invar_def elems_def proposals_def)

theorem ds_commit_before_done_witness:
  "\<exists>tc td. timers (fst (HandleInitMsg ds_cfg 0 ds_init (ds_node\<lparr>ds_Nid := 0\<rparr>))) =
     [(tc, CommitTimer), (td, DoneTimer)] \<and> tc \<le> td"
proof -
  have "f64_unit (MaliciousRatio ds_cfg)"
    using f64_unit_examples by (simp add: ds_cfg_def example_config_def)
  moreover have "(0::time) \<le> 0 + 6 * TickInterval ds_cfg * Millisecond" by (simp add: ds_cfg_def Millisecond_def)
  ultimately show ?thesis
    by (intro ds_commit_before_done [OF _ _ _ _ _ ds_msgs(5)])
      (simp_all add: ds_cfg_def ds_node_def NewDSCosensusMod_def NewAtomicValue_def)
qed

end
