(* ===== verification/Network.thy ===== *)
theory Network
  imports Message Config Shard
begin

text \<open>
  The network module (node/p2p/): the table of message handlers, the connection manager and the
  start-up helpers that wait until the nodes listen.  Sockets are an argument: whether a dial
  succeeds, whether a write succeeds and whether a port listens are inputs of the operations, and
  so is the choice that \<open>sync.Pool\<close> makes (a stored connection or a new one).
\<close>

section \<open>The handler table\<close>

type_synonym 'h handlers = "MessageType \<rightharpoonup> 'h"

definition RegisterHandler :: "MessageType \<Rightarrow> 'h \<Rightarrow> 'h handlers \<Rightarrow> 'h handlers" where
  "RegisterHandler msgType handler hs = hs(msgType \<mapsto> handler)"

text \<open>What \<open>handleConnection\<close> starts for a message: a goroutine, or nothing but an error line.\<close>

definition handler_for :: "'h handlers \<Rightarrow> message \<Rightarrow> 'h option" where
  "handler_for hs msg = hs (MsgType msg)"

text \<open>A direct call \<open>MsgHandlerMap[t](m)\<close> of a missing entry calls a nil function.\<close>

definition call_handler :: "'h handlers \<Rightarrow> MessageType \<Rightarrow> panic + 'h" where
  "call_handler hs t = (case hs t of None \<Rightarrow> Inl NilDereference | Some h \<Rightarrow> Inr h)"

text \<open>The messages of one connection, line by line; \<open>None\<close> is the end of the stream or an error.\<close>

fun handleConnection :: "'h handlers \<Rightarrow> message option list \<Rightarrow> ('h \<times> message) list" where
  "handleConnection hs [] = []"
| "handleConnection hs (None # ms) = []"
| "handleConnection hs (Some m # ms) =
     (case handler_for hs m of
        None \<Rightarrow> handleConnection hs ms
      | Some h \<Rightarrow> (h, m) # handleConnection hs ms)"

section \<open>Connections\<close>

text \<open>
  Connections are numbered per address in the order they were dialled.  \<open>pooled m addr\<close> is the
  content of the pool of an address, \<open>dialled m addr\<close> the number of connections opened to it.
\<close>

record conn_manager =
  pooled :: "string \<Rightarrow> nat list"
  dialled :: "string \<Rightarrow> nat"
  closed_conns :: "(string \<times> nat) list"

definition NewConnManager :: conn_manager where
  "NewConnManager = \<lparr>pooled = (\<lambda>_. []), dialled = (\<lambda>_. 0), closed_conns = []\<rparr>"

text \<open>
  \<open>sync.Pool.Get\<close>: with \<open>Some i\<close> the pool hands out its \<open>i\<close>-th connection, otherwise (or when there
  is none) it calls \<open>New\<close>, which dials and returns nil when the dial fails.
\<close>

definition pool_Get :: "string \<Rightarrow> nat option \<Rightarrow> bool \<Rightarrow> conn_manager \<Rightarrow> nat option \<times> conn_manager" where
  "pool_Get addr pick up m =
     (let p = pooled m addr in
      case pick of
        Some i \<Rightarrow>
          if i < length p then (Some (p ! i), m\<lparr>pooled := (pooled m)(addr := take i p @ drop (Suc i) p)\<rparr>)
          else if up then (Some (dialled m addr), m\<lparr>dialled := (dialled m)(addr := dialled m addr + 1)\<rparr>)
          else (None, m)
      | None \<Rightarrow>
          if up then (Some (dialled m addr), m\<lparr>dialled := (dialled m)(addr := dialled m addr + 1)\<rparr>)
          else (None, m))"

definition pool_Put :: "string \<Rightarrow> nat \<Rightarrow> conn_manager \<Rightarrow> conn_manager" where
  "pool_Put addr c m = m\<lparr>pooled := (pooled m)(addr := pooled m addr @ [c])\<rparr>"

datatype send_result = NoConnection | NoSecondConnection | WriteFailed | Sent

record send_input =
  pick1 :: "nat option"
  up1 :: bool
  pick2 :: "nat option"
  up2 :: bool
  write_ok :: bool

text \<open>
  \<open>Send\<close> asks the pool twice; the first connection is only compared with nil.  The deferred \<open>Put\<close>
  also runs after a failed write, when the connection has been closed.
\<close>

definition Send :: "string \<Rightarrow> send_input \<Rightarrow> conn_manager \<Rightarrow> send_result \<times> conn_manager" where
  "Send addr i m =
     (case pool_Get addr (pick1 i) (up1 i) m of
        (None, m1) \<Rightarrow> (NoConnection, m1)
      | (Some _, m1) \<Rightarrow>
          (case pool_Get addr (pick2 i) (up2 i) m1 of
             (None, m2) \<Rightarrow> (NoSecondConnection, m2)
           | (Some c, m2) \<Rightarrow>
               if write_ok i \<and> (addr, c) \<notin> set (closed_conns m2) then (Sent, pool_Put addr c m2)
               else (WriteFailed, pool_Put addr c (m2\<lparr>closed_conns := (addr, c) # closed_conns m2\<rparr>))))"

definition Broadcast_addrs :: "string \<Rightarrow> string list \<Rightarrow> string list" where
  "Broadcast_addrs sender addrs = filter (\<lambda>addr. addr \<noteq> sender) addrs"

fun send_run :: "(string \<times> send_input) list \<Rightarrow> conn_manager \<Rightarrow> send_result list \<times> conn_manager" where
  "send_run [] m = ([], m)"
| "send_run ((addr, i) # is) m =
     (case Send addr i m of (r, m') \<Rightarrow> (case send_run is m' of (rs, m'') \<Rightarrow> (r # rs, m'')))"

text \<open>The sends to an address that got a first connection.\<close>

fun past_first :: "string \<Rightarrow> (string \<times> send_input) list \<Rightarrow> send_result list \<Rightarrow> nat" where
  "past_first addr ((a, i) # is) (r # rs) =
     (if a = addr \<and> r \<noteq> NoConnection then 1 else 0) + past_first addr is rs"
| "past_first addr _ _ = 0"

lemma pool_Get_count:
  assumes "pool_Get addr p up m = (r, m')"
  shows "dialled m' a + length (pooled m a) =
      length (pooled m' a) + dialled m a + (if a = addr \<and> r \<noteq> None then 1 else 0)"
  using assms by (auto simp: pool_Get_def Let_def split: option.splits if_splits)

lemma Send_count:
  assumes "Send addr i m = (r, m')"
  shows "dialled m' a + length (pooled m a) =
      length (pooled m' a) + dialled m a + (if a = addr \<and> r \<noteq> NoConnection then 1 else 0)"
proof -
  obtain c1 m1 where g1: "pool_Get addr (pick1 i) (up1 i) m = (c1, m1)" by fastforce
  obtain c2 m2 where g2: "pool_Get addr (pick2 i) (up2 i) m1 = (c2, m2)" by fastforce
  from assms g1 g2 pool_Get_count [OF g1, of a] pool_Get_count [OF g2, of a] show ?thesis
    by (auto simp: Send_def pool_Put_def split: option.splits if_splits)
qed

text \<open>
  Every send that gets a first connection loses one: however the pool chooses and whatever dials
  and writes fail, the connections opened to an address are those in its pool and one more for
  every such send; so \<open>k\<close> successful sends have opened at least \<open>k\<close> connections.
\<close>

theorem sends_lose_connections:
  assumes "send_run is NewConnManager = (rs, m)"
  shows "dialled m addr = length (pooled m addr) + past_first addr is rs \<and>
    past_first addr is rs \<le> dialled m addr"
proof -
  have "dialled m' addr + length (pooled m addr) =
      length (pooled m' addr) + dialled m addr + past_first addr is rs"
    if "send_run is m = (rs, m')" for m m'
    using that
  proof (induction "is" arbitrary: m rs)
    case (Cons p "is")
    obtain a i where p: "p = (a, i)" by (cases p)
    obtain r m1 where s: "Send a i m = (r, m1)" by fastforce
    obtain rs' m2 where t: "send_run is m1 = (rs', m2)" by fastforce
    from Cons.prems p s t have eq: "rs = r # rs'" "m' = m2" by auto
    from Send_count [OF s, of addr] Cons.IH [of m1 rs'] t eq p show ?case by auto
  qed simp
  from this [OF assms] show ?thesis by (simp add: NewConnManager_def)
qed

definition two_sends :: "(string \<times> send_input) list" where
  "two_sends = [(''a'', \<lparr>pick1 = None, up1 = True, pick2 = None, up2 = True, write_ok = True\<rparr>),
      (''a'', \<lparr>pick1 = Some 0, up1 = True, pick2 = None, up2 = True, write_ok = True\<rparr>)]"

theorem sends_lose_connections_witness:
  "dialled (snd (send_run two_sends NewConnManager)) ''a'' = 3 \<and>
   pooled (snd (send_run two_sends NewConnManager)) ''a'' = [2]"
proof -
  obtain rs m where r: "send_run two_sends NewConnManager = (rs, m)" by fastforce
  have f: "fst (send_run two_sends NewConnManager) = [Sent, Sent]"
    "pooled (snd (send_run two_sends NewConnManager)) ''a'' = [2]"
    by code_simp+
  with r have "dialled m ''a'' = 3"
    using sends_lose_connections [OF r, of "''a''"] by (simp add: two_sends_def)
  with r f show ?thesis by simp
qed

text \<open>
  A connection whose write failed goes back to the pool closed, and a later send that is handed it
  fails although the peer is up.
\<close>

lemma closed_connection_reused:
  "fst (send_run [(''a'', \<lparr>pick1 = None, up1 = True, pick2 = None, up2 = True, write_ok = False\<rparr>),
     (''a'', \<lparr>pick1 = None, up1 = True, pick2 = Some 0, up2 = True, write_ok = True\<rparr>)] NewConnManager) =
   [WriteFailed, WriteFailed]"
  by code_simp

section \<open>Waiting for the nodes\<close>

text \<open>
  Probes are numbered; \<open>up ip k\<close> tells whether probe \<open>k\<close> finds \<open>ip\<close> listening and \<open>clk k\<close> is the
  clock read after it.  After a failed probe the loop sleeps a second and probes again, unless the
  time is up.  The result is whether the wait succeeded and the number of the next probe; a clock
  that stands still would make the loop run for ever.
\<close>

partial_function (option) wait_ip ::
  "(string \<Rightarrow> nat \<Rightarrow> bool) \<Rightarrow> (nat \<Rightarrow> time) \<Rightarrow> time \<Rightarrow> time \<Rightarrow> string \<Rightarrow> nat \<Rightarrow> (bool \<times> nat) option" where
  "wait_ip up clk start timeout ip k =
     (if up ip k then Some (True, Suc k)
      else if timeout < clk k - start then Some (False, Suc k)
      else wait_ip up clk start timeout ip (Suc k))"

fun wait_ips ::
  "(string \<Rightarrow> nat \<Rightarrow> bool) \<Rightarrow> (nat \<Rightarrow> time) \<Rightarrow> time \<Rightarrow> time \<Rightarrow> string list \<Rightarrow> nat \<Rightarrow> (bool \<times> nat) option" where
  "wait_ips up clk start timeout [] k = Some (True, k)"
| "wait_ips up clk start timeout (ip # ips) k =
     (case wait_ip up clk start timeout ip k of
        None \<Rightarrow> None
      | Some (False, k') \<Rightarrow> Some (False, k')
      | Some (True, k') \<Rightarrow> wait_ips up clk start timeout ips k')"

text \<open>A missing entry of the address table reads as the empty string.\<close>

definition ip_of :: "config \<Rightarrow> int \<Rightarrow> int \<Rightarrow> string" where
  "ip_of c i j = (case IPMap c i of None \<Rightarrow> '''' | Some m \<Rightarrow> (case m j of None \<Rightarrow> '''' | Some ip \<Rightarrow> ip))"

definition all_ips :: "config \<Rightarrow> string list" where
  "all_ips c = concat (map (\<lambda>i. map (\<lambda>j. ip_of c i j) [0..NodeNum c - 1]) [0..ShardNum c - 1])"

definition WaitForAllIPsReady ::
  "config \<Rightarrow> (string \<Rightarrow> nat \<Rightarrow> bool) \<Rightarrow> (nat \<Rightarrow> time) \<Rightarrow> time \<Rightarrow> time \<Rightarrow> (bool \<times> nat) option" where
  "WaitForAllIPsReady c up clk start timeout = wait_ips up clk start timeout (all_ips c) 0"

text \<open>\<open>range\<close> visits the keys of the shard's table in the order \<open>keys\<close>.\<close>

definition WaitForShardReady ::
  "config \<Rightarrow> int list \<Rightarrow> int \<Rightarrow> (string \<Rightarrow> nat \<Rightarrow> bool) \<Rightarrow> (nat \<Rightarrow> time) \<Rightarrow> time \<Rightarrow> time \<Rightarrow> (bool \<times> nat) option" where
  "WaitForShardReady c keys sid up clk start timeout =
     wait_ips up clk start timeout (map (ip_of c sid) (filter (\<lambda>i. i \<noteq> ViewNodeId c) keys)) 0"

definition Second :: time where
  "Second = 1000 * Millisecond"

text \<open>\<open>time.Sleep\<close> returns after at least its duration, and the clock does not run backwards.\<close>

definition sleeps :: "(string \<Rightarrow> nat \<Rightarrow> bool) \<Rightarrow> (nat \<Rightarrow> time) \<Rightarrow> bool" where
  "sleeps up clk \<longleftrightarrow> (\<forall>k. clk k \<le> clk (Suc k)) \<and> (\<forall>ip k. \<not> up ip k \<longrightarrow> clk k + Second \<le> clk (Suc k))"

lemma clk_mono: "sleeps up clk \<Longrightarrow> i \<le> j \<Longrightarrow> clk i \<le> clk j"
  by (rule lift_Suc_mono_le [of clk]) (auto simp: sleeps_def)

text \<open>A failed probe costs a second, so there are at most as many as seconds left, plus one.\<close>

lemma wait_ip_returns:
  assumes "sleeps up clk" and "start + timeout - clk k < int n * Second"
  shows "\<exists>b k'. wait_ip up clk start timeout ip k = Some (b, k') \<and> k < k' \<and>
    (b \<longrightarrow> up ip (k' - 1) \<and> start + timeout - clk k' < (int n - int (k' - 1 - k)) * Second) \<and>
    (\<not> b \<longrightarrow> timeout < clk (k' - 1) - start) \<and> k' \<le> Suc k + n"
  using assms(2)
proof (induction n arbitrary: k)
  case 0
  then have "timeout < clk k - start" by simp
  moreover have "clk k \<le> clk (Suc k)" using assms(1) by (simp add: sleeps_def)
  ultimately show ?case by (subst wait_ip.simps) auto
next
  case (Suc n)
  have mono: "clk k \<le> clk (Suc k)" using assms(1) by (simp add: sleeps_def)
  show ?case
  proof (cases "up ip k \<or> timeout < clk k - start")
    case True
    with Suc.prems mono show ?thesis by (subst wait_ip.simps) auto
  next
    case False
    then have "clk k + Second \<le> clk (Suc k)" using assms(1) by (auto simp: sleeps_def)
    with Suc.prems have "start + timeout - clk (Suc k) < int n * Second" by (simp add: algebra_simps)
    from Suc.IH [OF this] obtain b k' where w: "wait_ip up clk start timeout ip (Suc k) = Some (b, k')" "Suc k < k'"
      "b \<longrightarrow> up ip (k' - 1) \<and> start + timeout - clk k' < (int n - int (k' - 1 - Suc k)) * Second"
      "\<not> b \<longrightarrow> timeout < clk (k' - 1) - start" "k' \<le> Suc (Suc k) + n"
      by blast
    then have "int n - int (k' - 1 - Suc k) = int (Suc n) - int (k' - 1 - k)" by linarith
    with w(3) have "b \<longrightarrow> up ip (k' - 1) \<and> start + timeout - clk k' < (int (Suc n) - int (k' - 1 - k)) * Second"
      by (simp only:)
    moreover have "wait_ip up clk start timeout ip k = Some (b, k')" using w(1) False by (subst wait_ip.simps) simp
    moreover have "k < k'" "k' \<le> Suc k + Suc n" using w(2,5) by simp_all
    ultimately show ?thesis using w(4) by blast
  qed
qed

lemma wait_ips_returns:
  assumes "sleeps up clk" and "start + timeout - clk k < int n * Second"
  shows "\<exists>b k'. wait_ips up clk start timeout ips k = Some (b, k') \<and>
    (b \<longrightarrow> (\<forall>ip \<in> set ips. \<exists>j. k \<le> j \<and> j < k' \<and> up ip j)) \<and>
    (\<not> b \<longrightarrow> timeout < clk (k' - 1) - start) \<and> k \<le> k' \<and> k' \<le> k + length ips + n"
  using assms(2)
proof (induction ips arbitrary: k n)
  case (Cons ip ips)
  from wait_ip_returns [OF assms(1) Cons.prems, of ip] obtain b k1 where
    w: "wait_ip up clk start timeout ip k = Some (b, k1)" "k < k1"
      "b \<longrightarrow> up ip (k1 - 1) \<and> start + timeout - clk k1 < (int n - int (k1 - 1 - k)) * Second"
      "\<not> b \<longrightarrow> timeout < clk (k1 - 1) - start" "k1 \<le> Suc k + n"
    by blast
  show ?case
  proof (cases b)
    case False
    with w show ?thesis by auto
  next
    case True
    let ?n = "n - (k1 - 1 - k)"
    have "int ?n = int n - int (k1 - 1 - k)" using w(2,5) by linarith
    with w(3) True have "start + timeout - clk k1 < int ?n * Second" by simp
    from Cons.IH [OF this] obtain b' k2 where
      t: "wait_ips up clk start timeout ips k1 = Some (b', k2)"
        "b' \<longrightarrow> (\<forall>ip \<in> set ips. \<exists>j. k1 \<le> j \<and> j < k2 \<and> up ip j)"
        "\<not> b' \<longrightarrow> timeout < clk (k2 - 1) - start" "k1 \<le> k2" "k2 \<le> k1 + length ips + ?n"
      by blast
    have "up ip (k1 - 1) \<and> k \<le> k1 - 1 \<and> k1 - 1 < k2" using w(2,3) t(4) True by auto
    moreover have "\<exists>j. k \<le> j \<and> j < k2 \<and> up x j" if "b'" "x \<in> set ips" for x
      using t(2) that w(2) by (meson le_less_trans less_imp_le_nat order.trans)
    ultimately show ?thesis using w t True by (auto split: bool.splits)
  qed
qed auto


text \<open>A clock that advances by a second with every probe, and two nodes that come up late.\<close>

definition late_up :: "string \<Rightarrow> nat \<Rightarrow> bool" where
  "late_up ip k \<longleftrightarrow> 2 \<le> k"

definition second_clock :: "nat \<Rightarrow> time" where
  "second_clock k = int k * Second"

definition two_nodes :: config where
  "two_nodes = example_config\<lparr>NodeNum := 2, IPMap := [0 \<mapsto> [0 \<mapsto> ''a'', 1 \<mapsto> ''b'']]\<rparr>"


end
