(* ===== verification/Proposers.thy ===== *)
theory Proposers
  imports Network TxPool Blockchain PBFT
begin

text \<open>
  The proposer modules of the view node (consensusMod/proposeString.go, proposeBlock.go,
  proposeTxs.go).  They receive client input and hand proposals to the consensus module by calling
  its handler directly; such a call is an action \<open>Local\<close>, what goes to the network an action \<open>Out\<close>.
\<close>

datatype action = Out effect | Local message

section \<open>ProposeString\<close>

text \<open>\<open>consensusDone\<close> is the number of tokens in the channel of that name, of capacity 1.\<close>

record propose_string =
  psm_Sid :: int
  psm_SecKey :: "bytes option"
  stringQueue :: "string queue"
  consensusDone :: nat

definition NewProposeStringAuxiliaryMod :: "int \<Rightarrow> bytes option \<Rightarrow> propose_string" where
  "NewProposeStringAuxiliaryMod sid sk =
     \<lparr>psm_Sid = sid, psm_SecKey = sk, stringQueue = NewQueue, consensusDone = 0\<rparr>"

definition psm_handleInject :: "message \<Rightarrow> propose_string \<Rightarrow> propose_string" where
  "psm_handleInject msg s =
     (case decode_string (msg_Content msg) of
        None \<Rightarrow> s
      | Some str \<Rightarrow> s\<lparr>stringQueue := Enqueue str (stringQueue s)\<rparr>)"

text \<open>A non-blocking send.\<close>

definition psm_handleConsensusDone :: "propose_string \<Rightarrow> propose_string" where
  "psm_handleConsensusDone s = (if consensusDone s < 1 then s\<lparr>consensusDone := consensusDone s + 1\<rparr> else s)"

text \<open>
  \<open>Run\<close> as a step function between its blocking points.  \<open>cancelled\<close> is whether the context is
  done, \<open>pick\<close> the choice of \<open>select\<close> between two ready cases; \<open>None\<close> means blocked.
\<close>

datatype string_pc = Polling | WaitStart time string | WaitDone | RunEnded

definition init_msg :: "time \<Rightarrow> message" where
  "init_msg start = \<lparr>MsgType = MsgInit, msg_Content = PTime start\<rparr>"

definition propose_of :: "request \<Rightarrow> message" where
  "propose_of req = \<lparr>MsgType = MsgPropose, msg_Content = PRequest req\<rparr>"

record hash_env =
  he_sha256 :: "bytes \<Rightarrow> bytes"
  he_json :: "request \<Rightarrow> bytes option"

definition string_propose :: "config \<Rightarrow> bls \<Rightarrow> hash_env \<Rightarrow> time \<Rightarrow> string \<Rightarrow> propose_string \<Rightarrow> action list" where
  "string_propose c B H now str s =
     (let sig = Sign B (he_sha256 H) (psm_SecKey s) str;
          req = NewRequestWithSignature (he_sha256 H) (he_json H) now (psm_Sid s) ReqVerifyString str sig;
          bad = NewRequestWithSignature (he_sha256 H) (he_json H) now (psm_Sid s) ReqVerifyString ''bad'' sig in
      if IsMalicious c
      then [Local (propose_of req), Out (SendTo (ip_of c 0 1) (propose_of bad)),
            Out (SendTo (ip_of c 0 2) (propose_of bad))]
      else [Out (Broadcast 0 (propose_of req)), Local (propose_of req)])"

fun string_step ::
  "config \<Rightarrow> bls \<Rightarrow> hash_env \<Rightarrow> time \<Rightarrow> bool \<Rightarrow> bool \<Rightarrow> string_pc \<Rightarrow> propose_string \<Rightarrow>
   (string_pc \<times> propose_string \<times> action list) option" where
  "string_step c B H now cancelled pick Polling s =
     (if cancelled then Some (RunEnded, s, [])
      else
        (case Dequeue (stringQueue s) of
           None \<Rightarrow> Some (Polling, s, [])
         | Some (str, q) \<Rightarrow>
             let start = now + StartTimeWait c * Millisecond in
             Some (WaitStart start str, s\<lparr>stringQueue := q\<rparr>,
               [Out (Broadcast 0 (init_msg start)), Out (SendTo (ClientAddr c) (init_msg start)), Local (init_msg start)])))"
| "string_step c B H now cancelled pick (WaitStart start str) s =
     (if now < start then None else Some (WaitDone, s, string_propose c B H now str s))"
| "string_step c B H now cancelled pick WaitDone s =
     (if 1 \<le> consensusDone s \<and> (pick \<or> \<not> cancelled)
      then Some (Polling, s\<lparr>consensusDone := consensusDone s - 1\<rparr>, [])
      else if cancelled then Some (RunEnded, s, [])
      else None)"
| "string_step c B H now cancelled pick RunEnded s = None"

subsection \<open>Runs of the module\<close>

datatype string_event = SInject message | SDone | SRun time bool bool

record string_sys =
  spc :: string_pc
  proposer :: propose_string
  slog :: "action list"
  injected :: "string list"     \<comment> \<open>the strings received, in order\<close>
  signals :: nat                \<comment> \<open>the number of \<open>ConsensusDone\<close> calls\<close>

definition string_start :: "int \<Rightarrow> bytes option \<Rightarrow> string_sys" where
  "string_start sid sk =
     \<lparr>spc = Polling, proposer = NewProposeStringAuxiliaryMod sid sk, slog = [], injected = [], signals = 0\<rparr>"

fun string_sys_step :: "config \<Rightarrow> bls \<Rightarrow> hash_env \<Rightarrow> string_event \<Rightarrow> string_sys \<Rightarrow> string_sys" where
  "string_sys_step c B H (SInject m) g =
     g\<lparr>proposer := psm_handleInject m (proposer g),
       injected := injected g @ (case decode_string (msg_Content m) of None \<Rightarrow> [] | Some str \<Rightarrow> [str])\<rparr>"
| "string_sys_step c B H SDone g = g\<lparr>proposer := psm_handleConsensusDone (proposer g), signals := signals g + 1\<rparr>"
| "string_sys_step c B H (SRun now cancelled pick) g =
     (case string_step c B H now cancelled pick (spc g) (proposer g) of
        None \<Rightarrow> g
      | Some (pc, s, as) \<Rightarrow> g\<lparr>spc := pc, proposer := s, slog := slog g @ as\<rparr>)"

fun string_run :: "config \<Rightarrow> bls \<Rightarrow> hash_env \<Rightarrow> string_event list \<Rightarrow> string_sys \<Rightarrow> string_sys" where
  "string_run c B H [] g = g"
| "string_run c B H (e # es) g = string_run c B H es (string_sys_step c B H e g)"

text \<open>The strings handed to the consensus module, and the number of \<open>Init\<close> calls, in a log.\<close>

definition proposed_of :: "action \<Rightarrow> string option" where
  "proposed_of a = (case a of Local m \<Rightarrow>
     (if MsgType m = MsgPropose then map_option Content (decode_request (msg_Content m)) else None) | Out e \<Rightarrow> None)"

definition proposed :: "action list \<Rightarrow> string list" where
  "proposed log = List.map_filter proposed_of log"

definition inits :: "action list \<Rightarrow> nat" where
  "inits log = length (filter (\<lambda>a. case a of Local m \<Rightarrow> MsgType m = MsgInit | _ \<Rightarrow> False) log)"

lemma proposed_append [simp]: "proposed (xs @ ys) = proposed xs @ proposed ys"
  by (simp add: proposed_def List.map_filter_def)

lemma inits_append [simp]: "inits (xs @ ys) = inits xs + inits ys"
  by (simp add: inits_def)

lemma log_simps [simp]:
  "proposed [] = []" "inits [] = 0"
  "proposed (a # xs) = (case proposed_of a of None \<Rightarrow> [] | Some v \<Rightarrow> [v]) @ proposed xs"
  "inits (Out e # xs) = inits xs" "inits (Local m # xs) = (if MsgType m = MsgInit then 1 else 0) + inits xs"
  "proposed_of (Out e) = None" "proposed_of (Local (init_msg t)) = None"
  "proposed_of (Local (propose_of r)) = Some (Content r)"
  "MsgType (init_msg t) = MsgInit" "MsgType (propose_of r) = MsgPropose"
  by (simp_all add: proposed_def inits_def proposed_of_def init_msg_def propose_of_def List.map_filter_def
      split: option.split)

lemma string_propose_log [simp]:
  "proposed (string_propose c B H now str s) = [str]" "inits (string_propose c B H now str s) = 0"
  by (simp_all add: string_propose_def NewRequestWithSignature_def Let_def)

fun in_flight :: "string_pc \<Rightarrow> string list" where
  "in_flight (WaitStart start str) = [str]"
| "in_flight pc = []"

definition string_inv :: "string_sys \<Rightarrow> bool" where
  "string_inv g \<longleftrightarrow>
     injected g = proposed (slog g) @ in_flight (spc g) @ items (stringQueue (proposer g)) \<and>
     inits (slog g) = length (proposed (slog g)) + length (in_flight (spc g)) \<and>
     consensusDone (proposer g) \<le> 1 \<and>
     length (proposed (slog g)) + consensusDone (proposer g) \<le> signals g + (if spc g \<in> {WaitDone, RunEnded} then 1 else 0)"

lemma string_inv_step:
  assumes "string_inv g"
  shows "string_inv (string_sys_step c B H e g)"
proof (cases e)
  case (SInject m)
  with assms show ?thesis
    by (auto simp: string_inv_def psm_handleInject_def Enqueue_def split: option.splits)
next
  case SDone
  with assms show ?thesis by (auto simp: string_inv_def psm_handleConsensusDone_def)
next
  case (SRun now cancelled pick)
  with assms show ?thesis
    by (cases "spc g")
      (auto simp: string_inv_def Dequeue_def Let_def split: option.splits list.splits if_splits)
qed

lemma string_inv_run: "string_inv g \<Longrightarrow> string_inv (string_run c B H es g)"
  by (induction es arbitrary: g) (auto intro: string_inv_step)

text \<open>
  C28: The view node proposes what it was sent: for every sequence of injected strings, end-of-round
  signals and steps of the loop, the strings proposed, the one waiting for its start time and
  the queue are together the injected strings in order; every proposal was announced by one
  \<open>Init\<close>, and a further proposal needs a further signal.
\<close>

theorem string_proposals_fifo:
  "let g = string_run c B H es (string_start sid sk) in
     injected g = proposed (slog g) @ in_flight (spc g) @ items (stringQueue (proposer g)) \<and>
     inits (slog g) = length (proposed (slog g)) + length (in_flight (spc g)) \<and>
     length (proposed (slog g)) + consensusDone (proposer g) \<le> signals g + 1"
proof -
  have "string_inv (string_start sid sk)"
    by (simp add: string_inv_def string_start_def NewProposeStringAuxiliaryMod_def NewQueue_def)
  from string_inv_run [OF this, of c B H es] show ?thesis
    by (auto simp: string_inv_def Let_def split: if_splits)
qed

section \<open>ProposeBlock\<close>

record propose_block =
  pbm_Sid :: int
  pbm_txPool :: tx_pool

definition NewProposeBlockAuxiliaryMod :: "config \<Rightarrow> int \<Rightarrow> propose_block" where
  "NewProposeBlockAuxiliaryMod c sid = \<lparr>pbm_Sid = sid, pbm_txPool = NewTxPool (BlockSize c)\<rparr>"

text \<open>The chain is the one of the node; the module reads it and does not change it.\<close>

definition TryProposeBlock ::
  "('tr, 'tdb, 'ns) chain_env \<Rightarrow> (request \<Rightarrow> bytes option) \<Rightarrow> time \<Rightarrow> time \<Rightarrow> ('db, 'tdb) blockchain \<Rightarrow>
   propose_block \<Rightarrow> panic + (propose_block \<times> action list)" where
  "TryProposeBlock E json now now' bc s =
     bindP (GetEnoughTxs 100 500 (pbm_txPool s)) (\<lambda>(txs, p).
     case txs of
       None \<Rightarrow> Inr (s\<lparr>pbm_txPool := p\<rparr>, [])
     | Some txs \<Rightarrow>
         let b = bc_NewBlock E now txs bc;
             req = NewRequest (sha256 E) json now' (pbm_Sid s) ReqVerifyTxs (enc_block (e_codec E) b)
         in Inr (s\<lparr>pbm_txPool := p\<rparr>, [Local (propose_of req)]))"

definition pbm_handleInject :: "(nat \<Rightarrow> time) \<Rightarrow> message \<Rightarrow> propose_block \<Rightarrow> propose_block" where
  "pbm_handleInject now msg s =
     (case decode_txs (msg_Content msg) of
        None \<Rightarrow> s
      | Some txs \<Rightarrow> if txs = [] then s else s\<lparr>pbm_txPool := AddTxs now txs (pbm_txPool s)\<rparr>)"

definition pbm_iteration ::
  "('tr, 'tdb, 'ns) chain_env \<Rightarrow> (request \<Rightarrow> bytes option) \<Rightarrow> time \<Rightarrow> time \<Rightarrow> bool \<Rightarrow> ('db, 'tdb) blockchain \<Rightarrow>
   propose_block \<Rightarrow> (panic + (propose_block \<times> action list)) option" where
  "pbm_iteration E json now now' cancelled bc s =
     (if cancelled then None else Some (TryProposeBlock E json now now' bc s))"

text \<open>
  The block proposer: an iteration never panics; with fewer than 100 waiting transactions it
  does nothing, otherwise it proposes one block of the first 500 at most (whatever the configured block size),
  on top of the node's current block, and leaves the rest in the pool.
\<close>

theorem TryProposeBlock_spec:
  "TryProposeBlock E json now now' bc s =
     (if PoolSize (pbm_txPool s) < 100 then Inr (s, [])
      else
        let b = bc_NewBlock E now (take 500 (Txs (pbm_txPool s))) bc in
        Inr (s\<lparr>pbm_txPool := (pbm_txPool s)\<lparr>Txs := drop 500 (Txs (pbm_txPool s))\<rparr>\<rparr>,
          [Local (propose_of (NewRequest (sha256 E) json now' (pbm_Sid s) ReqVerifyTxs (enc_block (e_codec E) b)))])) \<and>
   Height (Header (bc_NewBlock E now txs bc)) = Height (Header (CurrentBlock bc)) + 1 \<and>
   PrevBlockHash (Header (bc_NewBlock E now txs bc)) = b_Hash (CurrentBlock bc)"
  by (auto simp: TryProposeBlock_def GetEnoughTxs_eq bc_NewBlock_def NewBlock_def PoolSize_def Let_def)

text \<open>
  C29: Proposing outruns committing: the proposer builds every block on the node's current block, so
  two batches proposed before the first is committed give two blocks of the same height and with
  the same parent; committing both makes the second the current block, whose chain of parents
  misses the first, unless both have the same hash.
\<close>

theorem unfinished_proposals_fork:
  assumes "CommitBlock B E (bc_NewBlock E now1 txs1 bc) bc = Inr bc1"
    and "CommitBlock B E (bc_NewBlock E now2 txs2 bc) bc1 = Inr bc2"
  shows "Height (Header (CurrentBlock bc2)) = Height (Header (CurrentBlock bc1)) \<and>
    PrevBlockHash (Header (CurrentBlock bc2)) = b_Hash (CurrentBlock bc) \<and>
    (b_Hash (CurrentBlock bc) \<noteq> b_Hash (CurrentBlock bc1) \<longrightarrow>
       \<not> linked (b_Hash (CurrentBlock bc)) (Height (Header (CurrentBlock bc))) [CurrentBlock bc1, CurrentBlock bc2])"
  using CommitBlock_current [OF assms(1)] CommitBlock_current [OF assms(2)]
  by (simp add: bc_NewBlock_def NewBlock_def Let_def)

text \<open>
  A proposed block reaches the queue of the PBFT module: with the simple or the TBD addon the
  direct call of its propose handler puts the request at the end of the queue and sends nothing.
\<close>

theorem proposal_is_queued:
  assumes "TryProposeBlock E json now now' bc s = Inr (s', [Local m])"
  shows "\<exists>req. m = propose_of req \<and> Content req = enc_block (e_codec E) (bc_NewBlock E now (take 500 (Txs (pbm_txPool s))) bc) \<and>
    handlePropose SimpleAddon t m p = Returns (p\<lparr>requestPool := (requestPool p)(Digest req \<mapsto> NewRequestInfo req),
      requestQueue := Enqueue req (requestQueue p)\<rparr>) [] \<and>
    handlePropose (TBDAddon B E) t m p' = Returns (p'\<lparr>requestPool := (requestPool p')(Digest req \<mapsto> NewRequestInfo req),
      requestQueue := Enqueue req (requestQueue p')\<rparr>) []"
  using assms
  by (auto simp: TryProposeBlock_def GetEnoughTxs_eq propose_of_def handlePropose_def call_addon_def SimpleAddon_def
      TBDAddon_def NewRequest_def Let_def split: if_splits)

section \<open>ProposeTxs\<close>

record propose_txs =
  ptm_Sid :: int
  ptm_txPool :: tx_pool

definition NewProposeTxsAuxiliaryMod :: "config \<Rightarrow> int \<Rightarrow> propose_txs" where
  "NewProposeTxsAuxiliaryMod c sid = \<lparr>ptm_Sid = sid, ptm_txPool = NewTxPool (BlockSize c)\<rparr>"

text \<open>One iteration of \<open>Run\<close>; \<open>enc_txs\<close> is the encoder of a transaction list.\<close>

definition ptm_iteration ::
  "(bytes \<Rightarrow> bytes) \<Rightarrow> (request \<Rightarrow> bytes option) \<Rightarrow> (transaction list \<Rightarrow> bytes) \<Rightarrow> time \<Rightarrow> bool \<Rightarrow> propose_txs \<Rightarrow>
   (panic + (propose_txs \<times> action list)) option" where
  "ptm_iteration sha json enc_txs now cancelled s =
     (if cancelled then None
      else Some (bindP (GetBatchofTxs (ptm_txPool s)) (\<lambda>(txs, p).
        case txs of
          None \<Rightarrow> Inr (s\<lparr>ptm_txPool := p\<rparr>, [])
        | Some txs \<Rightarrow>
            Inr (s\<lparr>ptm_txPool := p\<rparr>,
              [Local (propose_of (NewRequest sha json now (ptm_Sid s) ReqVerifyTxs (enc_txs txs)))]))))"

definition ptm_handleInject :: "(nat \<Rightarrow> time) \<Rightarrow> message \<Rightarrow> propose_txs \<Rightarrow> propose_txs" where
  "ptm_handleInject now msg s =
     (case decode_txs (msg_Content msg) of
        None \<Rightarrow> s
      | Some txs \<Rightarrow> if txs = [] then s else s\<lparr>ptm_txPool := AddTxs now txs (ptm_txPool s)\<rparr>)"

text \<open>A configured block size of 0 or less: an endless stream of empty proposals, or a panic.\<close>

lemma ptm_degenerate_batches:
  "batchSize (ptm_txPool s) = 0 \<Longrightarrow> ptm_iteration sha json enc_txs now False s =
     Some (Inr (s, [Local (propose_of (NewRequest sha json now (ptm_Sid s) ReqVerifyTxs (enc_txs [])))]))"
  "batchSize (ptm_txPool s) < 0 \<Longrightarrow> ptm_iteration sha json enc_txs now False s = Some (Inl SliceOutOfBounds)"
  by (simp_all add: ptm_iteration_def GetBatchofTxs_def split_at_def)

section \<open>Concrete runs\<close>

lemma example_commits:
  fixes bc :: "(((string \<times> bytes) \<times> bytes) list, unit) blockchain"
  assumes "b_Hash b \<noteq> []"
  shows "\<exists>bc'. CommitBlock list_bolt (example_env True bs) b bc = Inr bc'"
proof -
  let ?E = "example_env True bs"
  let ?b = "b\<lparr>Header := (Header b)\<lparr>StateRoot := StateRoot (Header (CurrentBlock bc))\<rparr>\<rparr>"
  have "b_Hash ?b \<noteq> []" using assms by simp
  then obtain s' where "AddBlock list_bolt (e_codec ?E) ?b (bc_Storage bc) = Inr s'"
    using list_bolt_AddBlock by blast
  moreover have "CommitStates ?E root sm = Inr (root, sm)" for root and sm :: "unit state_manager"
    by (simp add: CommitStates_def example_env_def)
  ultimately show ?thesis by (simp add: CommitBlock_def Let_def)
qed

theorem unfinished_proposals_fork_witness:
  "\<exists>bc1 bc2. CommitBlock list_bolt (example_env True example_blocks)
      (bc_NewBlock (example_env True example_blocks) 0 [example_tx ''A''] example_chain) example_chain = Inr bc1 \<and>
    CommitBlock list_bolt (example_env True example_blocks)
      (bc_NewBlock (example_env True example_blocks) 0 [example_tx ''B''] example_chain) bc1 = Inr bc2 \<and>
    Height (Header (CurrentBlock bc2)) = 1 \<and> PrevBlockHash (Header (CurrentBlock bc2)) = ''G'' \<and>
    \<not> linked ''G'' 0 [CurrentBlock bc1, CurrentBlock bc2]"
proof -
  let ?E = "example_env True example_blocks"
  let ?b = "bc_NewBlock ?E 0 [example_tx ''B''] example_chain"
  obtain bc1 where 1: "CommitBlock list_bolt ?E (bc_NewBlock ?E 0 [example_tx ''A''] example_chain) example_chain = Inr bc1"
    and c1: "CurrentBlock bc1 = child_block ''A'' ''G'' 1"
    using example_commit by blast
  have h: "b_Hash ?b = ''B''"
    by (simp add: bc_NewBlock_def NewBlock_def HeaderHash_def GetTxTreeRoot_def example_env_def table_codec_def
        example_tx_def Let_def)
  have "b_Hash ?b \<noteq> []" unfolding h by simp
  then obtain bc2 where 2: "CommitBlock list_bolt ?E ?b bc1 = Inr bc2" using example_commits by blast
  have g: "b_Hash (CurrentBlock example_chain) = ''G''" "Height (Header (CurrentBlock example_chain)) = 0"
    by (simp_all add: example_chain_def root_block_def zero_header_def)
  have "Height (Header (CurrentBlock bc1)) = 1" "b_Hash (CurrentBlock bc1) = ''A''"
    unfolding c1 by (simp_all add: child_block_def)
  with unfinished_proposals_fork [OF 1 2] 1 2 g show ?thesis by simp
qed

definition full_pool :: propose_block where
  "full_pool = \<lparr>pbm_Sid = 0, pbm_txPool = \<lparr>Txs = replicate 100 (example_tx ''A''), batchSize = 500\<rparr>\<rparr>"

theorem proposal_is_queued_witness:
  "\<exists>req s'. TryProposeBlock (example_env True example_blocks) (\<lambda>r. None) 0 0 example_chain full_pool =
      Inr (s', [Local (propose_of req)]) \<and> PoolSize (pbm_txPool s') = 0 \<and>
    handlePropose SimpleAddon 0 (propose_of req) (example_node ()) =
      Returns ((example_node ())\<lparr>requestPool := [Digest req \<mapsto> NewRequestInfo req],
        requestQueue := \<lparr>items = [req]\<rparr>\<rparr>) []"
proof -
  obtain s' m where t: "TryProposeBlock (example_env True example_blocks) (\<lambda>r. None) 0 0 example_chain full_pool =
      Inr (s', [Local m])" and p: "PoolSize (pbm_txPool s') = 0"
    by (simp add: TryProposeBlock_def GetEnoughTxs_eq full_pool_def PoolSize_def Let_def)
  from proposal_is_queued [OF t, of 0 "example_node ()"] t p show ?thesis
    by (auto simp: example_node_def NewQueue_def Enqueue_def)
qed

end
