(* ===== verification/DS_Shard.thy ===== *)
theory DS_Shard
  imports ShardNet DolevStrong Proposers
begin

text \<open>
  A whole Dolev-Strong shard: the view node, which may send different proposals to different nodes,
  honest nodes, and malicious nodes, whose handlers do nothing; they are connected by the network of
  theory ShardNet.  The environment of a delivery is the sequence of clock readings of the handler.
\<close>

definition ds_handle :: "(int \<Rightarrow> config) \<Rightarrow> bls \<Rightarrow> (bytes \<Rightarrow> bytes) \<Rightarrow> (nat \<Rightarrow> reading, ds) handler" where
  "ds_handle cfg B sha i clk m s = (case ds_dispatch (cfg i) B sha clk m s of (s', es, e) \<Rightarrow> (s', es))"

text \<open>\<open>cfg i\<close> is the configuration of the process of node \<open>i\<close>; the view node has number 0.\<close>

definition ds_shard :: "(int \<Rightarrow> config) \<Rightarrow> (int \<Rightarrow> ds) \<Rightarrow> bool" where
  "ds_shard cfg ns \<longleftrightarrow>
     (\<forall>i. ViewNodeId (cfg i) = 0 \<and> 0 < TickInterval (cfg i) \<and> ds_Nid (ns i) = i \<and> ds_view (ns i) = 0 \<and>
        set_invar (ExtrSet (ns i)) \<and> (i \<noteq> 0 \<longrightarrow> elems (ExtrSet (ns i)) = {}))"

definition honest :: "(int \<Rightarrow> config) \<Rightarrow> int \<Rightarrow> bool" where
  "honest cfg i \<longleftrightarrow> i \<noteq> 0 \<and> \<not> IsMalicious (cfg i)"

definition ds_msg :: "message \<Rightarrow> bool" where
  "ds_msg m \<longleftrightarrow> MsgType m = MsgPropose \<or> MsgType m = MsgForward"

section \<open>One node\<close>

definition ds_node_ok :: "int \<Rightarrow> ds \<Rightarrow> bool" where
  "ds_node_ok i s \<longleftrightarrow> ds_Nid s = i \<and> ds_view s = 0 \<and> set_invar (ExtrSet s)"

definition active :: "(int \<Rightarrow> config) \<Rightarrow> int \<Rightarrow> bool" where
  "active cfg i \<longleftrightarrow> i = 0 \<or> honest cfg i"

lemma ds_handle_silent:
  "ViewNodeId (cfg i) = 0 \<Longrightarrow> ds_node_ok i s \<Longrightarrow> \<not> active cfg i \<Longrightarrow> ds_handle cfg B sha i clk m s = (s, [])"
  by (auto simp: active_def honest_def ds_handle_def ds_node_ok_def ds_dispatch_def ds_defs split: MessageType.splits)

lemma ds_handle_active:
  assumes "ViewNodeId (cfg i) = 0" and "ds_node_ok i s" and "active cfg i" and "ds_msg m"
  shows "ds_handle cfg B sha i clk m s =
    (case (if MsgType m = MsgPropose then HandleProposeMsg (cfg i) B sha clk m s
           else HandleForwardMsg (cfg i) B sha clk m s) of (s', es, e) \<Rightarrow> (s', es))"
  using assms by (auto simp: active_def honest_def ds_handle_def ds_node_ok_def ds_dispatch_def ds_msg_def)

text \<open>
  A handler of an active node adds the value of its message; what it broadcasts is a forward
  message with that value; a proposal in time is always forwarded by an honest node.
\<close>

lemma ds_handle_effect:
  assumes "ViewNodeId (cfg i) = 0" and "0 < TickInterval (cfg i)" and "ds_node_ok i s" and "ds_msg m"
    and "active cfg i" and "ds_handle cfg B sha i clk m s = (s', es)"
  shows "ds_node_ok i s' \<and> elems (ExtrSet s') = elems (ExtrSet s) \<union> set_option (value_of m) \<and>
    (\<forall>ef \<in> set es. \<exists>m'. ef = Broadcast 0 m' \<and> MsgType m' = MsgForward \<and> value_of m' = value_of m \<and> value_of m \<noteq> None) \<and>
    (i \<noteq> 0 \<and> MsgType m = MsgPropose \<and> value_of m \<noteq> None \<and> round_at (cfg i) (clk 0) < 1 \<longrightarrow>
      (\<exists>m'. Broadcast 0 m' \<in> set es \<and> value_of m' = value_of m))"
proof -
  have inv: "set_invar (ExtrSet s)" using assms(3) by (simp add: ds_node_ok_def)
  have add: "set_invar (Add v (ExtrSet s))" "elems (Add v (ExtrSet s)) = insert v (elems (ExtrSet s))"
    "Contains v (ExtrSet s) \<longleftrightarrow> v \<in> elems (ExtrSet s)" for v
    using gs.invar_add [OF inv] gs.abs_add [OF inv] gs.contains_iff [OF inv] by auto
  have w: "wait_round (cfg i) 1 clk 0 = Some 0" if "round_at (cfg i) (clk 0) < 1"
    using that by (simp add: wait_round.simps)
  have n: "ds_Nid s = i" "ds_view s = 0" using assms(3) by (simp_all add: ds_node_ok_def)
  have t: "TickInterval (cfg i) \<noteq> 0" using assms(2) by simp
  note h = assms(6) [unfolded ds_handle_active [OF assms(1,3,5,4)]]
  have fwd: "value_of (forward_msg l) = Some (Content (dl_Req l))" "MsgType (forward_msg l) = MsgForward" for l
    by (simp_all add: value_of_def forward_msg_def)
  show ?thesis
  proof (cases "value_of m")
    case None
    with h assms(4) have "s' = s" "es = []"
      by (auto simp: HandleProposeMsg_def HandleForwardMsg_def value_of_def ds_msg_def split: if_splits)
    with None assms(3) show ?thesis by simp
  next
    case (Some v)
    have out: "(s' = s \<and> Contains v (ExtrSet s) \<or> s' = s\<lparr>ExtrSet := Add v (ExtrSet s)\<rparr>) \<and>
        (es = [] \<or> (\<exists>m'. es = [Broadcast 0 m'] \<and> MsgType m' = MsgForward \<and> value_of m' = Some v)) \<and>
        (i \<noteq> 0 \<and> MsgType m = MsgPropose \<and> round_at (cfg i) (clk 0) < 1 \<longrightarrow> es \<noteq> [])"
    proof (cases "MsgType m = MsgPropose")
      case True
      with Some obtain req where req: "decode_request (msg_Content m) = Some req" "Content req = v"
        by (auto simp: value_of_def)
      show ?thesis
        using h True w by (cases "i = 0"; cases "wait_round (cfg i) 1 clk 0")
          (auto simp: HandleProposeMsg_def req n t fwd Let_def)
    next
      case False
      then have f: "MsgType m = MsgForward" using assms(4) by (simp add: ds_msg_def)
      with Some obtain l where l: "decode_ds_sig_list (msg_Content m) = Some l" "Content (dl_Req l) = v"
        by (auto simp: value_of_def)
      show ?thesis
      proof -
        have hf: "(case HandleForwardMsg (cfg i) B sha clk m s of (s', es, e) \<Rightarrow> (s', es)) = (s', es)"
          using h f by simp
        show ?thesis
        proof (cases "Contains v (ExtrSet s)")
          case True
          with hf f show ?thesis by (simp add: HandleForwardMsg_def l t)
        next
          case False
          with hf f show ?thesis
            by (cases "wait_round (cfg i) (int (length (dl_SigList l))) clk 1")
              (auto simp: HandleForwardMsg_def checkSigList_def l t fwd Let_def)
        qed
      qed
    qed
    then have "ds_node_ok i s'" "elems (ExtrSet s') = insert v (elems (ExtrSet s))"
      using add assms(3) by (auto simp: ds_node_ok_def)
    with out Some show ?thesis by auto
  qed
qed

section \<open>The network of the shard\<close>

text \<open>
  \<open>timely\<close>: every honest node handles its proposals in round 0.  \<open>proposed_to\<close>: some honest node has
  handled a proposal of the value.
\<close>

definition timely :: "(int \<Rightarrow> config) \<Rightarrow> (nat \<Rightarrow> reading, ds) net \<Rightarrow> bool" where
  "timely cfg g \<longleftrightarrow> (\<forall>(e, a, k, m) \<in> set (served g). honest cfg k \<and> MsgType m = MsgPropose \<longrightarrow> round_at (cfg k) (e 0) < 1)"

definition proposed_to :: "(int \<Rightarrow> config) \<Rightarrow> packet set \<Rightarrow> string \<Rightarrow> bool" where
  "proposed_to cfg S w \<longleftrightarrow> (\<exists>a k m. (a, k, m) \<in> S \<and> honest cfg k \<and> MsgType m = MsgPropose \<and> value_of m = Some w)"

definition relayed :: "(nat \<Rightarrow> reading, ds) net \<Rightarrow> int \<Rightarrow> string \<Rightarrow> bool" where
  "relayed g k w \<longleftrightarrow> (\<exists>m'. (k, Broadcast 0 m') \<in> set (net_log g) \<and> value_of m' = Some w)"

definition values_at :: "int \<Rightarrow> packet set \<Rightarrow> string set" where
  "values_at i S = {w. \<exists>a m. (a, i, m) \<in> S \<and> value_of m = Some w}"

abbreviation delivered :: "('e, 'n) net \<Rightarrow> packet set" where
  "delivered g \<equiv> snd ` set (served g)"

definition relay_inv :: "(int \<Rightarrow> config) \<Rightarrow> (int \<Rightarrow> ds) \<Rightarrow> packet list \<Rightarrow> (nat \<Rightarrow> reading, ds) net \<Rightarrow> bool" where
  "relay_inv cfg ns ps g \<longleftrightarrow>
     (\<forall>i. ds_node_ok i (nodes g i) \<and>
        elems (ExtrSet (nodes g i)) = elems (ExtrSet (ns i)) \<union> (if active cfg i then values_at i (delivered g) else {})) \<and>
     (\<forall>(a, j, m) \<in> set (packets g) \<union> delivered g. ds_msg m \<and> (MsgType m = MsgPropose \<longrightarrow> (a, j, m) \<in> set ps) \<and>
        (MsgType m = MsgForward \<longrightarrow> (\<forall>w. value_of m = Some w \<longrightarrow> proposed_to cfg (delivered g) w))) \<and>
     (\<forall>(a, k, m) \<in> delivered g. honest cfg k \<and> MsgType m = MsgPropose \<longrightarrow> (\<forall>w. value_of m = Some w \<longrightarrow> relayed g k w))"

lemma proposed_to_mono: "proposed_to cfg S w \<Longrightarrow> S \<subseteq> T \<Longrightarrow> proposed_to cfg T w"
  by (auto simp: proposed_to_def)

lemma values_at_insert:
  "values_at i (insert (a, j, m) S) = values_at i S \<union> (if j = i then set_option (value_of m) else {})"
  by (auto simp: values_at_def)

lemma relay_inv_step:
  assumes inv: "relay_inv cfg ns ps g" and cfg: "ds_shard cfg ns" and ps: "\<forall>p \<in> set ps. fst (snd p) \<noteq> 0"
    and time: "timely cfg (net_step (ds_handle cfg B sha) 0 ids x g)"
  shows "relay_inv cfg ns ps (net_step (ds_handle cfg B sha) 0 ids x g)"
proof -
  obtain k e where x: "x = (k, e)" by (cases x)
  show ?thesis
  proof (cases "k < length (packets g)")
    case True
    obtain i j m where p: "packets g ! k = (i, j, m)" by (metis prod_cases3)
    obtain s es where h: "ds_handle cfg B sha j e m (nodes g j) = (s, es)" by fastforce
    let ?g = "net_step (ds_handle cfg B sha) 0 ids x g"
    have g: "nodes ?g = (nodes g)(j := s)" "served ?g = served g @ [(e, i, j, m)]"
      "packets ?g = take k (packets g) @ drop (Suc k) (packets g) @ outgoing 0 ids (map (Pair j) es)"
      "net_log ?g = net_log g @ map (Pair j) es"
      using x True p h by simp_all
    have d: "delivered ?g = insert (i, j, m) (delivered g)" by (simp add: g)
    have mem: "(i, j, m) \<in> set (packets g)" using True p by (metis nth_mem)
    have c: "ViewNodeId (cfg j) = 0" "0 < TickInterval (cfg j)" using cfg by (auto simp: ds_shard_def)
    have old: "ds_msg m'" "MsgType m' = MsgPropose \<Longrightarrow> (a, j', m') \<in> set ps"
      "MsgType m' = MsgForward \<Longrightarrow> value_of m' = Some w \<Longrightarrow> proposed_to cfg (delivered g) w"
      if "(a, j', m') \<in> set (packets g) \<union> delivered g" for a j' m' w
      using inv that unfolding relay_inv_def by blast+
    have oldp: "relayed g j' w" if "(a, j', m') \<in> delivered g" "honest cfg j'" "MsgType m' = MsgPropose" "value_of m' = Some w"
      for a j' m' w using inv that unfolding relay_inv_def by blast
    have node: "ds_node_ok j (nodes g j)" using inv by (simp add: relay_inv_def)
    have msg: "ds_msg m" using old(1) mem by blast
    have new: "ds_node_ok j s \<and> elems (ExtrSet s) = elems (ExtrSet (nodes g j)) \<union> (if active cfg j then set_option (value_of m) else {}) \<and>
      (\<forall>ef \<in> set es. \<exists>m'. ef = Broadcast 0 m' \<and> MsgType m' = MsgForward \<and> value_of m' = value_of m \<and> value_of m \<noteq> None)"
      using ds_handle_silent [where cfg = cfg and B = B and sha = sha, OF c(1) node] ds_handle_effect [where cfg = cfg, OF c node msg _ h] h node
      by (cases "active cfg j") auto
    have act: "honest cfg j" if "\<not> j = 0" "es \<noteq> []"
    proof (rule ccontr)
      assume "\<not> honest cfg j"
      with that(1) have "\<not> active cfg j" by (simp add: active_def)
      from ds_handle_silent [where cfg = cfg and B = B and sha = sha, OF c(1) node this] h that(2) show False by simp
    qed
    have nodes: "ds_node_ok n (nodes ?g n) \<and> elems (ExtrSet (nodes ?g n)) =
        elems (ExtrSet (ns n)) \<union> (if active cfg n then values_at n (delivered ?g) else {})" for n
      using inv new unfolding d by (auto simp: g(1) relay_inv_def values_at_insert)
    have origin: "proposed_to cfg (delivered ?g) w" if w: "value_of m = Some w" and es: "es \<noteq> []" for w
    proof (cases "MsgType m = MsgForward")
      case True
      with old(3) mem w have "proposed_to cfg (delivered g) w" by blast
      then show ?thesis by (rule proposed_to_mono) (auto simp: d)
    next
      case False
      then have pr: "MsgType m = MsgPropose" using msg by (simp add: ds_msg_def)
      with old(2) mem have "(i, j, m) \<in> set ps" by blast
      with ps have "j \<noteq> 0" by fastforce
      with act es pr w show ?thesis unfolding d by (auto simp: proposed_to_def)
    qed
    have out: "MsgType m' = MsgForward \<and> value_of m' = value_of m \<and> value_of m \<noteq> None \<and> es \<noteq> []"
      if out: "(a, j', m') \<in> set (outgoing 0 ids (map (Pair j) es))" for a j' m'
    proof -
      from out obtain ef where ef: "ef \<in> set es" "(a, j', m') \<in> set (packets_of 0 ids (j, ef))"
        by (auto simp: outgoing_def)
      with new obtain m1 where "ef = Broadcast 0 m1" "MsgType m1 = MsgForward" "value_of m1 = value_of m" "value_of m \<noteq> None"
        by blast
      with ef show ?thesis by auto
    qed
    have pk: "ds_msg m' \<and> (MsgType m' = MsgPropose \<longrightarrow> (a, j', m') \<in> set ps) \<and>
        (MsgType m' = MsgForward \<longrightarrow> (\<forall>w. value_of m' = Some w \<longrightarrow> proposed_to cfg (delivered ?g) w))"
      if q: "(a, j', m') \<in> set (packets ?g) \<union> delivered ?g" for a j' m'
    proof -
      from q have "(a, j', m') \<in> set (packets g) \<union> delivered g \<or> (a, j', m') \<in> set (outgoing 0 ids (map (Pair j) es))"
        using mem unfolding d g(3) by (auto dest: in_set_takeD in_set_dropD)
      then show ?thesis
      proof
        assume o: "(a, j', m') \<in> set (packets g) \<union> delivered g"
        have "delivered g \<subseteq> delivered ?g" by (auto simp: d)
        with old [OF o] show ?thesis using proposed_to_mono by blast
      next
        assume "(a, j', m') \<in> set (outgoing 0 ids (map (Pair j) es))"
        from out [OF this] origin show ?thesis by (auto simp: ds_msg_def)
      qed
    qed
    have rl: "relayed ?g k' w" if q: "(a, k', m') \<in> delivered ?g" "honest cfg k'" "MsgType m' = MsgPropose" "value_of m' = Some w"
      for a k' m' w
    proof (cases "(a, k', m') \<in> delivered g")
      case True
      from oldp [OF True q(2-4)] show ?thesis unfolding relayed_def g(4) by auto
    next
      case False
      with q(1) have e: "k' = j" "m' = m" unfolding d by auto
      have "(e, i, j, m) \<in> set (served ?g)" by (simp add: g)
      with time q e have "round_at (cfg j) (e 0) < 1" unfolding timely_def by fast
      with ds_handle_effect [where cfg = cfg, OF c node msg _ h] q e have "\<exists>m1. Broadcast 0 m1 \<in> set es \<and> value_of m1 = value_of m"
        by (auto simp: active_def honest_def)
      with q(4) e show ?thesis unfolding relayed_def g(4) by auto
    qed
    from nodes pk rl show ?thesis unfolding relay_inv_def by blast
  qed (use assms x in simp)
qed

lemma relay_inv_start:
  assumes "ds_shard cfg ns" and "\<forall>p \<in> set ps. MsgType (snd (snd p)) = MsgPropose"
  shows "relay_inv cfg ns ps (net_start ns ps)"
  using assms by (auto simp: relay_inv_def net_start_def ds_shard_def ds_node_ok_def values_at_def ds_msg_def)

lemma relay_inv_run:
  assumes "ds_shard cfg ns" and "\<forall>p \<in> set ps. MsgType (snd (snd p)) = MsgPropose \<and> fst (snd p) \<noteq> 0"
    and "timely cfg (net_run (ds_handle cfg B sha) 0 ids xs (net_start ns ps))"
  shows "relay_inv cfg ns ps (net_run (ds_handle cfg B sha) 0 ids xs (net_start ns ps))"
  using assms(3)
proof (induction xs rule: rev_induct)
  case Nil
  then show ?case using relay_inv_start [OF assms(1)] assms(2) by simp
next
  case (snoc x xs)
  let ?g = "net_run (ds_handle cfg B sha) 0 ids xs (net_start ns ps)"
  have "timely cfg ?g"
    using snoc.prems served_mono [of ?g "ds_handle cfg B sha" 0 ids x] unfolding timely_def net_run_snoc by blast
  with snoc show ?case
    using relay_inv_step [OF _ assms(1)] assms(2) by (simp add: net_run_snoc del: net_step.simps)
qed

lemma values_at_rest:
  assumes "ds_shard cfg ns" and "\<forall>p \<in> set ps. MsgType (snd (snd p)) = MsgPropose \<and> fst (snd p) \<noteq> 0"
    and "g = net_run (ds_handle cfg B sha) 0 ids xs (net_start ns ps)" and "timely cfg g" and "at_rest g"
    and "i \<in> set ids" and "active cfg i"
  shows "elems (ExtrSet (nodes g i)) = elems (ExtrSet (ns i)) \<union> {w. proposed_to cfg (set ps) w}"
proof -
  note inv = relay_inv_run [OF assms(1,2) assms(4) [unfolded assms(3)], folded assms(3)]
  have "net_inv (ds_handle cfg B sha) 0 ids ns ps g" unfolding assms(3) by (rule net_inv_reached)
  note rest = at_rest_set [OF this assms(5)]
  have pr: "(a, j, m) \<in> set ps" if "(a, j, m) \<in> delivered g" "MsgType m = MsgPropose" for a j m
    using inv that unfolding relay_inv_def by blast
  have "values_at i (delivered g) = {w. proposed_to cfg (set ps) w}"
  proof (intro set_eqI iffI)
    fix w assume "w \<in> values_at i (delivered g)"
    then obtain a m where m: "(a, i, m) \<in> delivered g" "value_of m = Some w" by (auto simp: values_at_def)
    then have "ds_msg m" using inv unfolding relay_inv_def by blast
    then consider "MsgType m = MsgPropose" | "MsgType m = MsgForward" by (auto simp: ds_msg_def)
    then show "w \<in> {w. proposed_to cfg (set ps) w}"
    proof cases
      case 1
      with pr m have q: "(a, i, m) \<in> set ps" by blast
      with assms(2) have "i \<noteq> 0" by fastforce
      with assms(7) q 1 m(2) show ?thesis by (auto simp: active_def proposed_to_def)
    next
      case 2
      with inv m have "proposed_to cfg (delivered g) w" unfolding relay_inv_def by blast
      with pr show ?thesis unfolding proposed_to_def by blast
    qed
  next
    fix w assume "w \<in> {w. proposed_to cfg (set ps) w}"
    then obtain a k m where m: "(a, k, m) \<in> set ps" "honest cfg k" "MsgType m = MsgPropose" "value_of m = Some w"
      by (auto simp: proposed_to_def)
    then have d: "(a, k, m) \<in> delivered g" using rest by blast
    show "w \<in> values_at i (delivered g)"
    proof (cases "k = i")
      case True
      with d m show ?thesis by (auto simp: values_at_def)
    next
      case False
      have "relayed g k w" using inv d m unfolding relay_inv_def by blast
      then obtain m' where m': "(k, Broadcast 0 m') \<in> set (net_log g)" "value_of m' = Some w" by (auto simp: relayed_def)
      have "(k, i, m') \<in> set (packets_of 0 ids (k, Broadcast 0 m'))" using False assms(6) by simp
      with m'(1) have "(k, i, m') \<in> set (outgoing 0 ids (net_log g))" unfolding outgoing_def set_concat set_map by blast
      with rest m'(2) show ?thesis unfolding values_at_def by blast
    qed
  qed
  with inv assms(7) show ?thesis by (simp add: relay_inv_def)
qed


section \<open>What the proposer of the view node brings about\<close>

text \<open>The packets of a proposer's actions; a direct call makes none.\<close>

fun action_packets :: "config \<Rightarrow> int list \<Rightarrow> action \<Rightarrow> packet list" where
  "action_packets c ids (Out (SendTo ip m)) = map (\<lambda>j. (0, j, m)) (filter (\<lambda>j. ip_of c 0 j = ip) ids)"
| "action_packets c ids (Out ef) = packets_of 0 ids (0, ef)"
| "action_packets c ids (Local m) = []"

definition proposal_packets ::
  "config \<Rightarrow> int list \<Rightarrow> bls \<Rightarrow> hash_env \<Rightarrow> time \<Rightarrow> string \<Rightarrow> propose_string \<Rightarrow> packet list" where
  "proposal_packets c ids B H now str s = concat (map (action_packets c ids) (string_propose c B H now str s))"

lemma value_of_propose [simp]:
  "value_of (propose_of (NewRequestWithSignature sha json now sid ty v sig)) = Some v"
  "MsgType (propose_of req) = MsgPropose"
  by (simp_all add: value_of_def propose_of_def NewRequestWithSignature_def Let_def)

definition distinct_ips :: "config \<Rightarrow> int list \<Rightarrow> bool" where
  "distinct_ips c ids \<longleftrightarrow> inj_on (ip_of c 0) (set ids) \<and> {0, 1, 2} \<subseteq> set ids"

lemma proposed_to_all:
  "{w. proposed_to cfg ((\<lambda>j. (0, j, propose_of (NewRequestWithSignature sha json now sid ty v sig))) ` S) w} =
     (if \<exists>k \<in> S. honest cfg k then {v} else {})"
  by (auto simp: proposed_to_def image_iff)

lemma proposal_packets_set:
  assumes "distinct_ips c ids"
  shows "\<exists>sig. set (proposal_packets c ids B H now str s) =
    (\<lambda>j. (0, j, propose_of (NewRequestWithSignature (he_sha256 H) (he_json H) now (psm_Sid s) ReqVerifyString
       (if IsMalicious c then ''bad'' else str) sig))) ` (if IsMalicious c then {1, 2} else set ids - {0})"
proof -
  have ip: "j \<in> set ids \<Longrightarrow> ip_of c 0 j = ip_of c 0 1 \<longleftrightarrow> j = 1" "j \<in> set ids \<Longrightarrow> ip_of c 0 j = ip_of c 0 2 \<longleftrightarrow> j = 2"
    "1 \<in> set ids" "2 \<in> set ids" for j
    using assms by (auto simp: distinct_ips_def inj_on_def)
  then have "{x \<in> set ids. ip_of c 0 x = ip_of c 0 1} = {1}" "{x \<in> set ids. ip_of c 0 x = ip_of c 0 2} = {2}" by auto
  then show ?thesis
    by (intro exI [of _ "Sign B (he_sha256 H) (psm_SecKey s) str"])
      (auto simp: proposal_packets_def string_propose_def Let_def)
qed

lemma proposal_packets_values:
  assumes "distinct_ips c ids" and "honest cfg 1 \<or> honest cfg 2"
  shows "\<forall>p \<in> set (proposal_packets c ids B H now str s). MsgType (snd (snd p)) = MsgPropose \<and> fst (snd p) \<noteq> 0"
    and "{w. proposed_to cfg (set (proposal_packets c ids B H now str s)) w} = (if IsMalicious c then {''bad''} else {str})"
proof -
  obtain sig where e: "set (proposal_packets c ids B H now str s) =
    (\<lambda>j. (0, j, propose_of (NewRequestWithSignature (he_sha256 H) (he_json H) now (psm_Sid s) ReqVerifyString
       (if IsMalicious c then ''bad'' else str) sig))) ` (if IsMalicious c then {1, 2} else set ids - {0})"
    using proposal_packets_set [OF assms(1)] by blast
  show "\<forall>p \<in> set (proposal_packets c ids B H now str s). MsgType (snd (snd p)) = MsgPropose \<and> fst (snd p) \<noteq> 0"
    unfolding e by auto
  have "\<exists>k \<in> (if IsMalicious c then {1, 2} else set ids - {0}). honest cfg k"
    using assms by (auto simp: distinct_ips_def)
  then show "{w. proposed_to cfg (set (proposal_packets c ids B H now str s)) w} = (if IsMalicious c then {''bad''} else {str})"
    unfolding e proposed_to_all by simp
qed


section \<open>A concrete shard\<close>

lemma served_env:
  "(e, p) \<in> set (served (net_run handle sid ids xs g)) \<Longrightarrow> e \<in> snd ` set xs \<or> (e, p) \<in> set (served g)"
proof (induction xs arbitrary: g)
  case (Cons x xs)
  from Cons.IH [of "net_step handle sid ids x g"] Cons.prems
  have "e \<in> snd ` set xs \<or> (e, p) \<in> set (served (net_step handle sid ids x g))" by (simp del: net_step.simps)
  then show ?case by (cases x) (auto split: if_splits prod.splits)
qed simp

definition four_cfg :: "bool \<Rightarrow> int \<Rightarrow> config" where
  "four_cfg mal i = ds_cfg\<lparr>IsMalicious := (mal \<and> i = 0),
     IPMap := [0 \<mapsto> [0 \<mapsto> ''a'', 1 \<mapsto> ''b'', 2 \<mapsto> ''c'', 3 \<mapsto> ''d'']]\<rparr>"

definition four_ds :: "int \<Rightarrow> ds" where
  "four_ds i = (NewDSCosensusMod i ''n'' (Some ''k'') 0)\<lparr>ExtrSet := if i = 0 then Add ''A'' NewSet else NewSet\<rparr>"

definition same_hash :: hash_env where
  "same_hash = \<lparr>he_sha256 = (\<lambda>m. m), he_json = (\<lambda>r. None)\<rparr>"

definition four_start :: "bool \<Rightarrow> packet list" where
  "four_start mal = proposal_packets (four_cfg mal 0) [0, 1, 2, 3] pair_bls same_hash 0 ''A''
     (NewProposeStringAuxiliaryMod 0 (Some ''k''))"

definition four_run :: "bool \<Rightarrow> (nat \<Rightarrow> reading, ds) net" where
  "four_run mal = net_run (ds_handle (four_cfg mal) pair_bls (\<lambda>m. m)) 0 [0, 1, 2, 3] (replicate 18 (0, still))
     (net_start four_ds (four_start mal))"

lemma four_facts:
  "ds_shard (four_cfg mal) four_ds" "elems (ExtrSet (four_ds 0)) = {''A''}" "distinct_ips (four_cfg mal 0) [0, 1, 2, 3]"
  "timely (four_cfg mal) (four_run mal)" "honest (four_cfg mal) 3" "honest (four_cfg mal) 1"
proof -
  show "ds_shard (four_cfg mal) four_ds"
    by (auto simp: ds_shard_def four_cfg_def ds_cfg_def four_ds_def NewDSCosensusMod_def example_config_def
        NewSet_def Add_def set_invar_def elems_def)
  show "elems (ExtrSet (four_ds 0)) = {''A''}" by (simp add: four_ds_def NewSet_def Add_def elems_def)
  show "distinct_ips (four_cfg mal 0) [0, 1, 2, 3]" by (simp add: distinct_ips_def four_cfg_def ip_of_def)
  have "e = still" if "(e, p) \<in> set (served (four_run mal))" for e p
    using served_env [OF that [unfolded four_run_def]] by (auto simp: net_start_def)
  then show "timely (four_cfg mal) (four_run mal)"
    by (fastforce simp: timely_def round_at_def still_def Milliseconds_def)
  show "honest (four_cfg mal) 3" "honest (four_cfg mal) 1" by (simp_all add: honest_def four_cfg_def ds_cfg_def)
qed

lemma four_at_rest: "at_rest (four_run True)" "at_rest (four_run False)"
  by code_simp+



end
