(* ===== verification/Senders.thy ===== *)
theory Senders
  imports Proposers
begin

text \<open>
  The client modules that start and stop the system and send it work (clientMod/startLocalSystem.go,
  stopSystem.go, sendMimicAccountTxs.go, sendMimicContractTxs.go, sendTxTest.go,
  sendStringManual.go).  Random addresses and numbers are streams, process start and terminal are
  left to the environment: a start is the command line it runs.
\<close>

section \<open>Starting and stopping\<close>

text \<open>\<open>ff\<close> is \<open>strconv.FormatFloat\<close> with the shortest exact precision.\<close>

definition launched_malicious :: "config \<Rightarrow> int \<Rightarrow> int \<Rightarrow> bool" where
  "launched_malicious c i j \<longleftrightarrow>
     f64_less (f64_mul (f64_sub (f64_of_int 1) (MaliciousRatio c)) (f64_of_int (ShardNum c * NodeNum c)))
       (f64_of_int (i * NodeNum c + j))"

definition start_cmd :: "(f64 \<Rightarrow> string) \<Rightarrow> config \<Rightarrow> int \<Rightarrow> int \<Rightarrow> string" where
  "start_cmd ff c i j =
     ''./BlockChainSimulator'' @ '' -b '' @ Itoa (BlockSize c) @
     '' -S '' @ Itoa (ShardNum c) @ '' -N '' @ Itoa (NodeNum c) @
     '' -s '' @ Itoa i @ '' -n '' @ Itoa j @
     '' -m '' @ ConsensusMethod c @ '' -l '' @ LogLevel c @ '' -t '' @ cfg_TxType c @
     '' -r '' @ ff (MaliciousRatio c) @ '' -R '' @ ff (ResilientRatio c) @
     (if launched_malicious c i j then '' -M '' else []) @
     (if ConnectRemoteDemo c then '' -C '' else [])"

text \<open>The nodes in the order both loops visit them.\<close>

definition all_nodes :: "config \<Rightarrow> (int \<times> int) list" where
  "all_nodes c = concat (map (\<lambda>i. map (\<lambda>j. (i, j)) [0..NodeNum c - 1]) [0..ShardNum c - 1])"

definition StartLocalSystem_Run :: "(f64 \<Rightarrow> string) \<Rightarrow> config \<Rightarrow> string list" where
  "StartLocalSystem_Run ff c =
     (if IsDistributed c then [] else map (\<lambda>(i, j). start_cmd ff c i j) (all_nodes c))"

text \<open>After the context is done.\<close>

definition StopSystem_Run :: "config \<Rightarrow> effect list" where
  "StopSystem_Run c =
     map (\<lambda>(i, j). SendTo (ip_of c i j) \<lparr>MsgType = MsgStop, msg_Content = Garbage []\<rparr>) (all_nodes c)"

text \<open>
  The client does not start as many malicious nodes as the ratio says, nor spread them: with a
  ratio of one quarter and four nodes it starts none, although every node then tolerates one
  fault; with a ratio of one half and two shards of four nodes it starts three, all in the second
  shard, where only two are tolerated.
\<close>

theorem malicious_nodes_misplaced:
  "(let c = example_config\<lparr>ShardNum := 1, NodeNum := 4, MaliciousRatio := \<lparr>mant = 1, expo = - 2\<rparr>\<rparr> in
      filter (\<lambda>(i, j). launched_malicious c i j) (all_nodes c) = [] \<and> maliciousNodes c = 1) \<and>
   (let c = example_config\<lparr>ShardNum := 2, NodeNum := 4, MaliciousRatio := one_half\<rparr> in
      filter (\<lambda>(i, j). launched_malicious c i j) (all_nodes c) = [(1, 1), (1, 2), (1, 3)] \<and> maliciousNodes c = 2)"
  by code_simp

section \<open>Mimicked transactions\<close>

text \<open>\<open>addrs\<close> is the stream of random addresses, \<open>crypto\<close> the stream of random 53-bit numbers.\<close>

definition randFloat64 :: "int \<Rightarrow> f64" where
  "randFloat64 n = \<lparr>mant = n, expo = - 53\<rparr>"

definition generateMimicAccountTxs ::
  "(bytes \<Rightarrow> bytes) \<Rightarrow> (bytes \<Rightarrow> bytes) \<Rightarrow> (account_transaction \<Rightarrow> bytes) \<Rightarrow> config \<Rightarrow> (nat \<Rightarrow> time) \<Rightarrow>
   (nat \<Rightarrow> string) \<Rightarrow> bigptr option \<Rightarrow> transaction list" where
  "generateMimicAccountTxs sha gb gob c now addrs zero =
     map (\<lambda>i. AccountTransaction (NewAccountTransaction sha gb gob (now i) (addrs (2 * i)) (addrs (2 * i + 1)) 0 zero))
       [0..<nat (TxInjectSpeed c)]"

definition generateMimicContractTxs ::
  "(bytes \<Rightarrow> bytes) \<Rightarrow> (bytes \<Rightarrow> bytes) \<Rightarrow> (contract_transaction \<Rightarrow> bytes) \<Rightarrow> config \<Rightarrow> (nat \<Rightarrow> time) \<Rightarrow>
   (nat \<Rightarrow> string) \<Rightarrow> (nat \<Rightarrow> int) \<Rightarrow> transaction list" where
  "generateMimicContractTxs sha gb gob c now addrs crypto =
     map (\<lambda>i. ContractTransaction (NewContractTransaction sha gb gob (addrs (2 * i)) (addrs (2 * i + 1)) 0 (now i)
           ''code..'' [] (f64_less (randFloat64 (crypto i)) one_half)))
       [0..<nat (TxInjectSpeed c)]"

text \<open>Appending to the entry of a shard in \<open>txsToSend\<close>.\<close>

definition add_tx :: "int \<Rightarrow> transaction \<Rightarrow> (int \<rightharpoonup> transaction list) \<Rightarrow> (int \<rightharpoonup> transaction list)" where
  "add_tx sid tx m = m(sid \<mapsto> (case m sid of None \<Rightarrow> [] | Some l \<Rightarrow> l) @ [tx])"

fun group_txs ::
  "config \<Rightarrow> transaction list \<Rightarrow> (int \<rightharpoonup> transaction list) \<Rightarrow> panic + (int \<rightharpoonup> transaction list)" where
  "group_txs c [] m = Inr m"
| "group_txs c (tx # txs) m =
     (case To tx of
        [] \<Rightarrow> Inl IndexOutOfRange
      | a # _ \<Rightarrow> bindP (Addr2Shard c a) (\<lambda>sid. group_txs c txs (add_tx sid tx m)))"

text \<open>One tick of either module; \<open>keys\<close> is the order in which \<open>range\<close> visits the shards.\<close>

definition send_txs :: "config \<Rightarrow> int list \<Rightarrow> transaction list \<Rightarrow> panic + effect list" where
  "send_txs c keys txs =
     bindP (group_txs c txs Map.empty) (\<lambda>m.
     Inr (map (\<lambda>sid. SendTo (ip_of c sid 0) \<lparr>MsgType = MsgInject, msg_Content = PTxs (the (m sid))\<rparr>)
       (filter (\<lambda>sid. m sid \<noteq> None) keys)))"

text \<open>The shard a transaction is sent to, when its first recipient is an address of enough ASCII bytes.\<close>

definition plain_tx :: "transaction \<Rightarrow> bool" where
  "plain_tx tx \<longleftrightarrow> (\<exists>a as. To tx = a # as \<and> 8 \<le> length a \<and> (\<forall>b \<in> set a. of_char b < (128 :: int)))"

definition target_shard :: "config \<Rightarrow> transaction \<Rightarrow> int" where
  "target_shard c tx = be_value (drop (length (hd (To tx)) - 8) (hd (To tx))) mod ShardNum c"

lemma Addr2Shard_plain:
  assumes "plain_tx tx" and "ConsensusMethod c \<noteq> ''CShard''" and "0 < ShardNum c"
  shows "Addr2Shard c (hd (To tx)) = Inr (target_shard c tx) \<and> target_shard c tx \<in> {0..<ShardNum c}"
proof -
  from assms(1) obtain a as where a: "To tx = a # as" "8 \<le> length a" "\<forall>b \<in> set a. of_char b < (128 :: int)"
    by (auto simp: plain_tx_def)
  then have "of_char (a ! (length a - 8)) < (128 :: int)" by simp
  with Addr2Shard_value [OF assms(2,3), of a] a show ?thesis by (simp add: target_shard_def Let_def)
qed

definition grouped :: "config \<Rightarrow> transaction list \<Rightarrow> (int \<rightharpoonup> transaction list) \<Rightarrow> (int \<rightharpoonup> transaction list)" where
  "grouped c txs m sid =
     (let new = filter (\<lambda>tx. target_shard c tx = sid) txs in
      if new = [] then m sid else Some ((case m sid of None \<Rightarrow> [] | Some l \<Rightarrow> l) @ new))"

lemma group_txs_grouped:
  assumes "\<forall>tx \<in> set txs. plain_tx tx" and "ConsensusMethod c \<noteq> ''CShard''" and "0 < ShardNum c"
  shows "group_txs c txs m = Inr (grouped c txs m)"
  using assms(1)
proof (induction txs arbitrary: m)
  case Nil
  then show ?case by (simp add: grouped_def fun_eq_iff)
next
  case (Cons tx txs)
  from Cons.prems have "plain_tx tx" by simp
  from Addr2Shard_plain [OF this assms(2,3)] this obtain a as where
    a: "To tx = a # as" "Addr2Shard c a = Inr (target_shard c tx)" by (auto simp: plain_tx_def)
  have "grouped c txs (add_tx (target_shard c tx) tx m) = grouped c (tx # txs) m"
    by (rule ext) (simp add: grouped_def add_tx_def Let_def)
  with Cons.IH [of "add_tx (target_shard c tx) tx m"] Cons.prems a show ?case by simp
qed

text \<open>Splitting a list by a key into its classes keeps every element once.\<close>

lemma length_concat_classes:
  "distinct ks \<Longrightarrow> length (concat (map (\<lambda>k. filter (\<lambda>x. g x = k) xs) ks)) = length (filter (\<lambda>x. g x \<in> set ks) xs)"
proof (induction ks)
  case (Cons k ks)
  have "length (filter (\<lambda>x. g x = k) xs) + length (filter (\<lambda>x. g x \<in> set ks) xs) =
      length (filter (\<lambda>x. g x \<in> set (k # ks)) xs)"
    using Cons.prems by (induction xs) auto
  with Cons show ?case by simp
qed simp

text \<open>
  The client sends every transaction to the shard of its first recipient: for transactions with
  hex addresses it never panics, every message is the injection into one shard of exactly the
  transactions that belong there, in order, every shard number is valid, and no transaction is
  lost or sent twice.
\<close>

theorem mimic_txs_routed:
  assumes "\<forall>tx \<in> set txs. plain_tx tx" and "ConsensusMethod c \<noteq> ''CShard''" and "0 < ShardNum c"
    and "distinct keys" and "set keys = {0..<ShardNum c}"
  shows "\<exists>sids. send_txs c keys txs =
      Inr (map (\<lambda>sid. SendTo (ip_of c sid 0) \<lparr>MsgType = MsgInject,
        msg_Content = PTxs (filter (\<lambda>tx. target_shard c tx = sid) txs)\<rparr>) sids) \<and>
    distinct sids \<and> set sids = target_shard c ` set txs \<and> set sids \<subseteq> {0..<ShardNum c} \<and>
    length (concat (map (\<lambda>sid. filter (\<lambda>tx. target_shard c tx = sid) txs) sids)) = length txs"
proof -
  let ?m = "grouped c txs Map.empty"
  let ?sids = "filter (\<lambda>sid. ?m sid \<noteq> None) keys"
  have r: "target_shard c tx \<in> set keys" if "tx \<in> set txs" for tx
    using Addr2Shard_plain [OF _ assms(2,3)] assms(1,5) that by blast
  have set: "set ?sids = target_shard c ` set txs"
    using r by (auto simp: grouped_def Let_def filter_empty_conv)
  have "filter (\<lambda>tx. target_shard c tx \<in> set ?sids) txs = txs" unfolding set by (simp add: filter_id_conv)
  then have total: "length (concat (map (\<lambda>sid. filter (\<lambda>tx. target_shard c tx = sid) txs) ?sids)) = length txs"
    using length_concat_classes [of ?sids "target_shard c" txs] assms(4) by simp
  have "send_txs c keys txs = Inr (map (\<lambda>sid. SendTo (ip_of c sid 0) \<lparr>MsgType = MsgInject,
      msg_Content = PTxs (filter (\<lambda>tx. target_shard c tx = sid) txs)\<rparr>) ?sids)"
  proof -
    have "the (?m sid) = filter (\<lambda>tx. target_shard c tx = sid) txs" if "sid \<in> set ?sids" for sid
      using that by (simp add: grouped_def Let_def split: if_splits)
    then show ?thesis
      unfolding send_txs_def group_txs_grouped [OF assms(1-3)] bindP_simps sum.inject
      by (intro map_cong refl) simp
  qed
  moreover have "distinct ?sids" using assms(4) by (rule distinct_filter)
  moreover have "set ?sids \<subseteq> {0..<ShardNum c}" unfolding assms(5) [symmetric] by (rule filter_is_subset)
  ultimately show ?thesis using set total by (intro exI [of _ ?sids] conjI)
qed

definition two_shards :: config where
  "two_shards = example_config\<lparr>ShardNum := 2\<rparr>"

definition example_to :: "string \<Rightarrow> transaction" where
  "example_to addr = ContractTransaction
     \<lparr>c_Sender = [], c_Recipient = addr, c_Nounce = 0, c_TxHash = [], c_Time = 0, Code = [],
      RelatedContract = [], c_IsCrossShard = False\<rparr>"

theorem mimic_txs_routed_witness:
  "\<exists>sids. send_txs two_shards [0, 1] [example_to ''aaaaaaaa'', example_to ''aaaaaaab''] =
     Inr (map (\<lambda>sid. SendTo (ip_of two_shards sid 0) \<lparr>MsgType = MsgInject, msg_Content =
       PTxs (filter (\<lambda>tx. target_shard two_shards tx = sid) [example_to ''aaaaaaaa'', example_to ''aaaaaaab''])\<rparr>) sids) \<and>
     set sids = {0, 1}"
proof -
  have t: "target_shard two_shards ` set [example_to ''aaaaaaaa'', example_to ''aaaaaaab''] = {0, 1}"
    by (auto simp: target_shard_def two_shards_def example_to_def be_value_def example_config_def)
  have p: "\<forall>tx \<in> set [example_to ''aaaaaaaa'', example_to ''aaaaaaab'']. plain_tx tx"
    by (simp add: plain_tx_def example_to_def)
  have "set [0, 1 :: int] = {0..<ShardNum two_shards}"
    by (auto simp: two_shards_def)
  with mimic_txs_routed [OF p, of two_shards "[0, 1]"] t show ?thesis
    by (force simp: two_shards_def example_config_def)
qed

text \<open>The test module sends one fixed batch to every node.\<close>

definition sendTxTest_tick :: "config \<Rightarrow> transaction list \<Rightarrow> effect list" where
  "sendTxTest_tick c txs = map (\<lambda>(i, j). SendTo (ip_of c i j) \<lparr>MsgType = MsgInject, msg_Content = PTxs txs\<rparr>) (all_nodes c)"

section \<open>The interactive client\<close>

text \<open>
  Input lines are taken as ASCII: \<open>TrimSpace\<close> and \<open>ToLower\<close> are modelled for ASCII characters.
\<close>

definition is_space :: "char \<Rightarrow> bool" where
  "is_space ch \<longleftrightarrow> ch \<in> {CHR '' '', CHR 0x09, CHR 0x0A, CHR 0x0B, CHR 0x0C, CHR 0x0D}"

definition TrimSpace :: "string \<Rightarrow> string" where
  "TrimSpace s = rev (dropWhile is_space (rev (dropWhile is_space s)))"

definition lower :: "char \<Rightarrow> char" where
  "lower ch = (let n = of_char ch :: nat in if 65 \<le> n \<and> n \<le> 90 then char_of (n + 32) else ch)"

text \<open>\<open>strings.SplitN(input, " ", 2)\<close>\<close>

definition SplitN2 :: "string \<Rightarrow> string list" where
  "SplitN2 s =
     (let a = takeWhile (\<lambda>ch. ch \<noteq> CHR '' '') s; b = dropWhile (\<lambda>ch. ch \<noteq> CHR '' '') s
      in case b of [] \<Rightarrow> [a] | _ # rest \<Rightarrow> [a, rest])"

definition handleCmdPropose :: "config \<Rightarrow> string list \<Rightarrow> effect list" where
  "handleCmdPropose c args =
     (case args of
        [] \<Rightarrow> []
      | arg # _ \<Rightarrow>
          if arg = [] then []
          else [SendTo (ip_of c 0 0) \<lparr>MsgType = MsgInject, msg_Content = PString arg\<rparr>])"

definition handleCmdHelp :: "config \<Rightarrow> string list \<Rightarrow> effect list" where
  "handleCmdHelp c args = []"

definition commands :: "string \<Rightarrow> (config \<Rightarrow> string list \<Rightarrow> effect list) option" where
  "commands cmd = (if cmd = ''propose'' then Some handleCmdPropose else if cmd = ''help'' then Some handleCmdHelp else None)"

definition processInput :: "config \<Rightarrow> string \<Rightarrow> effect list" where
  "processInput c input =
     (let parts = SplitN2 input; cmd = map lower (parts ! 0) in
      case commands cmd of
        None \<Rightarrow> []
      | Some handler \<Rightarrow> handler c (if 1 < length parts then [parts ! 1] else []))"

text \<open>The lines \<open>inputRoutine\<close> passes on; afterwards it closes the channel.\<close>

definition inputRoutine :: "string list \<Rightarrow> string list" where
  "inputRoutine lines = filter (\<lambda>i. i \<noteq> []) (map TrimSpace lines)"

text \<open>
  One iteration of the loop of \<open>Run\<close>: what is left of the input, the effects, and whether it goes on.
  A receive from the closed channel yields the empty string at once.
\<close>

definition sendString_iteration ::
  "config \<Rightarrow> bool \<Rightarrow> string list \<Rightarrow> (string list \<times> effect list) option" where
  "sendString_iteration c cancelled chan =
     (if cancelled then None
      else (case chan of
              [] \<Rightarrow> Some ([], processInput c [])
            | input # rest \<Rightarrow> Some (rest, processInput c input)))"

lemma TrimSpace_pad:
  assumes "\<forall>ch \<in> set (l @ r). is_space ch" and "x \<noteq> []" and "\<not> is_space (hd x)" and "\<not> is_space (last x)"
  shows "TrimSpace (l @ x @ r) = x"
proof -
  have d: "dropWhile is_space (ys @ xs @ zs) = xs @ zs"
    if "\<forall>ch \<in> set ys. is_space ch" "xs \<noteq> []" "\<not> is_space (hd xs)" for xs ys zs
    using that by (cases xs) (auto simp: dropWhile_append2)
  have "dropWhile is_space (rev r @ rev x @ []) = rev x @ []"
    using assms by (intro d) (auto simp: hd_rev)
  with d [of l x r] assms show ?thesis by (simp add: TrimSpace_def)
qed

lemma processInput_propose:
  assumes "map lower p = ''propose''" and "v \<noteq> []"
  shows "processInput c (p @ '' '' @ v) = [SendTo (ip_of c 0 0) \<lparr>MsgType = MsgInject, msg_Content = PString v\<rparr>]"
proof -
  have "ch \<noteq> CHR '' ''" if "ch \<in> set p" for ch
  proof
    assume "ch = CHR '' ''"
    with that have "lower (CHR '' '') \<in> set (map lower p)" by auto
    then show False unfolding assms(1) by (simp add: lower_def)
  qed
  then have "takeWhile (\<lambda>ch. ch \<noteq> CHR '' '') (p @ '' '' @ v) = p" "dropWhile (\<lambda>ch. ch \<noteq> CHR '' '') (p @ '' '' @ v) = '' '' @ v"
    by (simp_all add: takeWhile_append2 dropWhile_append2)
  with assms show ?thesis by (simp add: processInput_def SplitN2_def Let_def commands_def handleCmdPropose_def)
qed

text \<open>
  A line typed at the client is proposed as typed: \<open>propose\<close> in any capitalisation, a blank and a text,
  with blanks around, is injected as that text, and the view node that receives it appends it to
  its queue.  After the end of the input the loop does not wait: it goes on with empty commands.
\<close>

theorem typed_text_is_queued:
  assumes "v \<noteq> []" and "\<not> is_space (last v)" and "map lower p = ''propose''" and "\<forall>ch \<in> set (l @ r). is_space ch"
  shows "\<exists>m. concat (map (processInput c) (inputRoutine [l @ p @ '' '' @ v @ r])) = [SendTo (ip_of c 0 0) m] \<and>
    stringQueue (psm_handleInject m s) = Enqueue v (stringQueue s) \<and>
    sendString_iteration c False [] = Some ([], [])"
proof -
  have ne: "p \<noteq> []" using assms(3) by auto
  have "lower (hd p) = CHR ''p''" using assms(3) ne by (cases p) auto
  then have "\<not> is_space (hd p)" by (auto simp: is_space_def lower_def)
  with assms(1,2) ne have "TrimSpace (l @ (p @ '' '' @ v) @ r) = p @ '' '' @ v"
    by (intro TrimSpace_pad [OF assms(4)]) simp_all
  then have "inputRoutine [l @ p @ '' '' @ v @ r] = [p @ '' '' @ v]" by (simp add: inputRoutine_def)
  moreover have "processInput c [] = []" by (simp add: processInput_def SplitN2_def commands_def)
  ultimately show ?thesis
    using processInput_propose [OF assms(3,1)] by (simp add: sendString_iteration_def psm_handleInject_def)
qed

theorem typed_text_is_queued_witness:
  "\<exists>m. concat (map (processInput example_config) (inputRoutine [''  Propose A b '' ])) = [SendTo (ip_of example_config 0 0) m] \<and>
    items (stringQueue (psm_handleInject m (NewProposeStringAuxiliaryMod 0 None))) = [''A b'']"
proof -
  have "map lower ''Propose'' = ''propose''" by code_simp
  from typed_text_is_queued [OF _ _ this, of "''A b''" "''  ''" "'' ''" example_config "NewProposeStringAuxiliaryMod 0 None"]
  show ?thesis by (auto simp: is_space_def NewProposeStringAuxiliaryMod_def NewQueue_def Enqueue_def)
qed

end
