(* ===== verification/DeltaBB.thy ===== *)
theory DeltaBB
  imports Rounds "HOL-Library.AList"
begin

text \<open>
  The 1-Delta-BB* protocol with the embedded BADS* (consensusMod/tbb/handler_1deltaBB.go).  As in
  theory DolevStrong a handler returns state, effects and the end of its goroutine, and the
  goroutines that sleep are entries of \<open>dbb_timers\<close>.  \<open>QCMap\<close> is an association list with
  distinct keys.  \<open>trigger\<close> is the number of tokens in the buffered channel
  \<open>CommitPoint1Trigger\<close> of capacity 1; a send on the full channel blocks (\<open>Spins\<close>).
\<close>

datatype dbb_timer =
    BAStart                          \<comment> \<open>at 4 ticks: enter BADS*\<close>
  | FinalCommit                      \<comment> \<open>at f + 6 ticks\<close>
  | DbbDone                          \<comment> \<open>on the view node: end of the round\<close>
  | VoteTimer                        \<comment> \<open>one tick after a proposal\<close>
  | AggForward bytes signature       \<comment> \<open>at 6 ticks: send the aggregate\<close>

record dbb =
  dbb_Nid :: int
  dbb_view :: int
  dbb_Ipaddr :: string
  dbb_SecKey :: "bytes option"
  dbb_startTime :: "time atomic_value"
  voteMap :: "string \<rightharpoonup> signature goset"
  QCMap :: "(string \<times> signature) list"
  proposeSet :: "string goset"
  BlckSet :: "string goset"
  BAproposeMap :: "string \<rightharpoonup> signature goset"
  BABlckSet :: "string goset"
  trigger :: nat
  isCommit :: bool
  dbb_CommitValue :: string
  dbb_timers :: "(time \<times> dbb_timer) list"

definition New_1Delta_BBConsensusMod :: "int \<Rightarrow> string \<Rightarrow> bytes option \<Rightarrow> time \<Rightarrow> dbb" where
  "New_1Delta_BBConsensusMod nid ip sk now =
     \<lparr>dbb_Nid = nid, dbb_view = 0, dbb_Ipaddr = ip, dbb_SecKey = sk, dbb_startTime = NewAtomicValue now,
      voteMap = Map.empty, QCMap = [], proposeSet = NewSet, BlckSet = NewSet, BAproposeMap = Map.empty,
      BABlckSet = NewSet, trigger = 0, isCommit = False, dbb_CommitValue = [], dbb_timers = []\<rparr>"

type_synonym dbb_result = "dbb \<times> effect list \<times> fin"

definition ticks :: "config \<Rightarrow> int \<Rightarrow> time" where
  "ticks c n = n * TickInterval c * Millisecond"

definition dbb_HandleInitMsg :: "config \<Rightarrow> time \<Rightarrow> message \<Rightarrow> dbb \<Rightarrow> dbb_result" where
  "dbb_HandleInitMsg c now msg s =
     (case decode_time (msg_Content msg) of
        None \<Rightarrow> (s, [], Done)
      | Some start \<Rightarrow>
          let s1 = s\<lparr>dbb_startTime := snd (av_Set start None (dbb_startTime s)),
                     voteMap := Map.empty, QCMap := [], proposeSet := Clear (proposeSet s),
                     BlckSet := Clear (BlckSet s), BAproposeMap := Map.empty,
                     BABlckSet := Clear (BABlckSet s), trigger := 0, isCommit := False,
                     dbb_CommitValue := []\<rparr>;
              t0 = av_Get (dbb_startTime s1)
          in (s1\<lparr>dbb_timers := dbb_timers s1 @
                   [(t0 + ticks c 4, BAStart), (t0 + ticks c (maliciousNodes c + 6), FinalCommit)] @
                   (if dbb_Nid s1 = dbb_view s1 then [(now + ticks c (NodeNum c + 7), DbbDone)] else [])\<rparr>,
              [], Done))"

text \<open>The entry of a signature map, created empty when the key is absent.\<close>

definition sigs_of :: "(string \<rightharpoonup> signature goset) \<Rightarrow> string \<Rightarrow> signature goset" where
  "sigs_of m v = (case m v of None \<Rightarrow> NewSet | Some S \<Rightarrow> S)"

text \<open>\<open>checkSig\<close> and \<open>checkSigList\<close> are stubs.\<close>

definition checkSig :: "signature option \<Rightarrow> bool" where
  "checkSig sig = True"

definition dbb_checkSigList :: "signature option list \<Rightarrow> bool" where
  "dbb_checkSigList sigs = True"

definition dbb_HandleProposeMsg :: "config \<Rightarrow> time \<Rightarrow> message \<Rightarrow> dbb \<Rightarrow> dbb_result" where
  "dbb_HandleProposeMsg c now msg s =
     (case decode_request (msg_Content msg) of
        None \<Rightarrow> (s, [], Done)
      | Some req \<Rightarrow>
          if checkSig (Sig req) then
            let s1 = s\<lparr>proposeSet := Add (Content req) (proposeSet s)\<rparr>
            in (s1\<lparr>dbb_timers := dbb_timers s1 @ [(now + ticks c 1, VoteTimer)]\<rparr>,
                (if dbb_Nid s1 \<noteq> dbb_view s1
                 then [Broadcast 0 \<lparr>MsgType = MsgForward1, msg_Content = PRequest req\<rparr>] else []),
                Done)
          else (s, [], Done))"

definition vote_msg :: "vote_content \<Rightarrow> message" where
  "vote_msg vc = \<lparr>MsgType = MsgVote, msg_Content = PVote vc\<rparr>"

text \<open>The body of the vote goroutine.  Signing empty content gives nil, whose dereference panics.\<close>

definition try_vote ::
  "bls \<Rightarrow> (bytes \<Rightarrow> bytes) \<Rightarrow> (string list \<Rightarrow> string list) \<Rightarrow> dbb \<Rightarrow> dbb_result" where
  "try_vote B sha256 ord s =
     (if Size (proposeSet s) = 1 then
        let v = GetItems ord (proposeSet s) ! 0;
            sig = Sign B sha256 (dbb_SecKey s) v in
        (case sig of
           None \<Rightarrow> (s, [], Crashes NilDereference)
         | Some g \<Rightarrow>
             (s\<lparr>voteMap := (voteMap s)(v \<mapsto> Add g (sigs_of (voteMap s) v))\<rparr>,
              [Broadcast 0 (vote_msg \<lparr>vc_NodeId = dbb_Nid s, vc_Content = v, vc_Sig = sig\<rparr>)], Done))
      else (s, [], Done))"

definition dbb_HandleForward1Msg :: "message \<Rightarrow> dbb \<Rightarrow> dbb_result" where
  "dbb_HandleForward1Msg msg s =
     (case decode_request (msg_Content msg) of
        None \<Rightarrow> (s, [], Done)
      | Some req \<Rightarrow>
          if checkSig (Sig req) then
            if Contains (Content req) (proposeSet s) then (s, [], Done)
            else (s\<lparr>proposeSet := Add (Content req) (proposeSet s)\<rparr>, [], Done)
          else (s, [], Done))"

definition qc_msg :: "qc_content \<Rightarrow> message" where
  "qc_msg qc = \<lparr>MsgType = MsgQC, msg_Content = PQC qc\<rparr>"

text \<open>The part of \<open>HandleVoteMsg\<close> after the vote was counted; \<open>now\<close> is the clock it reads.\<close>

definition make_QC ::
  "config \<Rightarrow> bls \<Rightarrow> (signature list \<Rightarrow> signature list) \<Rightarrow> time \<Rightarrow> string \<Rightarrow> dbb \<Rightarrow> dbb_result" where
  "make_QC c B ord now v s =
     (if int (Size (sigs_of (voteMap s) v)) = NodeNum c - maliciousNodes c then
        if map_of (QCMap s) v \<noteq> None then (s, [], Done)
        else
          (case AggregateSignatures B (map Some (GetItemRefs ord (sigs_of (voteMap s) v))) of
             None \<Rightarrow> (s, [], Done)
           | Some aggSig \<Rightarrow>
               let s1 = s\<lparr>QCMap := AList.update v aggSig (QCMap s), BlckSet := Add v (BlckSet s)\<rparr> in
               if Size (BlckSet s1) = 1 \<and> now - av_Get (dbb_startTime s1) < ticks c 3 then
                 let s2 = s1\<lparr>dbb_CommitValue := v, isCommit := True\<rparr> in
                 if 1 \<le> trigger s2 then (s2, [], Spins)
                 else (s2\<lparr>trigger := trigger s2 + 1\<rparr>,
                       [Broadcast 0 (qc_msg \<lparr>qc_Content = v, qc_Sig = Some aggSig\<rparr>)], Done)
               else (s1, [], Done))
      else (s, [], Done))"

definition dbb_HandleVoteMsg ::
  "config \<Rightarrow> bls \<Rightarrow> (signature list \<Rightarrow> signature list) \<Rightarrow> time \<Rightarrow> message \<Rightarrow> dbb \<Rightarrow> dbb_result" where
  "dbb_HandleVoteMsg c B ord now msg s =
     (case decode_vote (msg_Content msg) of
        None \<Rightarrow> (s, [], Done)
      | Some vc \<Rightarrow>
          if checkSig (vc_Sig vc) then
            let v = vc_Content vc;
                s1 = s\<lparr>voteMap := (voteMap s)(v \<mapsto> sigs_of (voteMap s) v)\<rparr> in
            (case vc_Sig vc of
               None \<Rightarrow> (s1, [], Crashes NilDereference)
             | Some g \<Rightarrow> make_QC c B ord now v
                 (s1\<lparr>voteMap := (voteMap s1)(v \<mapsto> Add g (sigs_of (voteMap s1) v))\<rparr>))
          else (s, [], Done))"

text \<open>The detection of a dishonest majority is not implemented in the source.\<close>

definition dbb_HandleQCMsg :: "message \<Rightarrow> dbb \<Rightarrow> dbb_result" where
  "dbb_HandleQCMsg msg s = (s, [], Done)"

definition forward2_msg :: "tbb_sig_list \<Rightarrow> message" where
  "forward2_msg l = \<lparr>MsgType = MsgForward2, msg_Content = PTbbSigList l\<rparr>"

text \<open>The body of the goroutine that enters BADS*.\<close>

definition ba_start ::
  "bls \<Rightarrow> (bytes \<Rightarrow> bytes) \<Rightarrow> (string list \<Rightarrow> string list) \<Rightarrow> dbb \<Rightarrow> dbb_result" where
  "ba_start B sha256 ord s =
     (let input = (if Size (BlckSet s) = 1 then GetItems ord (BlckSet s) ! 0 else ''0'');
          sig = Sign B sha256 (dbb_SecKey s) input;
          s1 = s\<lparr>BAproposeMap := (BAproposeMap s)(input \<mapsto> sigs_of (BAproposeMap s) input)\<rparr> in
      (case sig of
         None \<Rightarrow> (s1, [], Crashes NilDereference)
       | Some g \<Rightarrow>
           (s1\<lparr>BAproposeMap := (BAproposeMap s1)(input \<mapsto> Add g (sigs_of (BAproposeMap s1) input))\<rparr>,
            [Broadcast 0 (forward2_msg \<lparr>sl_Input = input, sl_SigList = [sig], sl_NodeList = [dbb_Nid s1]\<rparr>)], Done)))"

text \<open>The body of the final commit goroutine.\<close>

definition final_commit :: "(string list \<Rightarrow> string list) \<Rightarrow> dbb \<Rightarrow> dbb_result" where
  "final_commit ord s =
     (if isCommit s then (s, [], Done)
      else if Size (BABlckSet s) = 1
      then (s\<lparr>dbb_CommitValue := GetItems ord (BABlckSet s) ! 0\<rparr>, [], Done)
      else (s\<lparr>dbb_CommitValue := ''0''\<rparr>, [], Done))"

text \<open>Before five ticks a forward message is a BADS* proposal.\<close>

definition ba_propose ::
  "config \<Rightarrow> bls \<Rightarrow> (signature list \<Rightarrow> signature list) \<Rightarrow> tbb_sig_list \<Rightarrow> dbb \<Rightarrow> dbb_result" where
  "ba_propose c B ord l s =
     (let v = sl_Input l;
          s1 = s\<lparr>BAproposeMap := (BAproposeMap s)(v \<mapsto> sigs_of (BAproposeMap s) v)\<rparr> in
      (case sl_SigList l of
         [] \<Rightarrow> (s1, [], Crashes IndexOutOfRange)
       | None # _ \<Rightarrow> (s1, [], Crashes NilDereference)
       | Some g # _ \<Rightarrow>
           let s2 = s1\<lparr>BAproposeMap := (BAproposeMap s1)(v \<mapsto> Add g (sigs_of (BAproposeMap s1) v))\<rparr> in
           if int (Size (sigs_of (BAproposeMap s2) v)) = NodeNum c - maliciousNodes c then
             (case AggregateSignatures B (map Some (GetItemRefs ord (sigs_of (BAproposeMap s2) v))) of
                None \<Rightarrow> (s2, [], Done)
              | Some aggSig \<Rightarrow>
                  (s2\<lparr>dbb_timers := dbb_timers s2 @
                       [(av_Get (dbb_startTime s2) + ticks c 6, AggForward v aggSig)]\<rparr>, [], Done))
           else (s2, [], Done)))"

text \<open>
  From five ticks on it is handled as in Dolev-Strong, with rounds shifted by five: the loop
  ends when \<open>round - 5 < sigLen\<close>.
\<close>

definition ba_forward ::
  "config \<Rightarrow> bls \<Rightarrow> (bytes \<Rightarrow> bytes) \<Rightarrow> (nat \<Rightarrow> reading) \<Rightarrow> tbb_sig_list \<Rightarrow> dbb \<Rightarrow> dbb_result" where
  "ba_forward c B sha256 clk l s =
     (if Contains (sl_Input l) (BABlckSet s) then (s, [], Done)
      else if TickInterval c = 0 then (s, [], Crashes DivideByZero)
      else
        let sigLen = length (sl_SigList l);
            round = round_at c (clk 0) - 5;
            warned = (int sigLen \<noteq> round \<and> int sigLen \<noteq> round + 1);
            s1 = s\<lparr>BABlckSet := Add (sl_Input l) (BABlckSet s)\<rparr> in
        (case wait_round c (int sigLen + 5) clk 1 of
           None \<Rightarrow> (s1, [], Spins)
         | Some _ \<Rightarrow>
             (s1, [Broadcast 0 (forward2_msg (l\<lparr>
                sl_SigList := sl_SigList l @ [Sign B sha256 (dbb_SecKey s1) (sl_Input l)],
                sl_NodeList := sl_NodeList l @ [dbb_Nid s1]\<rparr>))], Done)))"

text \<open>Reading 0 of the clock is the one the handler takes, the later ones are the loop's.\<close>

definition dbb_HandleForward2Msg ::
  "config \<Rightarrow> bls \<Rightarrow> (bytes \<Rightarrow> bytes) \<Rightarrow> (signature list \<Rightarrow> signature list) \<Rightarrow> (nat \<Rightarrow> reading) \<Rightarrow>
   message \<Rightarrow> dbb \<Rightarrow> dbb_result" where
  "dbb_HandleForward2Msg c B sha256 ord clk msg s =
     (case decode_tbb_sig_list (msg_Content msg) of
        None \<Rightarrow> (s, [], Done)
      | Some l \<Rightarrow>
          if dbb_checkSigList (sl_SigList l) then
            if fst (clk 0) - snd (clk 0) < ticks c 5 then ba_propose c B ord l s
            else ba_forward c B sha256 clk l s
          else (s, [], Done))"

text \<open>What a sleeping goroutine does when it wakes up.\<close>

definition dbb_fire ::
  "config \<Rightarrow> bls \<Rightarrow> (bytes \<Rightarrow> bytes) \<Rightarrow> (string list \<Rightarrow> string list) \<Rightarrow> dbb_timer \<Rightarrow> dbb \<Rightarrow> dbb_result" where
  "dbb_fire c B sha256 ord t s =
     (case t of
        BAStart \<Rightarrow> ba_start B sha256 ord s
      | FinalCommit \<Rightarrow> final_commit ord s
      | DbbDone \<Rightarrow> (s, [CallHandler MsgConsensusDone], Done)
      | VoteTimer \<Rightarrow> try_vote B sha256 ord s
      | AggForward v aggSig \<Rightarrow>
          (s, [Broadcast 0 (forward2_msg \<lparr>sl_Input = v, sl_SigList = [Some aggSig], sl_NodeList = [-1]\<rparr>)], Done))"

definition dbb_dispatch ::
  "config \<Rightarrow> bls \<Rightarrow> (bytes \<Rightarrow> bytes) \<Rightarrow> (signature list \<Rightarrow> signature list) \<Rightarrow> (nat \<Rightarrow> reading) \<Rightarrow>
   message \<Rightarrow> dbb \<Rightarrow> dbb_result" where
  "dbb_dispatch c B sha256 ord clk msg s =
     (case MsgType msg of
        MsgInit \<Rightarrow> dbb_HandleInitMsg c (fst (clk 0)) msg s
      | MsgPropose \<Rightarrow> dbb_HandleProposeMsg c (fst (clk 0)) msg s
      | MsgForward1 \<Rightarrow> dbb_HandleForward1Msg msg s
      | MsgForward2 \<Rightarrow> dbb_HandleForward2Msg c B sha256 ord clk msg s
      | MsgVote \<Rightarrow> dbb_HandleVoteMsg c B ord (fst (clk 0)) msg s
      | MsgQC \<Rightarrow> dbb_HandleQCMsg msg s
      | _ \<Rightarrow> (s, [], Done))"

section \<open>Runs\<close>

text \<open>A message, a goroutine that wakes up, or the receiver of the channel taking the token.\<close>

datatype dbb_event = DMsg "nat \<Rightarrow> reading" message | DFire dbb_timer | DTake

fun dbb_step ::
  "config \<Rightarrow> bls \<Rightarrow> (bytes \<Rightarrow> bytes) \<Rightarrow> (string list \<Rightarrow> string list) \<Rightarrow> dbb_event \<Rightarrow> dbb \<Rightarrow> dbb_result" where
  "dbb_step c B sha256 ord (DMsg clk m) s = dbb_dispatch c B sha256 ord clk m s"
| "dbb_step c B sha256 ord (DFire t) s = dbb_fire c B sha256 ord t s"
| "dbb_step c B sha256 ord DTake s = (s\<lparr>trigger := trigger s - 1\<rparr>, [], Done)"

text \<open>States of the module under any sequence of events; every set iteration has its own order.\<close>

inductive dbb_reach :: "config \<Rightarrow> bls \<Rightarrow> (bytes \<Rightarrow> bytes) \<Rightarrow> dbb \<Rightarrow> bool" for c B sha256 where
  new: "dbb_reach c B sha256 (New_1Delta_BBConsensusMod nid ip sk now)"
| event: "dbb_reach c B sha256 s \<Longrightarrow> map_order ord \<Longrightarrow> dbb_step c B sha256 ord e s = (s', es, f) \<Longrightarrow>
    dbb_reach c B sha256 s'"

section \<open>The invariant\<close>

definition sigs_invar :: "(string \<rightharpoonup> signature goset) \<Rightarrow> bool" where
  "sigs_invar m \<longleftrightarrow> (\<forall>v. set_invar (sigs_of m v))"

definition quorum_met :: "config \<Rightarrow> dbb \<Rightarrow> string \<Rightarrow> bool" where
  "quorum_met c s v \<longleftrightarrow> NodeNum c - maliciousNodes c \<le> int (Size (sigs_of (voteMap s) v))"

definition keys :: "(string \<times> signature) list \<Rightarrow> string set" where
  "keys al = fst ` set al"

definition dbb_inv :: "config \<Rightarrow> dbb \<Rightarrow> bool" where
  "dbb_inv c s \<longleftrightarrow>
     set_invar (proposeSet s) \<and> set_invar (BlckSet s) \<and> set_invar (BABlckSet s) \<and>
     sigs_invar (voteMap s) \<and> sigs_invar (BAproposeMap s) \<and>
     keys (QCMap s) = elems (BlckSet s) \<and> (\<forall>v \<in> elems (BlckSet s). quorum_met c s v) \<and>
     trigger s \<le> 1 \<and> (elems (BlckSet s) = {} \<longrightarrow> trigger s = 0 \<and> \<not> isCommit s) \<and>
     (trigger s = 1 \<longrightarrow> isCommit s) \<and> (isCommit s \<longrightarrow> dbb_CommitValue s \<in> elems (BlckSet s))"

lemma sigs_of_upd: "sigs_of (m(v \<mapsto> S)) w = (if w = v then S else sigs_of m w)"
  by (simp add: sigs_of_def)

lemma sigs_of_touch [simp]: "sigs_of (m(v \<mapsto> sigs_of m v)) = sigs_of m"
  by (simp add: fun_eq_iff sigs_of_upd)

lemma sigs_invar_add: "sigs_invar m \<Longrightarrow> sigs_invar (m(v \<mapsto> Add g (sigs_of m v)))"
  by (simp add: sigs_invar_def sigs_of_upd gs.invar_add)

lemma sigs_invar_touch [simp]: "sigs_invar (m(v \<mapsto> sigs_of m v)) = sigs_invar m"
  by (simp add: sigs_invar_def)

lemma sigs_invar_empty [simp]: "sigs_invar Map.empty"
  by (simp add: sigs_invar_def sigs_of_def gs.invar_empty)

lemma Clear_facts [simp]: "elems (Clear s) = {}" "set_invar (Clear s)"
  by (simp_all add: Clear_def elems_def set_invar_def)

lemma NewSet_facts [simp]: "elems NewSet = {}" "set_invar NewSet"
  by (simp_all add: NewSet_def elems_def set_invar_def)

lemma keys_Nil [simp]: "keys [] = {}"
  by (simp add: keys_def)

lemma keys_update: "keys (AList.update k v al) = insert k (keys al)"
proof -
  have "dom (map_of (AList.update k v al)) = insert k (dom (map_of al))" by (simp add: update_conv')
  then show ?thesis by (simp add: dom_map_of_conv_image_fst keys_def)
qed

lemma dbb_inv_new: "dbb_inv c (New_1Delta_BBConsensusMod nid ip sk now)"
  by (simp add: dbb_inv_def New_1Delta_BBConsensusMod_def)

lemma dbb_inv_init:
  "dbb_HandleInitMsg c now m s = (s', es, f) \<Longrightarrow> dbb_inv c s \<Longrightarrow> dbb_inv c s'"
  by (auto simp: dbb_HandleInitMsg_def dbb_inv_def Let_def split: option.splits if_splits)

lemma dbb_inv_sets:
  "dbb_inv c s \<Longrightarrow> dbb_inv c (s\<lparr>proposeSet := Add v (proposeSet s)\<rparr>)"
  "dbb_inv c s \<Longrightarrow> dbb_inv c (s\<lparr>dbb_timers := ts\<rparr>)"
  "dbb_inv c s \<Longrightarrow> dbb_inv c (s\<lparr>BABlckSet := Add v (BABlckSet s)\<rparr>)"
  "dbb_inv c s \<Longrightarrow> sigs_invar m \<Longrightarrow> dbb_inv c (s\<lparr>BAproposeMap := m\<rparr>)"
  "dbb_inv c s \<Longrightarrow> sigs_invar (BAproposeMap s)"
  "dbb_inv c s \<Longrightarrow> \<not> isCommit s \<Longrightarrow> dbb_inv c (s\<lparr>dbb_CommitValue := v\<rparr>)"
  by (simp_all add: dbb_inv_def quorum_met_def gs.invar_add)

lemma dbb_inv_propose:
  assumes "dbb_HandleProposeMsg c now m s = (s', es, f)" and "dbb_inv c s"
  shows "dbb_inv c s'"
proof (cases "decode_request (msg_Content m)")
  case (Some req)
  with assms(1) have "s' = s\<lparr>proposeSet := Add (Content req) (proposeSet s)\<rparr>
      \<lparr>dbb_timers := dbb_timers s @ [(now + ticks c 1, VoteTimer)]\<rparr>"
    by (simp add: dbb_HandleProposeMsg_def checkSig_def Let_def)
  with assms(2) show ?thesis by (simp only: dbb_inv_sets)
qed (use assms in \<open>simp add: dbb_HandleProposeMsg_def\<close>)

lemma dbb_inv_forward1:
  "dbb_HandleForward1Msg m s = (s', es, f) \<Longrightarrow> dbb_inv c s \<Longrightarrow> dbb_inv c s'"
  by (auto simp: dbb_HandleForward1Msg_def checkSig_def intro: dbb_inv_sets split: option.splits if_splits)

lemma dbb_inv_vote:
  assumes "dbb_inv c s"
  shows "dbb_inv c (s\<lparr>voteMap := (voteMap s)(v \<mapsto> Add g (sigs_of (voteMap s) v))\<rparr>)"
proof -
  have i: "set_invar (sigs_of (voteMap s) v)" using assms by (simp add: dbb_inv_def sigs_invar_def)
  have "quorum_met c s w \<Longrightarrow> quorum_met c (s\<lparr>voteMap := (voteMap s)(v \<mapsto> Add g (sigs_of (voteMap s) v))\<rparr>) w" for w
    using gs.size_add_mono [OF i, of g] by (auto simp: quorum_met_def sigs_of_upd)
  with assms show ?thesis by (simp add: dbb_inv_def sigs_invar_add)
qed

lemma dbb_inv_try_vote: "try_vote B sha ord s = (s', es, f) \<Longrightarrow> dbb_inv c s \<Longrightarrow> dbb_inv c s'"
  by (auto simp: try_vote_def Let_def intro: dbb_inv_vote split: option.splits if_splits)

lemma make_QC_inv:
  assumes inv: "dbb_inv c s" and m: "make_QC c B ord now v s = (s', es, f)"
  shows "dbb_inv c s' \<and> f = Done"
proof (cases "int (Size (sigs_of (voteMap s) v)) = NodeNum c - maliciousNodes c \<and> map_of (QCMap s) v = None")
  case False
  with inv m show ?thesis by (auto simp: make_QC_def split: if_splits)
next
  case q: True
  show ?thesis
  proof (cases "AggregateSignatures B (map Some (GetItemRefs ord (sigs_of (voteMap s) v)))")
    case None
    with inv m q show ?thesis by (simp add: make_QC_def)
  next
    case (Some agg)
    let ?s1 = "s\<lparr>QCMap := AList.update v agg (QCMap s), BlckSet := Add v (BlckSet s)\<rparr>"
    have b: "set_invar (BlckSet s)" "keys (QCMap s) = elems (BlckSet s)" using inv by (auto simp: dbb_inv_def)
    have fresh: "v \<notin> elems (BlckSet s)" using q b(2) by (simp add: map_of_eq_None_iff keys_def)
    have e: "elems (Add v (BlckSet s)) = insert v (elems (BlckSet s))" "set_invar (Add v (BlckSet s))"
      using b(1) by (simp_all add: gs.abs_add gs.invar_add)
    have i1: "dbb_inv c ?s1 \<or> elems (BlckSet s) = {}" "elems (BlckSet s) = {} \<longrightarrow> trigger s = 0 \<and> \<not> isCommit s"
      using inv e b q by (auto simp: dbb_inv_def quorum_met_def keys_update)
    have i2: "dbb_inv c ?s1" if "elems (BlckSet s) = {}"
      using that inv e b q i1(2) by (auto simp: dbb_inv_def quorum_met_def keys_update)
    with i1 have inv1: "dbb_inv c ?s1" by blast
    show ?thesis
    proof (cases "Size (Add v (BlckSet s)) = 1")
      case True
      then have "card (insert v (elems (BlckSet s))) = 1"
        using gs.size_card [OF e(2)] e(1) by simp
      then have "insert v (elems (BlckSet s)) = {v}"
        using singleton_of_card [of "insert v (elems (BlckSet s))" v] by (metis card.infinite insertI1 zero_neq_one)
      with fresh have "elems (BlckSet s) = {}" by auto
      with i1(2) have t: "trigger s = 0" by blast
      have "dbb_inv c (?s1\<lparr>dbb_CommitValue := v, isCommit := True, trigger := Suc 0\<rparr>)"
        using inv1 e(1) by (simp add: dbb_inv_def quorum_met_def)
      with m q Some True t inv1 show ?thesis
        by (auto simp: make_QC_def Let_def split: if_splits)
    next
      case False
      with m q Some inv1 show ?thesis by (simp add: make_QC_def Let_def)
    qed
  qed
qed

lemma dbb_inv_HandleVote:
  assumes inv: "dbb_inv c s" and m: "dbb_HandleVoteMsg c B ord now m s = (s', es, f)"
  shows "dbb_inv c s' \<and> f \<noteq> Spins"
proof (cases "decode_vote (msg_Content m)")
  case (Some vc)
  let ?v = "vc_Content vc"
  let ?s1 = "s\<lparr>voteMap := (voteMap s)(?v \<mapsto> sigs_of (voteMap s) ?v)\<rparr>"
  have i1: "dbb_inv c ?s1" using inv by (simp add: dbb_inv_def quorum_met_def)
  show ?thesis
  proof (cases "vc_Sig vc")
    case None
    with m Some i1 show ?thesis by (auto simp: dbb_HandleVoteMsg_def checkSig_def Let_def)
  next
    case (Some g)
    let ?s2 = "?s1\<lparr>voteMap := (voteMap ?s1)(?v \<mapsto> Add g (sigs_of (voteMap ?s1) ?v))\<rparr>"
    have "dbb_inv c ?s2" by (rule dbb_inv_vote [OF i1])
    moreover have "make_QC c B ord now ?v ?s2 = (s', es, f)"
      using m Some \<open>decode_vote (msg_Content m) = Some vc\<close>
      by (simp add: dbb_HandleVoteMsg_def checkSig_def Let_def)
    ultimately show ?thesis using make_QC_inv by blast
  qed
qed (use inv m in \<open>simp add: dbb_HandleVoteMsg_def\<close>)

lemma dbb_inv_ba_start: "ba_start B sha ord s = (s', es, f) \<Longrightarrow> dbb_inv c s \<Longrightarrow> dbb_inv c s'"
  by (auto simp: ba_start_def Let_def dbb_inv_sets sigs_invar_add split: option.splits)

lemma dbb_inv_ba_propose: "ba_propose c B ord l s = (s', es, f) \<Longrightarrow> dbb_inv c s \<Longrightarrow> dbb_inv c s'"
  by (auto simp: ba_propose_def Let_def dbb_inv_sets sigs_invar_add
      split: option.splits list.splits if_splits)

lemma dbb_inv_ba_forward: "ba_forward c B sha clk l s = (s', es, f) \<Longrightarrow> dbb_inv c s \<Longrightarrow> dbb_inv c s'"
  by (auto simp: ba_forward_def Let_def dbb_inv_sets split: option.splits if_splits)

lemma dbb_inv_final: "final_commit ord s = (s', es, f) \<Longrightarrow> dbb_inv c s \<Longrightarrow> dbb_inv c s'"
  by (auto simp: final_commit_def intro: dbb_inv_sets split: if_splits)

lemma dbb_inv_fire: "dbb_fire c B sha ord t s = (s', es, f) \<Longrightarrow> dbb_inv c s \<Longrightarrow> dbb_inv c s'"
  by (cases t) (auto simp: dbb_fire_def intro: dbb_inv_ba_start dbb_inv_final dbb_inv_try_vote)

lemma dbb_inv_dispatch: "dbb_dispatch c B sha ord clk m s = (s', es, f) \<Longrightarrow> dbb_inv c s \<Longrightarrow> dbb_inv c s'"
  by (cases "MsgType m")
    (auto simp: dbb_dispatch_def dbb_HandleQCMsg_def dbb_HandleForward2Msg_def dbb_checkSigList_def
      split: option.splits if_splits
      dest: dbb_inv_init dbb_inv_propose dbb_inv_forward1 dbb_inv_HandleVote dbb_inv_ba_propose dbb_inv_ba_forward)

lemma dbb_inv_step: "dbb_step c B sha ord e s = (s', es, f) \<Longrightarrow> dbb_inv c s \<Longrightarrow> dbb_inv c s'"
proof (cases e)
  case DTake
  assume "dbb_step c B sha ord e s = (s', es, f)" and "dbb_inv c s"
  with DTake show ?thesis by (auto simp: dbb_inv_def quorum_met_def)
qed (auto intro: dbb_inv_fire dbb_inv_dispatch)

lemma dbb_inv_reach: "dbb_reach c B sha s \<Longrightarrow> dbb_inv c s"
  by (induction rule: dbb_reach.induct) (auto intro: dbb_inv_new dbb_inv_step)

section \<open>Properties\<close>

text \<open>
  C17: quorum certificates: in every reachable state, under every order of messages and timers, a
  value has a certificate exactly when it is in \<open>BlckSet\<close>, each such value has at least
  \<open>n - f\<close> different signatures in the vote map, and the value committed at commit point 1 has a
  certificate.
\<close>

theorem dbb_qc_certified:
  assumes "dbb_reach c B sha s"
  shows "keys (QCMap s) = elems (BlckSet s) \<and>
    (\<forall>v \<in> keys (QCMap s). NodeNum c - maliciousNodes c \<le> int (Size (sigs_of (voteMap s) v))) \<and>
    (isCommit s \<longrightarrow> dbb_CommitValue s \<in> keys (QCMap s))"
  using dbb_inv_reach [OF assms] by (auto simp: dbb_inv_def quorum_met_def)

text \<open>
  The send on the commit-point-1 channel of capacity 1 never blocks: in every reachable state a
  vote handler returns or panics, and the channel holds at most one token afterwards.
\<close>

theorem commit_point1_never_blocks:
  assumes "dbb_reach c B sha s" and "dbb_HandleVoteMsg c B ord now m s = (s', es, f)"
  shows "f \<noteq> Spins \<and> trigger s' \<le> 1"
  using dbb_inv_HandleVote [OF dbb_inv_reach [OF assms(1)] assms(2)] by (auto simp: dbb_inv_def)

lemma certified_agree:
  assumes "dbb_reach c B sha s1" and "dbb_reach c B sha s2"
    and "v \<in> keys (QCMap s1)" and "w \<in> keys (QCMap s2)"
    and "inj_on (signer v) (elems (sigs_of (voteMap s1) v))" and "inj_on (signer w) (elems (sigs_of (voteMap s2) w))"
    and "signer v ` elems (sigs_of (voteMap s1) v) \<subseteq> {0..<NodeNum c}"
    and "signer w ` elems (sigs_of (voteMap s2) w) \<subseteq> {0..<NodeNum c}"
    and "finite F" and "int (card F) \<le> maliciousNodes c" and "3 * maliciousNodes c < NodeNum c"
    and "\<forall>i. i \<notin> F \<longrightarrow> i \<in> signer v ` elems (sigs_of (voteMap s1) v) \<longrightarrow>
      i \<in> signer w ` elems (sigs_of (voteMap s2) w) \<longrightarrow> v = w"
  shows "v = w"
proof -
  let ?A = "signer v ` elems (sigs_of (voteMap s1) v)" and ?B = "signer w ` elems (sigs_of (voteMap s2) w)"
  let ?n = "NodeNum c" and ?m = "maliciousNodes c"
  have q: "?n - ?m \<le> int (card (elems (sigs_of (voteMap s) x)))"
    if "dbb_reach c B sha s" "x \<in> keys (QCMap s)" for s x
    using dbb_inv_reach [OF that(1)] that(2) gs.size_card [of "sigs_of (voteMap s) x"]
    by (auto simp: dbb_inv_def quorum_met_def sigs_invar_def)
  have A: "?n - ?m \<le> int (card ?A)" using q [OF assms(1,3)] by (simp add: card_image [OF assms(5)])
  have B: "?n - ?m \<le> int (card ?B)" using q [OF assms(2,4)] by (simp add: card_image [OF assms(6)])
  have fin: "finite ?A" "finite ?B" using assms(7,8) finite_subset by blast+
  have "card ?A + card ?B = card (?A \<union> ?B) + card (?A \<inter> ?B)" by (rule card_Un_Int [OF fin])
  moreover have "card (?A \<union> ?B) \<le> card {0..<?n}" using assms(7,8) by (intro card_mono) auto
  moreover have "0 \<le> ?m" using assms(10) by simp
  ultimately have "card F < card (?A \<inter> ?B)" using A B assms(10,11) by simp
  then have "\<not> ?A \<inter> ?B \<subseteq> F" using card_mono [OF assms(9)] by (meson not_le)
  then obtain i where "i \<in> ?A" "i \<in> ?B" "i \<notin> F" by blast
  with assms(12) show ?thesis by blast
qed


subsection \<open>Votes of one node\<close>

fun dbb_effects ::
  "config \<Rightarrow> bls \<Rightarrow> (bytes \<Rightarrow> bytes) \<Rightarrow> ((string list \<Rightarrow> string list) \<times> dbb_event) list \<Rightarrow> dbb \<Rightarrow> effect list" where
  "dbb_effects c B sha256 [] s = []"
| "dbb_effects c B sha256 ((ord, e) # evs) s =
     (case dbb_step c B sha256 ord e s of (s', es, _) \<Rightarrow> es @ dbb_effects c B sha256 evs s')"

definition no_init :: "dbb_event \<Rightarrow> bool" where
  "no_init e \<longleftrightarrow> (case e of DMsg clk m \<Rightarrow> MsgType m \<noteq> MsgInit | _ \<Rightarrow> True)"

definition vote_value :: "effect \<Rightarrow> string option" where
  "vote_value e = (case e of Broadcast n m \<Rightarrow> (if MsgType m = MsgVote
     then map_option vc_Content (decode_vote (msg_Content m)) else None) | _ \<Rightarrow> None)"

lemma vote_value_simps [simp]:
  "vote_value (Broadcast n (vote_msg vc)) = Some (vc_Content vc)"
  "vote_value (Broadcast n (qc_msg q)) = None" "vote_value (Broadcast n (forward2_msg l)) = None"
  "vote_value (Broadcast n \<lparr>MsgType = MsgForward1, msg_Content = p\<rparr>) = None"
  "vote_value (CallHandler t) = None"
  by (simp_all add: vote_value_def vote_msg_def qc_msg_def forward2_msg_def)

lemma try_vote_value:
  assumes "try_vote B sha ord s = (s', es, f)" and "map_order ord" and "set_invar (proposeSet s)"
  shows "proposeSet s' = proposeSet s \<and> (\<forall>e \<in> set es. \<forall>v. vote_value e = Some v \<longrightarrow> elems (proposeSet s) = {v})"
proof (cases "Size (proposeSet s) = 1")
  case True
  then obtain v where v: "elems (proposeSet s) = {v}"
    using gs.size_card [OF assms(3)] by (metis card_1_singletonE)
  have g: "GetItems ord (proposeSet s) ! 0 = v" by (simp add: GetItems_singleton [OF assms(2,3) v])
  show ?thesis
  proof (cases "Sign B sha (dbb_SecKey s) v")
    case None
    with assms(1) have "s' = s" "es = []" by (simp_all add: try_vote_def True g)
    then show ?thesis by simp
  next
    case (Some sg)
    with assms(1) have "proposeSet s' = proposeSet s"
      "es = [Broadcast 0 (vote_msg \<lparr>vc_NodeId = dbb_Nid s, vc_Content = v, vc_Sig = Some sg\<rparr>)]"
      by (auto simp: try_vote_def True g)
    with v show ?thesis by simp
  qed
qed (use assms(1) in \<open>simp add: try_vote_def\<close>)

lemma make_QC_frame: "make_QC c B ord now v s = (s', es, f) \<Longrightarrow>
    proposeSet s' = proposeSet s \<and> (\<forall>e \<in> set es. vote_value e = None)"
  by (auto simp: make_QC_def Let_def split: if_splits option.splits)

text \<open>A step keeps what is in the propose set, and votes only for its single element.\<close>

lemma dbb_step_votes:
  assumes st: "dbb_step c B sha ord e s = (s', es, f)" and ord: "map_order ord" and ni: "no_init e"
    and inv: "set_invar (proposeSet s)"
  shows "set_invar (proposeSet s') \<and> elems (proposeSet s) \<subseteq> elems (proposeSet s') \<and>
    (\<forall>x \<in> set es. \<forall>v. vote_value x = Some v \<longrightarrow> elems (proposeSet s) = {v})"
proof (cases e)
  case (DFire t)
  with st inv try_vote_value [OF _ ord inv, of B sha s' es f] show ?thesis
    by (cases t) (auto simp: dbb_fire_def ba_start_def final_commit_def Let_def split: if_splits option.splits)
next
  case DTake
  with st inv show ?thesis by auto
next
  case (DMsg clk m)
  have a: "set_invar (Add v (proposeSet s))" "elems (Add v (proposeSet s)) = insert v (elems (proposeSet s))" for v
    using gs.invar_add [OF inv] gs.abs_add [OF inv] by auto
  show ?thesis
  proof (cases "MsgType m")
    case MsgVote
    with DMsg st have h: "dbb_HandleVoteMsg c B ord (fst (clk 0)) m s = (s', es, f)" by (simp add: dbb_dispatch_def)
    show ?thesis
    proof (cases "decode_vote (msg_Content m)")
      case (Some vc)
      with h inv show ?thesis
        by (cases "vc_Sig vc") (auto simp: dbb_HandleVoteMsg_def checkSig_def Let_def dest: make_QC_frame)
    qed (use h inv in \<open>simp add: dbb_HandleVoteMsg_def\<close>)
  next
    case MsgPropose
    with DMsg st a inv show ?thesis
      by (auto simp: dbb_dispatch_def dbb_HandleProposeMsg_def checkSig_def Let_def split: option.splits if_splits)
  next
    case MsgForward1
    with DMsg st a inv show ?thesis
      by (auto simp: dbb_dispatch_def dbb_HandleForward1Msg_def checkSig_def split: option.splits if_splits)
  next
    case MsgForward2
    with DMsg st inv show ?thesis
      by (auto simp: dbb_dispatch_def dbb_HandleForward2Msg_def dbb_checkSigList_def ba_propose_def ba_forward_def Let_def
          split: option.splits if_splits list.splits)
  qed (use DMsg st ni inv in \<open>simp_all add: dbb_dispatch_def dbb_HandleQCMsg_def no_init_def\<close>)
qed

lemma dbb_effects_votes:
  assumes "\<forall>p \<in> set evs. map_order (fst p) \<and> no_init (snd p)" and "set_invar (proposeSet s)"
    and "x \<in> set (dbb_effects c B sha evs s)" and "vote_value x = Some v"
  shows "elems (proposeSet s) \<subseteq> {v}"
  using assms
proof (induction evs arbitrary: s)
  case (Cons p evs)
  obtain ord e where p: "p = (ord, e)" by (cases p)
  obtain s1 es f where st: "dbb_step c B sha ord e s = (s1, es, f)" by (metis prod_cases3)
  from Cons.prems(1) p have o: "map_order ord" "no_init e" by simp_all
  note v = dbb_step_votes [OF st o Cons.prems(2)]
  show ?case
  proof (cases "x \<in> set es")
    case True
    with v Cons.prems(4) show ?thesis by auto
  next
    case False
    with Cons.prems(3) p st have "x \<in> set (dbb_effects c B sha evs s1)" by simp
    with Cons.IH [of s1] Cons.prems(1,4) v show ?thesis by auto
  qed
qed simp

text \<open>
  An honest node votes for one value per round: in every sequence of events without an \<open>Init\<close>,
  all the votes it broadcasts carry the same value.
\<close>

theorem vote_once:
  assumes "\<forall>p \<in> set evs. map_order (fst p) \<and> no_init (snd p)" and "set_invar (proposeSet s)"
  shows "\<exists>v. \<forall>x \<in> set (dbb_effects c B sha evs s). vote_value x \<noteq> None \<longrightarrow> vote_value x = Some v"
  using assms
proof (induction evs arbitrary: s)
  case (Cons p evs)
  obtain ord e where p: "p = (ord, e)" by (cases p)
  obtain s1 es f where st: "dbb_step c B sha ord e s = (s1, es, f)" by (metis prod_cases3)
  from Cons.prems(1) p have o: "map_order ord" "no_init e" by simp_all
  note v = dbb_step_votes [OF st o Cons.prems(2)]
  from Cons.prems(1) have rest: "\<forall>p \<in> set evs. map_order (fst p) \<and> no_init (snd p)" by simp
  show ?case
  proof (cases "\<exists>x \<in> set es. vote_value x \<noteq> None")
    case True
    then obtain x w where x: "x \<in> set es" "vote_value x = Some w" by auto
    with v have w: "elems (proposeSet s) = {w}" by blast
    have "vote_value y = Some w" if "y \<in> set (dbb_effects c B sha (p # evs) s)" "vote_value y \<noteq> None" for y
    proof (cases "y \<in> set es")
      case True
      with that(2) v w show ?thesis by fastforce
    next
      case False
      with that p st have y: "y \<in> set (dbb_effects c B sha evs s1)" by simp
      from that(2) obtain u where u: "vote_value y = Some u" by auto
      from dbb_effects_votes [OF rest _ y u] v w have "{w} \<subseteq> {u}" by auto
      with u show ?thesis by simp
    qed
    then show ?thesis by blast
  next
    case False
    from Cons.IH [OF rest, of s1] v obtain w where
      w: "\<forall>x \<in> set (dbb_effects c B sha evs s1). vote_value x \<noteq> None \<longrightarrow> vote_value x = Some w" by blast
    have "\<forall>x \<in> set (dbb_effects c B sha (p # evs) s). vote_value x \<noteq> None \<longrightarrow> vote_value x = Some w"
      using False w by (auto simp: p st)
    then show ?thesis by blast
  qed
qed simp

text \<open>
  Malformed messages bring the node down: a vote without a signature, and before five ticks a
  BADS* proposal with an empty signature list or a nil first signature, make the handler panic.
\<close>

theorem malformed_messages_panic:
  "(\<forall>nid v. snd (snd (dbb_HandleVoteMsg c B ord now
      (vote_msg \<lparr>vc_NodeId = nid, vc_Content = v, vc_Sig = None\<rparr>) s)) = Crashes NilDereference) \<and>
   snd (snd (ba_propose c B ord \<lparr>sl_Input = v, sl_SigList = [], sl_NodeList = ns\<rparr> s)) = Crashes IndexOutOfRange \<and>
   snd (snd (ba_propose c B ord \<lparr>sl_Input = v, sl_SigList = None # gs, sl_NodeList = ns\<rparr> s)) = Crashes NilDereference"
  by (simp add: dbb_HandleVoteMsg_def vote_msg_def checkSig_def ba_propose_def Let_def)

section \<open>Concrete runs\<close>

definition quarter :: f64 where
  "quarter = \<lparr>mant = 1, expo = -2\<rparr>"

text \<open>Four nodes of which one may be faulty, or none.\<close>

definition dbb_cfg :: config where
  "dbb_cfg = example_config\<lparr>TickInterval := 1000, NodeNum := 4, MaliciousRatio := quarter\<rparr>"

definition dbb_cfg0 :: config where
  "dbb_cfg0 = example_config\<lparr>TickInterval := 1000, NodeNum := 4, MaliciousRatio := \<lparr>mant = 0, expo = 0\<rparr>\<rparr>"

definition dbb_run :: "config \<Rightarrow> dbb_event list \<Rightarrow> dbb \<Rightarrow> dbb" where
  "dbb_run c evs s = fold (\<lambda>e s. fst (dbb_step c pair_bls (\<lambda>m. m) (\<lambda>xs. xs) e s)) evs s"

definition dbb_node1 :: dbb where
  "dbb_node1 = New_1Delta_BBConsensusMod 1 ''n1'' (Some ''k1'') 0"

definition at0 :: "message \<Rightarrow> dbb_event" where
  "at0 m = DMsg (\<lambda>i. (0, 0)) m"

definition vote_from :: "int \<Rightarrow> string \<Rightarrow> signature \<Rightarrow> dbb_event" where
  "vote_from nid v g = at0 (vote_msg \<lparr>vc_NodeId = nid, vc_Content = v, vc_Sig = Some g\<rparr>)"

definition start_events :: "dbb_event list" where
  "start_events =
     [at0 \<lparr>MsgType = MsgInit, msg_Content = PTime 0\<rparr>,
      at0 \<lparr>MsgType = MsgPropose, msg_Content = PRequest
        \<lparr>ShardId = 0, ReqType = ReqVerifyString, Content = ''A'', ReqTime = 0, Digest = [], Sig = None\<rparr>\<rparr>]"

lemma dbb_run_reach: "dbb_reach c pair_bls (\<lambda>m. m) s \<Longrightarrow> dbb_reach c pair_bls (\<lambda>m. m) (dbb_run c evs s)"
proof (induction evs arbitrary: s)
  case (Cons e evs)
  obtain s1 es f where st: "dbb_step c pair_bls (\<lambda>m. m) (\<lambda>xs. xs) e s = (s1, es, f)" by (metis prod_cases3)
  from dbb_reach.event [OF Cons.prems map_order_id st] Cons.IH [of s1] st show ?case
    by (simp add: dbb_run_def)
qed (simp add: dbb_run_def)

lemma dbb_node1_reach: "dbb_reach c pair_bls (\<lambda>m. m) (dbb_run c evs dbb_node1)"
  unfolding dbb_node1_def by (intro dbb_run_reach dbb_reach.new)

definition certified_run :: dbb where
  "certified_run = dbb_run dbb_cfg (start_events @
     [vote_from 0 ''A'' ''s0'', vote_from 2 ''A'' ''s2'', vote_from 3 ''A'' ''s3'']) dbb_node1"

lemma certified_run_facts:
  "map fst (QCMap certified_run) = [''A''] \<and> isCommit certified_run \<and> trigger certified_run = 1 \<and>
   set_data (sigs_of (voteMap certified_run) ''A'') = [''s0'', ''s2'', ''s3'']"
  by code_simp

lemma dbb_cfg_numbers: "maliciousNodes dbb_cfg = 1 \<and> NodeNum dbb_cfg = 4"
  by code_simp

theorem dbb_qc_certified_witness:
  "''A'' \<in> keys (QCMap certified_run) \<and> dbb_CommitValue certified_run \<in> keys (QCMap certified_run)"
  using dbb_qc_certified [OF dbb_node1_reach, of dbb_cfg "start_events @
     [vote_from 0 ''A'' ''s0'', vote_from 2 ''A'' ''s2'', vote_from 3 ''A'' ''s3'']"] certified_run_facts
  by (auto simp: certified_run_def [symmetric] keys_def)

theorem commit_point1_never_blocks_witness:
  "snd (snd (dbb_HandleVoteMsg dbb_cfg pair_bls (\<lambda>xs. xs) 0
     (vote_msg \<lparr>vc_NodeId = 0, vc_Content = ''B'', vc_Sig = Some ''t''\<rparr>) certified_run)) \<noteq> Spins"
proof -
  obtain s' es f where h: "dbb_HandleVoteMsg dbb_cfg pair_bls (\<lambda>xs. xs) 0
     (vote_msg \<lparr>vc_NodeId = 0, vc_Content = ''B'', vc_Sig = Some ''t''\<rparr>) certified_run = (s', es, f)"
    by (metis prod_cases3)
  from commit_point1_never_blocks [OF dbb_node1_reach h [unfolded certified_run_def]] h show ?thesis by simp
qed

text \<open>The signer of a signature of the run, by its last character.\<close>

definition run_signer :: "string \<Rightarrow> signature \<Rightarrow> int" where
  "run_signer v g = (if g = ''s0'' then 0 else if g = ''s2'' then 2 else if g = ''s3'' then 3 else 4)"


theorem vote_once_witness:
  "\<exists>v. \<forall>x \<in> set (dbb_effects dbb_cfg pair_bls (\<lambda>m. m) [((\<lambda>xs. xs), hd (tl start_events)), (rev, DFire VoteTimer)] dbb_node1).
     vote_value x \<noteq> None \<longrightarrow> vote_value x = Some v"
  by (rule vote_once)
    (simp_all add: start_events_def no_init_def at0_def dbb_node1_def New_1Delta_BBConsensusMod_def)

text \<open>
  A node's own vote can make it miss the certificate: the quorum test is an equality made only
  when a vote message arrives, while the vote goroutine adds the own signature without testing.
  With four honest nodes and no fault tolerated, a node that received the three other votes
  before it votes holds all four signatures and has no certificate; had it voted before the last
  message, it would have committed.
\<close>

theorem own_vote_misses_quorum:
  "(let s = dbb_run dbb_cfg0 (start_events @ [vote_from 0 ''A'' ''s0'', vote_from 2 ''A'' ''s2'',
        vote_from 3 ''A'' ''s3'', DFire VoteTimer]) dbb_node1
    in int (Size (sigs_of (voteMap s) ''A'')) = NodeNum dbb_cfg0 - maliciousNodes dbb_cfg0 \<and>
       QCMap s = [] \<and> \<not> isCommit s) \<and>
   (let s = dbb_run dbb_cfg0 (start_events @ [vote_from 0 ''A'' ''s0'', vote_from 2 ''A'' ''s2'',
        DFire VoteTimer, vote_from 3 ''A'' ''s3'']) dbb_node1
    in map fst (QCMap s) = [''A''] \<and> isCommit s)"
  by code_simp

text \<open>
  Votes are not authenticated: three vote messages of one sender with three arbitrary
  signatures, for a value nobody proposed, form a certificate and are committed at commit point 1.
\<close>

theorem certificate_forged_by_one_sender:
  "(let s = dbb_run dbb_cfg [vote_from 3 ''E'' ''x'', vote_from 3 ''E'' ''y'', vote_from 3 ''E'' ''z''] dbb_node1
    in map fst (QCMap s) = [''E''] \<and> isCommit s \<and> dbb_CommitValue s = ''E'' \<and> set_data (proposeSet s) = [])"
  by code_simp

end
