(* ===== verification/TBB.thy ===== *)
theory TBB
  imports DolevStrong DeltaBB
begin

text \<open>
  The TBB module (consensusMod/tbb/handler_tbb.go, handler_tbb_m.go), which runs a Dolev-Strong
  and a 1-Delta-BB* module side by side and commits at three points.  \<open>localSetA\<close> and
  \<open>localSetC\<close> of the source are pointers to the sets \<open>BlckSet\<close> and \<open>ExtrSet\<close> of the two modules,
  which are cleared in place and never replaced, so here they are read from the modules.
  Every \<open>Init\<close> gives the 1-Delta-BB* module a new channel \<open>CommitPoint1Trigger\<close> and starts a
  goroutine that reads the channel variable and then waits on the channel it has read: the
  channels are numbered, \<open>trigger\<close> counts the tokens of the newest one and \<open>staleTokens\<close> those
  left in the older ones, and \<open>listeners\<close> is the list of these goroutines.
\<close>

datatype tbb_timer = RefPoint1 | RefPoint2 | CommitPoint2 | CommitPoint3

datatype listener = Starting | Waiting nat | Stopped

record tbb =
  tbb_Nid :: int
  tbb_view :: int
  tbb_startTime :: "time atomic_value"
  DSMod :: ds
  DBBMod :: dbb
  localSetD :: "string list"
  referenceValue1 :: string
  referenceValue2 :: string
  tbb_isCommit :: bool
  tbb_timers :: "(time \<times> tbb_timer) list"
  channel :: nat
  staleTokens :: "nat \<Rightarrow> nat"
  listeners :: "listener list"

type_synonym tbb_result = "tbb \<times> effect list \<times> fin"

abbreviation localSetA :: "tbb \<Rightarrow> string goset" where
  "localSetA s \<equiv> BlckSet (DBBMod s)"

abbreviation localSetC :: "tbb \<Rightarrow> string goset" where
  "localSetC s \<equiv> ExtrSet (DSMod s)"

definition NewTBBCosensusMod :: "int \<Rightarrow> string \<Rightarrow> bytes option \<Rightarrow> time \<Rightarrow> tbb" where
  "NewTBBCosensusMod nid ip sk now =
     \<lparr>tbb_Nid = nid, tbb_view = 0, tbb_startTime = NewAtomicValue now,
      DSMod = NewDSCosensusMod nid ip sk now, DBBMod = New_1Delta_BBConsensusMod nid ip sk now,
      localSetD = ['''', '''', ''''], referenceValue1 = '''', referenceValue2 = '''',
      tbb_isCommit = False, tbb_timers = [], channel = 0, staleTokens = (\<lambda>_. 0), listeners = []\<rparr>"

section \<open>Handlers\<close>

text \<open>Calls of the two modules, and one call after another in the same goroutine.\<close>

definition on_DS :: "(ds \<Rightarrow> ds_result) \<Rightarrow> tbb \<Rightarrow> tbb_result" where
  "on_DS h s = (case h (DSMod s) of (d, es, e) \<Rightarrow> (s\<lparr>DSMod := d\<rparr>, es, e))"

definition on_DBB :: "(dbb \<Rightarrow> dbb_result) \<Rightarrow> tbb \<Rightarrow> tbb_result" where
  "on_DBB h s = (case h (DBBMod s) of (b, es, e) \<Rightarrow> (s\<lparr>DBBMod := b\<rparr>, es, e))"

definition and_then :: "tbb_result \<Rightarrow> (tbb \<Rightarrow> tbb_result) \<Rightarrow> tbb_result" where
  "and_then r h =
     (case r of (s, es, Done) \<Rightarrow> (case h s of (s', es', e) \<Rightarrow> (s', es @ es', e)) | _ \<Rightarrow> r)"

definition tbb_handleInitMsg :: "config \<Rightarrow> time \<Rightarrow> message \<Rightarrow> tbb \<Rightarrow> tbb_result" where
  "tbb_handleInitMsg c now msg s =
     (case decode_time (msg_Content msg) of
        None \<Rightarrow> (s, [], Done)
      | Some start \<Rightarrow>
          let s1 = s\<lparr>tbb_startTime := snd (av_Set start None (tbb_startTime s)),
                     localSetD := ['''', '''', ''''], referenceValue1 := '''', referenceValue2 := '''',
                     tbb_isCommit := False\<rparr> in
          and_then (on_DS (HandleInitMsg c now msg) s1) (\<lambda>s2.
          and_then (on_DBB (dbb_HandleInitMsg c now msg) s2) (\<lambda>s3.
          (s3\<lparr>staleTokens := (staleTokens s3)(channel s3 := trigger (DBBMod s)),
              channel := channel s3 + 1,
              tbb_timers := tbb_timers s3 @
                [(start + ticks c (t1 c + 1), RefPoint1), (start + ticks c (t2 c + 1), RefPoint2),
                 (start + ticks c (t1 c + 6), CommitPoint2), (start + ticks c (t2 c + 6), CommitPoint3)],
              listeners := listeners s3 @ [Starting]\<rparr>, [], Done))))"

definition tbb_handleProposeMsg ::
  "config \<Rightarrow> bls \<Rightarrow> (bytes \<Rightarrow> bytes) \<Rightarrow> time \<Rightarrow> (nat \<Rightarrow> reading) \<Rightarrow> message \<Rightarrow> tbb \<Rightarrow> tbb_result" where
  "tbb_handleProposeMsg c B sha256 now clk msg s =
     and_then (on_DBB (dbb_HandleProposeMsg c now msg) s) (on_DS (HandleProposeMsg c B sha256 clk msg))"

definition tbb_handleForwardMsg ::
  "config \<Rightarrow> bls \<Rightarrow> (bytes \<Rightarrow> bytes) \<Rightarrow> (nat \<Rightarrow> reading) \<Rightarrow> message \<Rightarrow> tbb \<Rightarrow> tbb_result" where
  "tbb_handleForwardMsg c B sha256 clk msg = on_DS (HandleForwardMsg c B sha256 clk msg)"

definition tbb_handleForward1Msg :: "message \<Rightarrow> tbb \<Rightarrow> tbb_result" where
  "tbb_handleForward1Msg msg = on_DBB (dbb_HandleForward1Msg msg)"

definition tbb_handleForward2Msg ::
  "config \<Rightarrow> bls \<Rightarrow> (bytes \<Rightarrow> bytes) \<Rightarrow> (signature list \<Rightarrow> signature list) \<Rightarrow> (nat \<Rightarrow> reading) \<Rightarrow>
   message \<Rightarrow> tbb \<Rightarrow> tbb_result" where
  "tbb_handleForward2Msg c B sha256 ord clk msg = on_DBB (dbb_HandleForward2Msg c B sha256 ord clk msg)"

definition tbb_handleVoteMsg ::
  "config \<Rightarrow> bls \<Rightarrow> (signature list \<Rightarrow> signature list) \<Rightarrow> time \<Rightarrow> message \<Rightarrow> tbb \<Rightarrow> tbb_result" where
  "tbb_handleVoteMsg c B ord now msg = on_DBB (dbb_HandleVoteMsg c B ord now msg)"

definition tbb_handleQCMsg :: "message \<Rightarrow> tbb \<Rightarrow> tbb_result" where
  "tbb_handleQCMsg msg = on_DBB (dbb_HandleQCMsg msg)"

text \<open>The loop that looks for the first commit point with a value.\<close>

fun first_value :: "string list \<Rightarrow> string" where
  "first_value [] = ''''"
| "first_value (item # D) = (if item \<noteq> '''' then item else first_value D)"

definition tbb_handleQueryMsg :: "message \<Rightarrow> tbb \<Rightarrow> tbb_result" where
  "tbb_handleQueryMsg msg s =
     (case decode_string (msg_Content msg) of
        None \<Rightarrow> (s, [], Done)
      | Some ipaddr \<Rightarrow>
          (s, [SendTo ipaddr \<lparr>MsgType = MsgReplyQuery, msg_Content = PReplyValue
                 \<lparr>rv_Value = first_value (localSetD s), rv_QCMap = QCMap (DBBMod s)\<rparr>\<rparr>], Done))"

text \<open>The handlers of a malicious node other than the view node do nothing.\<close>

definition tbb_handleInitMsg_m :: "message \<Rightarrow> tbb \<Rightarrow> tbb_result" where
  "tbb_handleInitMsg_m msg s = (s, [], Done)"

definition tbb_handleProposeMsg_m :: "message \<Rightarrow> tbb \<Rightarrow> tbb_result" where
  "tbb_handleProposeMsg_m msg s = (s, [], Done)"

definition tbb_handleForwardMsg_m :: "message \<Rightarrow> tbb \<Rightarrow> tbb_result" where
  "tbb_handleForwardMsg_m msg s = (s, [], Done)"

definition tbb_handleForward1Msg_m :: "message \<Rightarrow> tbb \<Rightarrow> tbb_result" where
  "tbb_handleForward1Msg_m msg s = (s, [], Done)"

definition tbb_handleForward2Msg_m :: "message \<Rightarrow> tbb \<Rightarrow> tbb_result" where
  "tbb_handleForward2Msg_m msg s = (s, [], Done)"

definition tbb_handleVoteMsg_m :: "message \<Rightarrow> tbb \<Rightarrow> tbb_result" where
  "tbb_handleVoteMsg_m msg s = (s, [], Done)"

definition tbb_handleQCMsg_m :: "message \<Rightarrow> tbb \<Rightarrow> tbb_result" where
  "tbb_handleQCMsg_m msg s = (s, [], Done)"

definition tbb_handleQueryMsg_m :: "message \<Rightarrow> tbb \<Rightarrow> tbb_result" where
  "tbb_handleQueryMsg_m msg s = (s, [], Done)"

lemmas tbb_m_defs = tbb_handleInitMsg_m_def tbb_handleProposeMsg_m_def tbb_handleForwardMsg_m_def
  tbb_handleForward1Msg_m_def tbb_handleForward2Msg_m_def tbb_handleVoteMsg_m_def
  tbb_handleQCMsg_m_def tbb_handleQueryMsg_m_def

text \<open>
  \<open>RegisterHandlers\<close> as the dispatch it sets up.  The two modules read their clocks one after the
  other: \<open>now\<close> is the reading of the 1-Delta-BB* proposal handler.
\<close>

definition tbb_dispatch ::
  "config \<Rightarrow> bls \<Rightarrow> (bytes \<Rightarrow> bytes) \<Rightarrow> (signature list \<Rightarrow> signature list) \<Rightarrow> time \<Rightarrow> (nat \<Rightarrow> reading) \<Rightarrow>
   message \<Rightarrow> tbb \<Rightarrow> tbb_result" where
  "tbb_dispatch c B sha256 ord now clk msg s =
     (if IsMalicious c \<and> tbb_Nid s \<noteq> ViewNodeId c then
        (case MsgType msg of
           MsgInit \<Rightarrow> tbb_handleInitMsg_m msg s
         | MsgPropose \<Rightarrow> tbb_handleProposeMsg_m msg s
         | MsgForward \<Rightarrow> tbb_handleForwardMsg_m msg s
         | MsgForward1 \<Rightarrow> tbb_handleForward1Msg_m msg s
         | MsgForward2 \<Rightarrow> tbb_handleForward2Msg_m msg s
         | MsgVote \<Rightarrow> tbb_handleVoteMsg_m msg s
         | MsgQC \<Rightarrow> tbb_handleQCMsg_m msg s
         | MsgQuery \<Rightarrow> tbb_handleQueryMsg_m msg s
         | _ \<Rightarrow> (s, [], Done))
      else
        (case MsgType msg of
           MsgInit \<Rightarrow> tbb_handleInitMsg c now msg s
         | MsgPropose \<Rightarrow> tbb_handleProposeMsg c B sha256 now clk msg s
         | MsgForward \<Rightarrow> tbb_handleForwardMsg c B sha256 clk msg s
         | MsgForward1 \<Rightarrow> tbb_handleForward1Msg msg s
         | MsgForward2 \<Rightarrow> tbb_handleForward2Msg c B sha256 ord clk msg s
         | MsgVote \<Rightarrow> tbb_handleVoteMsg c B ord now msg s
         | MsgQC \<Rightarrow> tbb_handleQCMsg msg s
         | MsgQuery \<Rightarrow> tbb_handleQueryMsg msg s
         | _ \<Rightarrow> (s, [], Done)))"

section \<open>Reference points and commit points\<close>

definition has_reference :: "(string list \<Rightarrow> string list) \<Rightarrow> tbb \<Rightarrow> bool" where
  "has_reference ord s \<longleftrightarrow>
     Size (localSetC s) = 1 \<and> CommitValue (DSMod s) = GetItems ord (localSetC s) ! 0"

definition referencePoint1Handler :: "(string list \<Rightarrow> string list) \<Rightarrow> tbb \<Rightarrow> tbb" where
  "referencePoint1Handler ord s =
     (if has_reference ord s then s\<lparr>referenceValue1 := GetItems ord (localSetC s) ! 0\<rparr> else s)"

definition referencePoint2Handler :: "(string list \<Rightarrow> string list) \<Rightarrow> tbb \<Rightarrow> tbb" where
  "referencePoint2Handler ord s =
     (if has_reference ord s then s\<lparr>referenceValue2 := GetItems ord (localSetC s) ! 0\<rparr> else s)"

definition commitPoint2Handler :: "(string list \<Rightarrow> string list) \<Rightarrow> tbb \<Rightarrow> tbb" where
  "commitPoint2Handler ord s =
     (if tbb_isCommit s then s
      else if Size (localSetA s) = 1 then s\<lparr>localSetD := (localSetD s)[1 := GetItems ord (localSetA s) ! 0]\<rparr>
      else if referenceValue1 s \<noteq> '''' then s\<lparr>localSetD := (localSetD s)[1 := referenceValue1 s]\<rparr>
      else s)"

definition commitPoint3Handler :: "(string list \<Rightarrow> string list) \<Rightarrow> tbb \<Rightarrow> tbb" where
  "commitPoint3Handler ord s =
     (if Size (localSetA s) = 1 then s\<lparr>localSetD := (localSetD s)[2 := GetItems ord (localSetA s) ! 0]\<rparr>
      else if referenceValue2 s \<noteq> '''' then s\<lparr>localSetD := (localSetD s)[2 := referenceValue2 s]\<rparr>
      else s)"

definition tbb_fire :: "(string list \<Rightarrow> string list) \<Rightarrow> tbb_timer \<Rightarrow> tbb \<Rightarrow> tbb" where
  "tbb_fire ord t =
     (case t of
        RefPoint1 \<Rightarrow> referencePoint1Handler ord
      | RefPoint2 \<Rightarrow> referencePoint2Handler ord
      | CommitPoint2 \<Rightarrow> commitPoint2Handler ord
      | CommitPoint3 \<Rightarrow> commitPoint3Handler ord)"

text \<open>The body of \<open>commitPoint1Handler\<close> after the receive, for goroutine \<open>i\<close>.\<close>

definition commit_point1 :: "nat \<Rightarrow> tbb \<Rightarrow> tbb" where
  "commit_point1 i s =
     s\<lparr>localSetD := (localSetD s)[0 := dbb_CommitValue (DBBMod s)], tbb_isCommit := True,
       listeners := (listeners s)[i := Stopped]\<rparr>"

text \<open>A step of goroutine \<open>i\<close>: read the channel variable, or receive when there is a token.\<close>

definition commitPoint1Handler :: "nat \<Rightarrow> tbb \<Rightarrow> tbb" where
  "commitPoint1Handler i s =
     (if i < length (listeners s) then
        (case listeners s ! i of
           Starting \<Rightarrow> s\<lparr>listeners := (listeners s)[i := Waiting (channel s)]\<rparr>
         | Waiting ch \<Rightarrow>
             if ch = channel s then
               (if 1 \<le> trigger (DBBMod s)
                then commit_point1 i (s\<lparr>DBBMod := (DBBMod s)\<lparr>trigger := trigger (DBBMod s) - 1\<rparr>\<rparr>) else s)
             else if 1 \<le> staleTokens s ch
             then commit_point1 i (s\<lparr>staleTokens := (staleTokens s)(ch := staleTokens s ch - 1)\<rparr>) else s
         | Stopped \<Rightarrow> s)
      else s)"

section \<open>Runs\<close>

datatype tbb_event =
    TMsg time "nat \<Rightarrow> reading" message
  | TFire tbb_timer
  | TFireDS ds_timer
  | TFireDBB dbb_timer
  | TListen nat

fun tbb_step ::
  "config \<Rightarrow> bls \<Rightarrow> (bytes \<Rightarrow> bytes) \<Rightarrow> (string list \<Rightarrow> string list) \<Rightarrow> tbb_event \<Rightarrow> tbb \<Rightarrow> tbb_result" where
  "tbb_step c B sha256 ord (TMsg now clk m) s = tbb_dispatch c B sha256 ord now clk m s"
| "tbb_step c B sha256 ord (TFire t) s = (tbb_fire ord t s, [], Done)"
| "tbb_step c B sha256 ord (TFireDS t) s = on_DS (ds_fire ord t) s"
| "tbb_step c B sha256 ord (TFireDBB t) s = on_DBB (dbb_fire c B sha256 ord t) s"
| "tbb_step c B sha256 ord (TListen i) s = (commitPoint1Handler i s, [], Done)"

text \<open>
  States under any sequence of events that satisfies \<open>ok\<close>: messages, timers and goroutines in any
  order.  A node is calm when every \<open>Init\<close> finds the commit-point-1 channel empty.
\<close>

inductive tbb_reach ::
  "(tbb \<Rightarrow> tbb_event \<Rightarrow> bool) \<Rightarrow> config \<Rightarrow> bls \<Rightarrow> (bytes \<Rightarrow> bytes) \<Rightarrow> tbb \<Rightarrow> bool" for ok c B sha256 where
  new: "tbb_reach ok c B sha256 (NewTBBCosensusMod nid ip sk now)"
| event: "tbb_reach ok c B sha256 s \<Longrightarrow> ok s e \<Longrightarrow> map_order ord \<Longrightarrow>
    tbb_step c B sha256 ord e s = (s', es, f) \<Longrightarrow> tbb_reach ok c B sha256 s'"

definition calm :: "tbb \<Rightarrow> tbb_event \<Rightarrow> bool" where
  "calm s e \<longleftrightarrow> (case e of TMsg now clk m \<Rightarrow> MsgType m = MsgInit \<longrightarrow> trigger (DBBMod s) = 0 | _ \<Rightarrow> True)"

section \<open>What the modules keep during a round\<close>

definition dbb_later :: "dbb \<Rightarrow> dbb \<Rightarrow> bool" where
  "dbb_later s s' \<longleftrightarrow> elems (BlckSet s) \<subseteq> elems (BlckSet s') \<and>
     (isCommit s \<longrightarrow> isCommit s' \<and> dbb_CommitValue s' = dbb_CommitValue s \<and> trigger s' = trigger s)"

lemma dbb_later_refl [simp]: "dbb_later s s"
  by (simp add: dbb_later_def)

lemma dbb_later_frame [simp]:
  "dbb_later s (s\<lparr>proposeSet := S\<rparr>)" "dbb_later s (s\<lparr>dbb_timers := ts\<rparr>)" "dbb_later s (s\<lparr>voteMap := m\<rparr>)"
  "dbb_later s (s\<lparr>BAproposeMap := m\<rparr>)" "dbb_later s (s\<lparr>BABlckSet := S\<rparr>)"
  "dbb_later s (s\<lparr>proposeSet := S, dbb_timers := ts\<rparr>)" "dbb_later s (s\<lparr>BAproposeMap := m, dbb_timers := ts\<rparr>)"
  by (simp_all add: dbb_later_def)

text \<open>A further certificate does not commit again: the first one is still in \<open>BlckSet\<close>.\<close>

lemma make_QC_later:
  assumes inv: "dbb_inv c s" and m: "make_QC c B ord now v s = (s', es, f)"
  shows "dbb_later s s'"
proof (cases "make_QC c B ord now v s = (s, [], Done)")
  case False
  then have q: "map_of (QCMap s) v = None" by (auto simp: make_QC_def split: if_splits)
  from False obtain agg where agg: "AggregateSignatures B (map Some (GetItemRefs ord (sigs_of (voteMap s) v))) = Some agg"
    by (auto simp: make_QC_def split: if_splits option.splits)
  have b: "set_invar (BlckSet s)" "keys (QCMap s) = elems (BlckSet s)" using inv by (auto simp: dbb_inv_def)
  have fresh: "v \<notin> elems (BlckSet s)" using q b(2) by (simp add: map_of_eq_None_iff keys_def)
  have e: "elems (Add v (BlckSet s)) = insert v (elems (BlckSet s))" "set_invar (Add v (BlckSet s))"
    using b(1) by (simp_all add: gs.abs_add gs.invar_add)
  have two: "Size (Add v (BlckSet s)) \<noteq> 1" if "isCommit s"
  proof
    assume "Size (Add v (BlckSet s)) = 1"
    then have "card (insert v (elems (BlckSet s))) = 1" using gs.size_card [OF e(2)] e(1) by simp
    moreover have "dbb_CommitValue s \<in> elems (BlckSet s)" using inv that by (simp add: dbb_inv_def)
    ultimately show False using fresh by (metis card_1_singletonE insertI1 insertI2 singletonD)
  qed
  from m False q agg e two show ?thesis
    by (auto simp: make_QC_def Let_def dbb_later_def split: if_splits)
qed (use m in simp)

lemma vote_later:
  assumes inv: "dbb_inv c s" and m: "dbb_HandleVoteMsg c B ord now msg s = (s', es, f)"
  shows "dbb_later s s'"
proof (cases "decode_vote (msg_Content msg)")
  case (Some vc)
  let ?v = "vc_Content vc"
  let ?s1 = "s\<lparr>voteMap := (voteMap s)(?v \<mapsto> sigs_of (voteMap s) ?v)\<rparr>"
  have i1: "dbb_inv c ?s1" using inv by (simp add: dbb_inv_def quorum_met_def)
  show ?thesis
  proof (cases "vc_Sig vc")
    case None
    with m Some show ?thesis by (auto simp: dbb_HandleVoteMsg_def checkSig_def Let_def)
  next
    case (Some g)
    let ?s2 = "?s1\<lparr>voteMap := (voteMap ?s1)(?v \<mapsto> Add g (sigs_of (voteMap ?s1) ?v))\<rparr>"
    have "dbb_inv c ?s2" by (rule dbb_inv_vote [OF i1])
    moreover have "make_QC c B ord now ?v ?s2 = (s', es, f)"
      using m Some \<open>decode_vote (msg_Content msg) = Some vc\<close>
      by (simp add: dbb_HandleVoteMsg_def checkSig_def Let_def)
    ultimately show ?thesis using make_QC_later by (fastforce simp: dbb_later_def)
  qed
qed (use m in \<open>simp add: dbb_HandleVoteMsg_def\<close>)

lemma dbb_step_later:
  assumes "dbb_inv c s" and "dbb_step c B sha ord e s = (s', es, f)" and "no_init e" and "e \<noteq> DTake"
  shows "dbb_later s s'"
proof (cases e)
  case (DMsg clk m)
  with assms(3) have "MsgType m \<noteq> MsgInit" by (simp add: no_init_def)
  with assms(1,2) DMsg show ?thesis
    by (cases "MsgType m")
      (auto simp: dbb_dispatch_def dbb_HandleProposeMsg_def dbb_HandleForward1Msg_def dbb_HandleForward2Msg_def
        dbb_HandleQCMsg_def ba_propose_def ba_forward_def Let_def
        split: option.splits list.splits if_splits dest: vote_later)
next
  case (DFire t)
  with assms(2) show ?thesis
    by (cases t) (auto simp: dbb_fire_def ba_start_def final_commit_def try_vote_def dbb_later_def Let_def
        split: option.splits if_splits)
qed (use assms(4) in simp)

definition ds_later :: "ds \<Rightarrow> ds \<Rightarrow> bool" where
  "ds_later s s' \<longleftrightarrow> elems (ExtrSet s) \<subseteq> elems (ExtrSet s') \<and> (set_invar (ExtrSet s) \<longrightarrow> set_invar (ExtrSet s'))"

lemma ds_later_refl [simp]: "ds_later s s"
  by (simp add: ds_later_def)

lemma ds_later_add: "set_invar (ExtrSet s) \<Longrightarrow> ds_later s (s\<lparr>ExtrSet := Add v (ExtrSet s)\<rparr>)"
  by (auto simp: ds_later_def gs.invar_add gs.abs_add)

lemma ds_handlers_later:
  assumes "set_invar (ExtrSet s)"
  shows "HandleProposeMsg c B sha clk m s = (s', es, f) \<Longrightarrow> ds_later s s'"
    and "HandleForwardMsg c B sha clk m s = (s', es, f) \<Longrightarrow> ds_later s s'"
    and "ds_fire ord t s = (s', es, f) \<Longrightarrow> ds_later s s'"
  using ds_later_add [OF assms]
  by (auto simp: HandleProposeMsg_def HandleForwardMsg_def Let_def split: option.splits if_splits)
    (cases t; auto simp: ds_fire_def ds_commit_def ds_later_def split: if_splits)

section \<open>A step of the node and its modules\<close>

definition is_init :: "tbb_event \<Rightarrow> bool" where
  "is_init e \<longleftrightarrow> (case e of TMsg now clk m \<Rightarrow> MsgType m = MsgInit | _ \<Rightarrow> False)"

text \<open>Every step of the node is at most one step of the 1-Delta-BB* module.\<close>

lemma tbb_fire_frame [simp]:
  "DBBMod (tbb_fire ord t s) = DBBMod s" "DSMod (tbb_fire ord t s) = DSMod s"
  "staleTokens (tbb_fire ord t s) = staleTokens s" "tbb_isCommit (tbb_fire ord t s) = tbb_isCommit s"
  by (cases t; simp add: tbb_fire_def referencePoint1Handler_def referencePoint2Handler_def
      commitPoint2Handler_def commitPoint3Handler_def)+

lemma commit_point1_simps [simp]:
  "DBBMod (commit_point1 i s) = DBBMod s" "DSMod (commit_point1 i s) = DSMod s"
  "staleTokens (commit_point1 i s) = staleTokens s" "tbb_isCommit (commit_point1 i s)"
  "referenceValue1 (commit_point1 i s) = referenceValue1 s" "referenceValue2 (commit_point1 i s) = referenceValue2 s"
  "localSetD (commit_point1 i s) = (localSetD s)[0 := dbb_CommitValue (DBBMod s)]"
  by (simp_all add: commit_point1_def)

lemma on_DBB_E:
  assumes "on_DBB h s = (s', es, f)"
  obtains b where "h (DBBMod s) = (b, es, f)" and "s' = s\<lparr>DBBMod := b\<rparr>"
  using assms by (auto simp: on_DBB_def split: prod.splits)

lemma on_DS_E:
  assumes "on_DS h s = (s', es, f)"
  obtains d where "h (DSMod s) = (d, es, f)" and "s' = s\<lparr>DSMod := d\<rparr>"
  using assms by (auto simp: on_DS_def split: prod.splits)

text \<open>\<open>handleInitMsg\<close> in one equation: neither module's \<open>Init\<close> handler can fail.\<close>

lemma tbb_init_eq:
  assumes "decode_time (msg_Content m) = Some start"
  shows "tbb_handleInitMsg c now m s =
    (s\<lparr>tbb_startTime := snd (av_Set start None (tbb_startTime s)),
       DSMod := fst (HandleInitMsg c now m (DSMod s)), DBBMod := fst (dbb_HandleInitMsg c now m (DBBMod s)),
       localSetD := ['''', '''', ''''], referenceValue1 := '''', referenceValue2 := '''', tbb_isCommit := False,
       tbb_timers := tbb_timers s @
         [(start + ticks c (t1 c + 1), RefPoint1), (start + ticks c (t2 c + 1), RefPoint2),
          (start + ticks c (t1 c + 6), CommitPoint2), (start + ticks c (t2 c + 6), CommitPoint3)],
       channel := channel s + 1, staleTokens := (staleTokens s)(channel s := trigger (DBBMod s)),
       listeners := listeners s @ [Starting]\<rparr>, [], Done)"
  using assms
  by (simp add: tbb_handleInitMsg_def HandleInitMsg_def dbb_HandleInitMsg_def on_DS_def on_DBB_def and_then_def Let_def)

lemma tbb_propose_D:
  assumes "tbb_handleProposeMsg c B sha now clk m s = (s', es, f)"
  shows "\<exists>es' f'. dbb_HandleProposeMsg c now m (DBBMod s) = (DBBMod s', es', f') \<and>
    (DSMod s' = DSMod s \<or> (\<exists>es' f'. HandleProposeMsg c B sha clk m (DSMod s) = (DSMod s', es', f'))) \<and>
    s' = s\<lparr>DBBMod := DBBMod s', DSMod := DSMod s'\<rparr>"
proof -
  obtain b es1 f1 where b: "dbb_HandleProposeMsg c now m (DBBMod s) = (b, es1, f1)" by (metis prod_cases3)
  obtain d es2 f2 where d: "HandleProposeMsg c B sha clk m (DSMod s) = (d, es2, f2)" by (metis prod_cases3)
  from assms b d show ?thesis
    by (cases f1) (auto simp: tbb_handleProposeMsg_def and_then_def on_DBB_def on_DS_def)
qed

text \<open>The modules a message handler works on; everything else is left alone, except by \<open>Init\<close>.\<close>

definition dbb_move :: "config \<Rightarrow> bls \<Rightarrow> (bytes \<Rightarrow> bytes) \<Rightarrow> (string list \<Rightarrow> string list) \<Rightarrow> dbb_event \<Rightarrow> dbb \<Rightarrow> dbb \<Rightarrow> bool" where
  "dbb_move c B sha256 ord e b b' \<longleftrightarrow> (\<exists>es f. dbb_step c B sha256 ord e b = (b', es, f))"

lemma tbb_msg_D:
  assumes "tbb_dispatch c B sha ord now clk m s = (s', es, f)" and "MsgType m \<noteq> MsgInit"
  shows "s' = s\<lparr>DBBMod := DBBMod s', DSMod := DSMod s'\<rparr> \<and>
    (DBBMod s' = DBBMod s \<or> (\<exists>k. dbb_move c B sha ord (DMsg k m) (DBBMod s) (DBBMod s'))) \<and>
    (DSMod s' = DSMod s \<or> (\<exists>es f. HandleProposeMsg c B sha clk m (DSMod s) = (DSMod s', es, f)) \<or>
      (\<exists>es f. HandleForwardMsg c B sha clk m (DSMod s) = (DSMod s', es, f)))"
proof (cases "IsMalicious c \<and> tbb_Nid s \<noteq> ViewNodeId c")
  case True
  with assms(1) show ?thesis by (auto simp: tbb_dispatch_def tbb_m_defs split: MessageType.splits)
next
  case False
  let ?at = "\<lambda>_::nat. (now, 0::time)"
  note step = assms(1) [unfolded tbb_dispatch_def if_not_P [OF False]]
  have mv: "dbb_move c B sha ord (DMsg k m) (DBBMod s) (DBBMod s') \<and> s' = s\<lparr>DBBMod := DBBMod s', DSMod := DSMod s'\<rparr> \<and>
      DSMod s' = DSMod s"
    if "on_DBB h s = (s', es, f)" "h = dbb_dispatch c B sha ord k m" for h k
    using that(1) by (rule on_DBB_E) (simp add: dbb_move_def that(2))
  show ?thesis
  proof (cases "MsgType m")
    case MsgPropose
    with step have "tbb_handleProposeMsg c B sha now clk m s = (s', es, f)" by simp
    from tbb_propose_D [OF this] MsgPropose show ?thesis
      by (auto simp: dbb_move_def dbb_dispatch_def intro!: exI [of _ ?at])
  next
    case MsgForward
    with step have "on_DS (HandleForwardMsg c B sha clk m) s = (s', es, f)" by (simp add: tbb_handleForwardMsg_def)
    then show ?thesis by (elim on_DS_E) simp
  next
    case MsgForward1
    then have "dbb_HandleForward1Msg m = dbb_dispatch c B sha ord ?at m" by (simp add: fun_eq_iff dbb_dispatch_def)
    moreover have "on_DBB (dbb_HandleForward1Msg m) s = (s', es, f)" using step MsgForward1 by (simp add: tbb_handleForward1Msg_def)
    ultimately show ?thesis by (blast dest: mv)
  next
    case MsgForward2
    then have "dbb_HandleForward2Msg c B sha ord clk m = dbb_dispatch c B sha ord clk m" by (simp add: fun_eq_iff dbb_dispatch_def)
    moreover have "on_DBB (dbb_HandleForward2Msg c B sha ord clk m) s = (s', es, f)" using step MsgForward2 by (simp add: tbb_handleForward2Msg_def)
    ultimately show ?thesis by (blast dest: mv)
  next
    case MsgVote
    then have "dbb_HandleVoteMsg c B ord now m = dbb_dispatch c B sha ord ?at m" by (simp add: fun_eq_iff dbb_dispatch_def)
    moreover have "on_DBB (dbb_HandleVoteMsg c B ord now m) s = (s', es, f)" using step MsgVote by (simp add: tbb_handleVoteMsg_def)
    ultimately show ?thesis by (blast dest: mv)
  next
    case MsgQC
    then have "dbb_HandleQCMsg m = dbb_dispatch c B sha ord ?at m" by (simp add: fun_eq_iff dbb_dispatch_def)
    moreover have "on_DBB (dbb_HandleQCMsg m) s = (s', es, f)" using step MsgQC by (simp add: tbb_handleQCMsg_def)
    ultimately show ?thesis by (blast dest: mv)
  qed (use step assms(2) in \<open>auto simp: tbb_handleQueryMsg_def split: option.splits\<close>)
qed

text \<open>Every step of the node moves its 1-Delta-BB* module by at most one step.\<close>

lemma tbb_step_dbb:
  assumes "tbb_step c B sha ord e s = (s', es, f)"
  shows "DBBMod s' = DBBMod s \<or> (\<exists>e'. dbb_move c B sha ord e' (DBBMod s) (DBBMod s'))"
proof (cases e)
  case (TMsg now clk m)
  with assms have d: "tbb_dispatch c B sha ord now clk m s = (s', es, f)" by simp
  show ?thesis
  proof (cases "MsgType m = MsgInit")
    case True
    let ?k = "\<lambda>_::nat. (now, 0::time)"
    show ?thesis
    proof (cases "(IsMalicious c \<and> tbb_Nid s \<noteq> ViewNodeId c) \<or> decode_time (msg_Content m) = None")
      case True
      with d \<open>MsgType m = MsgInit\<close> show ?thesis
        by (auto simp: tbb_dispatch_def tbb_handleInitMsg_m_def tbb_handleInitMsg_def split: if_splits)
    next
      case False
      then obtain t where "decode_time (msg_Content m) = Some t" by auto
      with d True False have "DBBMod s' = fst (dbb_HandleInitMsg c now m (DBBMod s))"
        by (auto simp: tbb_dispatch_def tbb_init_eq)
      then have "dbb_move c B sha ord (DMsg ?k m) (DBBMod s) (DBBMod s')"
        using True by (simp add: dbb_move_def dbb_dispatch_def) (metis prod.collapse)
      then show ?thesis by blast
    qed
  qed (use tbb_msg_D [OF d] in blast)
next
  case (TFireDS t)
  with assms show ?thesis by (auto elim: on_DS_E)
next
  case (TFireDBB t)
  with assms have "dbb_move c B sha ord (DFire t) (DBBMod s) (DBBMod s')"
    by (auto simp: dbb_move_def elim: on_DBB_E)
  then show ?thesis by blast
next
  case (TListen i)
  with assms have "DBBMod s' = DBBMod s \<or> dbb_move c B sha ord DTake (DBBMod s) (DBBMod s')"
    by (auto simp: commitPoint1Handler_def dbb_move_def split: listener.splits if_splits)
  then show ?thesis by blast
qed (use assms in auto)

lemma tbb_reach_dbb: "tbb_reach ok c B sha s \<Longrightarrow> dbb_reach c B sha (DBBMod s)"
proof (induction rule: tbb_reach.induct)
  case (new nid ip sk now)
  show ?case by (simp add: NewTBBCosensusMod_def dbb_reach.new)
next
  case (event s e ord s' es f)
  from tbb_step_dbb [OF event.hyps(4)] event.IH event.hyps(3) show ?case
    by (auto simp: dbb_move_def intro: dbb_reach.event)
qed

section \<open>The invariant of a calm node\<close>

text \<open>
  Commit point 1 holds the value the 1-Delta-BB* module has committed; the other commit points
  hold a certified or a reference value; the reference values were extracted by Dolev-Strong.
\<close>

definition tbb_inv :: "config \<Rightarrow> tbb \<Rightarrow> bool" where
  "tbb_inv c s \<longleftrightarrow>
     dbb_inv c (DBBMod s) \<and> set_invar (localSetC s) \<and> length (localSetD s) = 3 \<and>
     (\<forall>ch. staleTokens s ch = 0) \<and>
     set (localSetD s) \<subseteq> insert '''' (elems (localSetA s) \<union> elems (localSetC s)) \<and>
     {referenceValue1 s, referenceValue2 s} \<subseteq> insert '''' (elems (localSetC s)) \<and>
     (if tbb_isCommit s
      then isCommit (DBBMod s) \<and> trigger (DBBMod s) = 0 \<and> localSetD s ! 0 = dbb_CommitValue (DBBMod s)
      else localSetD s ! 0 = '''')"

lemma tbb_inv_new: "tbb_inv c (NewTBBCosensusMod nid ip sk now)"
  by (simp add: tbb_inv_def NewTBBCosensusMod_def dbb_inv_new NewDSCosensusMod_def)

text \<open>The modules may move on during a round.\<close>

lemma tbb_inv_modules:
  assumes "tbb_inv c s" and "dbb_later (DBBMod s) b" and "dbb_inv c b" and "ds_later (DSMod s) d"
  shows "tbb_inv c (s\<lparr>DBBMod := b, DSMod := d\<rparr>)"
  using assms by (auto simp: tbb_inv_def dbb_later_def ds_later_def split: if_splits)

lemma tbb_inv_value:
  assumes "tbb_inv c s" and "v \<in> insert '''' (elems (localSetA s) \<union> elems (localSetC s))" and "0 < i"
  shows "tbb_inv c (s\<lparr>localSetD := (localSetD s)[i := v]\<rparr>)"
  using assms set_update_subset_insert [of "localSetD s" i v] by (auto simp: tbb_inv_def)

lemma single_item:
  "map_order ord \<Longrightarrow> set_invar S \<Longrightarrow> Size S = 1 \<Longrightarrow> GetItems ord S ! 0 \<in> elems S"
  by (metis GetItems_singleton card_1_singletonE gs.size_card insertI1 nth_Cons_0)

lemma tbb_inv_fire:
  assumes "tbb_inv c s" and "map_order ord"
  shows "tbb_inv c (tbb_fire ord t s)"
proof -
  have A: "set_invar (localSetA s)" and C: "set_invar (localSetC s)"
    using assms(1) by (auto simp: tbb_inv_def dbb_inv_def)
  note a = single_item [OF assms(2) A] and c = single_item [OF assms(2) C]
  have r: "referenceValue1 s \<in> insert '''' (elems (localSetC s))" "referenceValue2 s \<in> insert '''' (elems (localSetC s))"
    using assms(1) by (auto simp: tbb_inv_def)
  show ?thesis
  proof (cases t)
    case CommitPoint2
    with assms(1) a r show ?thesis
      by (auto simp: tbb_fire_def commitPoint2Handler_def intro!: tbb_inv_value)
  next
    case CommitPoint3
    with assms(1) a r show ?thesis
      by (auto simp: tbb_fire_def commitPoint3Handler_def intro!: tbb_inv_value)
  qed (use assms(1) c in \<open>auto simp: tbb_fire_def referencePoint1Handler_def referencePoint2Handler_def
      has_reference_def tbb_inv_def\<close>)
qed

lemma tbb_inv_listen:
  assumes "tbb_inv c s"
  shows "tbb_inv c (commitPoint1Handler i s)"
proof -
  have st: "staleTokens s ch = 0" for ch using assms by (simp add: tbb_inv_def)
  show ?thesis
  proof (cases "i < length (listeners s) \<and> listeners s ! i = Waiting (channel s) \<and> 1 \<le> trigger (DBBMod s)")
    case True
    let ?b = "(DBBMod s)\<lparr>trigger := trigger (DBBMod s) - 1\<rparr>"
    have inv: "dbb_inv c (DBBMod s)" using assms by (simp add: tbb_inv_def)
    with True have t: "trigger (DBBMod s) = 1" "isCommit (DBBMod s)" "dbb_CommitValue (DBBMod s) \<in> elems (localSetA s)"
      by (auto simp: dbb_inv_def)
    have "dbb_inv c ?b" using inv by (auto simp: dbb_inv_def quorum_met_def)
    with assms True t set_update_subset_insert [of "localSetD s" 0 "dbb_CommitValue (DBBMod s)"] show ?thesis
      by (auto simp: commitPoint1Handler_def tbb_inv_def commit_point1_def)
  next
    case False
    with st have "commitPoint1Handler i s = s \<or> (\<exists>ls. commitPoint1Handler i s = s\<lparr>listeners := ls\<rparr>)"
      by (auto simp: commitPoint1Handler_def split: listener.splits)
    with assms show ?thesis by (auto simp: tbb_inv_def)
  qed
qed

lemma tbb_inv_init:
  assumes "tbb_inv c s" and "trigger (DBBMod s) = 0" and "tbb_handleInitMsg c now m s = (s', es, f)"
  shows "tbb_inv c s'"
proof (cases "decode_time (msg_Content m)")
  case None
  with assms show ?thesis by (simp add: tbb_handleInitMsg_def)
next
  case (Some t)
  have "dbb_inv c (fst (dbb_HandleInitMsg c now m (DBBMod s)))"
    using dbb_inv_init [of c now m "DBBMod s"] assms(1) by (simp add: tbb_inv_def) (metis prod.collapse)
  moreover have "set_invar (ExtrSet (fst (HandleInitMsg c now m (DSMod s))))"
    using Some by (simp add: HandleInitMsg_def Let_def)
  ultimately show ?thesis
    using assms Some by (auto simp: tbb_init_eq tbb_inv_def)
qed

lemma tbb_inv_step:
  assumes "tbb_inv c s" and "calm s e" and "map_order ord" and "tbb_step c B sha ord e s = (s', es, f)"
  shows "tbb_inv c s'"
proof (cases e)
  case (TMsg now clk m)
  with assms(4) have d: "tbb_dispatch c B sha ord now clk m s = (s', es, f)" by simp
  have inv: "dbb_inv c (DBBMod s)" "set_invar (localSetC s)" using assms(1) by (auto simp: tbb_inv_def)
  show ?thesis
  proof (cases "MsgType m = MsgInit")
    case True
    with d assms(1,2) TMsg tbb_inv_init show ?thesis
      by (auto simp: tbb_dispatch_def calm_def tbb_handleInitMsg_m_def split: if_splits)
  next
    case False
    note move = tbb_msg_D [OF d False]
    have "dbb_later (DBBMod s) (DBBMod s') \<and> dbb_inv c (DBBMod s')"
    proof (cases "DBBMod s' = DBBMod s")
      case moved: False
      with move obtain k es1 f1 where st: "dbb_step c B sha ord (DMsg k m) (DBBMod s) = (DBBMod s', es1, f1)"
        by (auto simp: dbb_move_def)
      with False show ?thesis
        using dbb_step_later [OF inv(1) st] dbb_inv_step [OF st inv(1)] by (simp add: no_init_def)
    qed (use inv in simp)
    moreover have "ds_later (DSMod s) (DSMod s')"
      using move ds_handlers_later(1,2) [OF inv(2)] by (metis ds_later_refl)
    ultimately have "tbb_inv c (s\<lparr>DBBMod := DBBMod s', DSMod := DSMod s'\<rparr>)"
      using assms(1) by (intro tbb_inv_modules) simp_all
    with move show ?thesis by metis
  qed
next
  case (TFireDS t)
  with assms(4) obtain d where d: "ds_fire ord t (DSMod s) = (d, es, f)" "s' = s\<lparr>DSMod := d\<rparr>"
    by (auto elim: on_DS_E)
  have "set_invar (localSetC s)" "dbb_inv c (DBBMod s)" using assms(1) by (auto simp: tbb_inv_def)
  then have "tbb_inv c (s\<lparr>DBBMod := DBBMod s, DSMod := d\<rparr>)"
    using assms(1) ds_handlers_later(3) [OF _ d(1)] by (intro tbb_inv_modules) simp_all
  with d(2) show ?thesis by simp
next
  case (TFireDBB t)
  with assms(4) obtain b where b: "dbb_step c B sha ord (DFire t) (DBBMod s) = (b, es, f)" "s' = s\<lparr>DBBMod := b\<rparr>"
    by (auto elim: on_DBB_E)
  have inv: "dbb_inv c (DBBMod s)" using assms(1) by (simp add: tbb_inv_def)
  have "tbb_inv c (s\<lparr>DBBMod := b, DSMod := DSMod s\<rparr>)"
    using assms(1) dbb_step_later [OF inv b(1)] dbb_inv_step [OF b(1) inv]
    by (intro tbb_inv_modules) (simp_all add: no_init_def)
  with b(2) show ?thesis by simp
qed (use assms tbb_inv_fire tbb_inv_listen in auto)

lemma tbb_inv_reach: "tbb_reach calm c B sha s \<Longrightarrow> tbb_inv c s"
  by (induction rule: tbb_reach.induct) (auto intro: tbb_inv_new tbb_inv_step)

lemma tbb_commit1_certified:
  "tbb_inv c s \<Longrightarrow> tbb_isCommit s \<Longrightarrow> localSetD s ! 0 \<in> elems (localSetA s)"
  by (simp add: tbb_inv_def dbb_inv_def)

lemma tbb_certified:
  "tbb_inv c s \<Longrightarrow> keys (QCMap (DBBMod s)) = elems (localSetA s)"
  by (simp add: tbb_inv_def dbb_inv_def)

section \<open>Properties\<close>



text \<open>
  C20: The commit points of a calm node agree: once commit point 1 is reached, commit point 2 changes
  nothing, and if a single value is certified, commit point 3 stores the value of commit point 1.
\<close>

theorem tbb_commit_points_agree:
  assumes "tbb_reach calm c B sha s" and "tbb_isCommit s" and "map_order ord"
  shows "tbb_fire ord CommitPoint2 s = s \<and>
    (card (keys (QCMap (DBBMod s))) = 1 \<longrightarrow>
       localSetD (tbb_fire ord CommitPoint3 s) = (localSetD s)[2 := localSetD s ! 0])"
proof -
  note i = tbb_inv_reach [OF assms(1)]
  have A: "set_invar (localSetA s)" using i by (simp add: tbb_inv_def dbb_inv_def)
  have "localSetD (tbb_fire ord CommitPoint3 s) = (localSetD s)[2 := localSetD s ! 0]"
    if "card (elems (localSetA s)) = 1"
  proof -
    have s1: "Size (localSetA s) = 1" using that gs.size_card [OF A] by simp
    moreover have "GetItems ord (localSetA s) ! 0 = localSetD s ! 0"
      using that single_item [OF assms(3) A s1] tbb_commit1_certified [OF i assms(2)]
      by (metis card_1_singletonE singletonD)
    ultimately show ?thesis by (simp add: tbb_fire_def commitPoint3Handler_def)
  qed
  with assms(2) show ?thesis by (simp add: tbb_fire_def commitPoint2Handler_def tbb_certified [OF i])
qed

text \<open>
  A query to a calm node is answered, without changing the node, with the first commit point
  that has a value; the answer is empty, certified by the certificates sent along, or a value
  extracted by Dolev-Strong, and after commit point 1 (with a nonempty value) it is the value of
  commit point 1 with its certificate.
\<close>

theorem tbb_query_answer:
  assumes "tbb_reach calm c B sha s" and "decode_string (msg_Content m) = Some ip"
  shows "\<exists>v qcs. tbb_handleQueryMsg m s =
      (s, [SendTo ip \<lparr>MsgType = MsgReplyQuery, msg_Content = PReplyValue \<lparr>rv_Value = v, rv_QCMap = qcs\<rparr>\<rparr>], Done) \<and>
    v \<in> insert '''' (keys qcs \<union> elems (localSetC s)) \<and>
    (tbb_isCommit s \<longrightarrow> localSetD s ! 0 \<noteq> '''' \<longrightarrow> v = localSetD s ! 0 \<and> v \<in> keys qcs)"
proof -
  note i = tbb_inv_reach [OF assms(1)]
  have len: "length (localSetD s) = 3" and D: "set (localSetD s) \<subseteq> insert '''' (elems (localSetA s) \<union> elems (localSetC s))"
    using i by (auto simp: tbb_inv_def)
  have "first_value xs \<in> insert '''' (set xs)" for xs by (induction xs) auto
  with D tbb_certified [OF i] have "first_value (localSetD s) \<in> insert '''' (keys (QCMap (DBBMod s)) \<union> elems (localSetC s))"
    by blast
  moreover have "first_value (localSetD s) = localSetD s ! 0" if "localSetD s ! 0 \<noteq> ''''"
    using that len by (cases "localSetD s") auto
  ultimately show ?thesis
    using assms(2) tbb_commit1_certified [OF i] tbb_certified [OF i] by (auto simp: tbb_handleQueryMsg_def)
qed

text \<open>
  C39: The timers of a round are ordered: the first reference point does not come after the second,
  commit point 2 not after commit point 3, and a reference point precedes its commit point.  The
  Dolev-Strong module has committed by the first reference point only if the fault threshold is at
  most \<open>t1\<close>; with a smaller resilience the reference point looks at an older value.
\<close>

theorem tbb_timer_order:
  assumes "f64_unit (MaliciousRatio c)" and "f64_unit (ResilientRatio c)"
    and "0 \<le> NodeNum c" and "NodeNum c < 2 ^ 53" and "0 < TickInterval c"
    and "decode_time (msg_Content m) = Some start"
  shows "\<exists>r1 r2 p2 p3 d. let s = fst (tbb_handleInitMsg c now m (NewTBBCosensusMod nid ip sk t0)) in
    tbb_timers s = [(r1, RefPoint1), (r2, RefPoint2), (p2, CommitPoint2), (p3, CommitPoint3)] \<and>
    r1 \<le> r2 \<and> p2 \<le> p3 \<and> r1 < p2 \<and> r2 < p3 \<and>
    filter (\<lambda>t. snd t = CommitTimer) (timers (DSMod s)) = [(d, CommitTimer)] \<and>
    (d \<le> r1 \<longleftrightarrow> maliciousNodes c \<le> t1 c) \<and> d \<le> r2 + ticks c 1"
proof -
  let ?T = "TickInterval c * Millisecond"
  have T: "0 < ?T" using assms(5) by (simp add: Millisecond_def)
  have tk: "ticks c n = n * ?T" for n by (simp add: ticks_def mult.assoc)
  have le: "ticks c i \<le> ticks c j \<longleftrightarrow> i \<le> j" and less: "ticks c i < ticks c j \<longleftrightarrow> i < j" for i j
    unfolding tk by (rule mult_le_cancel_right_pos [OF T], rule mult_less_cancel_right_pos [OF T])
  have plus: "ticks c i + ticks c j = ticks c (i + j)" for i j by (simp add: tk distrib_right)
  have t: "t1 c \<le> t2 c" "maliciousNodes c \<le> t2 c + 1"
    using threshold_bound_facts [OF assms(1-4)] by (simp_all add: t2_def)
  let ?s = "fst (tbb_handleInitMsg c now m (NewTBBCosensusMod nid ip sk t0))"
  have "tbb_timers ?s = [(start + ticks c (t1 c + 1), RefPoint1), (start + ticks c (t2 c + 1), RefPoint2),
      (start + ticks c (t1 c + 6), CommitPoint2), (start + ticks c (t2 c + 6), CommitPoint3)]"
    using assms(6) by (simp add: tbb_init_eq NewTBBCosensusMod_def)
  moreover have "filter (\<lambda>t. snd t = CommitTimer) (timers (DSMod ?s)) =
      [(start + ticks c (maliciousNodes c + 1), CommitTimer)]"
    using assms(6) by (simp add: tbb_init_eq NewTBBCosensusMod_def NewDSCosensusMod_def HandleInitMsg_def Let_def
        av_Set_nil av_Get_def NewAtomicValue_def ticks_def)
  ultimately show ?thesis
    using t by (simp add: Let_def le less add.assoc plus)
qed

text \<open>
  On the view node both modules schedule the end of the round, so that one round sends the signal
  \<open>ConsensusDone\<close> twice, at the same time.
\<close>

lemma tbb_round_ends_twice:
  assumes "decode_time (msg_Content m) = Some start" and "s = fst (tbb_handleInitMsg c now m (NewTBBCosensusMod 0 ip sk t0))"
  shows "filter (\<lambda>t. snd t = DoneTimer) (timers (DSMod s)) = [(now + ticks c (NodeNum c + 7), DoneTimer)] \<and>
    filter (\<lambda>t. snd t = DbbDone) (dbb_timers (DBBMod s)) = [(now + ticks c (NodeNum c + 7), DbbDone)] \<and>
    fst (snd (tbb_step c B sha ord (TFireDS DoneTimer) s)) = [CallHandler MsgConsensusDone] \<and>
    fst (snd (tbb_step c B sha ord (TFireDBB DbbDone) s)) = [CallHandler MsgConsensusDone]"
  using assms
  by (simp add: tbb_init_eq NewTBBCosensusMod_def NewDSCosensusMod_def New_1Delta_BBConsensusMod_def HandleInitMsg_def
      dbb_HandleInitMsg_def Let_def on_DS_def on_DBB_def ds_fire_def dbb_fire_def ticks_def mult.commute mult.left_commute)

section \<open>Concrete runs\<close>

fun tbb_run :: "config \<Rightarrow> tbb_event list \<Rightarrow> tbb \<Rightarrow> tbb" where
  "tbb_run c [] s = s"
| "tbb_run c (e # evs) s = tbb_run c evs (fst (tbb_step c pair_bls (\<lambda>m. m) (\<lambda>xs. xs) e s))"

fun run_calm :: "config \<Rightarrow> tbb_event list \<Rightarrow> tbb \<Rightarrow> bool" where
  "run_calm c [] s = True"
| "run_calm c (e # evs) s = (calm s e \<and> run_calm c evs (fst (tbb_step c pair_bls (\<lambda>m. m) (\<lambda>xs. xs) e s)))"

lemma tbb_run_reach:
  "tbb_reach ok c pair_bls (\<lambda>m. m) s \<Longrightarrow> run_calm c evs s \<or> ok = (\<lambda>_ _. True) \<Longrightarrow> ok = calm \<or> ok = (\<lambda>_ _. True) \<Longrightarrow>
   tbb_reach ok c pair_bls (\<lambda>m. m) (tbb_run c evs s)"
proof (induction evs arbitrary: s)
  case (Cons e evs)
  obtain s1 es f where st: "tbb_step c pair_bls (\<lambda>m. m) (\<lambda>xs. xs) e s = (s1, es, f)" by (metis prod_cases3)
  have "ok s e" using Cons.prems(2,3) by auto
  from tbb_reach.event [OF Cons.prems(1) this map_order_id st] Cons.IH [of s1] Cons.prems(2,3) st show ?case
    by auto
qed simp

definition tbb_node :: "int \<Rightarrow> tbb" where
  "tbb_node nid = NewTBBCosensusMod nid (''node'') (Some ''k'') 0"

definition tbb_at0 :: "message \<Rightarrow> tbb_event" where
  "tbb_at0 m = TMsg 0 (\<lambda>i. (0, 0)) m"

definition tbb_vote :: "string \<Rightarrow> signature \<Rightarrow> tbb_event" where
  "tbb_vote v g = tbb_at0 (vote_msg \<lparr>vc_NodeId = 0, vc_Content = v, vc_Sig = Some g\<rparr>)"

text \<open>A vote that arrives four ticks after the start, too late for commit point 1.\<close>

definition tbb_late_vote :: "string \<Rightarrow> signature \<Rightarrow> tbb_event" where
  "tbb_late_vote v g = TMsg (ticks dbb_cfg 4) (\<lambda>i. (0, 0))
     (vote_msg \<lparr>vc_NodeId = 0, vc_Content = v, vc_Sig = Some g\<rparr>)"

text \<open>Initialised, certified by three votes, and the goroutine of commit point 1 runs.\<close>

definition committing :: "tbb_event list" where
  "committing = [tbb_at0 \<lparr>MsgType = MsgInit, msg_Content = PTime 0\<rparr>,
     tbb_vote ''A'' ''s0'', TListen 0, tbb_vote ''A'' ''s2'', tbb_vote ''A'' ''s3'', TListen 0]"

definition committed :: "int \<Rightarrow> tbb" where
  "committed nid = tbb_run dbb_cfg committing (tbb_node nid)"

lemma committed_reach: "nid \<in> {1, 2} \<Longrightarrow> tbb_reach calm dbb_cfg pair_bls (\<lambda>m. m) (committed nid)"
proof -
  assume "nid \<in> {1, 2}"
  moreover have "run_calm dbb_cfg committing (tbb_node 1)" "run_calm dbb_cfg committing (tbb_node 2)" by code_simp+
  ultimately have "run_calm dbb_cfg committing (tbb_node nid)" by auto
  then show ?thesis unfolding committed_def tbb_node_def
    by (intro tbb_run_reach tbb_reach.new) (simp_all add: tbb_node_def)
qed

lemma committed_facts:
  "tbb_isCommit (committed 1) \<and> localSetD (committed 1) = [''A'', '''', ''''] \<and>
   map fst (QCMap (DBBMod (committed 1))) = [''A''] \<and>
   set_data (sigs_of (voteMap (DBBMod (committed 1))) ''A'') = [''s0'', ''s2'', ''s3'']"
  "tbb_isCommit (committed 2) \<and> map fst (QCMap (DBBMod (committed 2))) = [''A''] \<and>
   set_data (sigs_of (voteMap (DBBMod (committed 2))) ''A'') = [''s0'', ''s2'', ''s3'']"
  by code_simp+



theorem tbb_commit_points_agree_witness:
  "localSetD (tbb_fire rev CommitPoint3 (committed 1)) = [''A'', '''', ''A''] \<and>
   tbb_fire rev CommitPoint2 (committed 1) = committed 1"
proof -
  have "keys (QCMap (DBBMod (committed 1))) = {''A''}"
    using committed_facts(1) by (metis keys_def list.set(1,2) list.set_map)
  then show ?thesis
    using tbb_commit_points_agree [OF committed_reach _ map_order_rev, of 1] committed_facts(1) by simp
qed

theorem tbb_query_answer_witness:
  "\<exists>qcs. tbb_handleQueryMsg \<lparr>MsgType = MsgQuery, msg_Content = PString ''c''\<rparr> (committed 1) =
     (committed 1, [SendTo ''c'' \<lparr>MsgType = MsgReplyQuery,
        msg_Content = PReplyValue \<lparr>rv_Value = ''A'', rv_QCMap = qcs\<rparr>\<rparr>], Done) \<and> ''A'' \<in> keys qcs"
  using tbb_query_answer [OF committed_reach, of 1 "\<lparr>MsgType = MsgQuery, msg_Content = PString ''c''\<rparr>" "''c''"]
    committed_facts(1)
  by auto

theorem tbb_timer_order_witness:
  "\<exists>d. filter (\<lambda>t. snd t = CommitTimer) (timers (DSMod (fst (tbb_handleInitMsg example_config 5
     \<lparr>MsgType = MsgInit, msg_Content = PTime 7\<rparr> (tbb_node 1))))) = [(d, CommitTimer)]"
  using tbb_timer_order [of example_config "\<lparr>MsgType = MsgInit, msg_Content = PTime 7\<rparr>" 7 5 1 "''node''" "Some ''k''" 0]
    f64_unit_examples
  by (auto simp: example_config_def tbb_node_def Let_def)

text \<open>
  A token left in a channel by an earlier round: if an \<open>Init\<close> arrives after the certificate was made
  but before the goroutine of commit point 1 has run, the goroutine takes the token in the new
  round, marks the node as committed with an empty value, and commit point 2 is skipped although
  a value has been certified by then.
\<close>

theorem stale_token_skips_commit_point2:
  "let s = tbb_run dbb_cfg
       [tbb_at0 \<lparr>MsgType = MsgInit, msg_Content = PTime 0\<rparr>, TListen 0,
        tbb_vote ''A'' ''s0'', tbb_vote ''A'' ''s2'', tbb_vote ''A'' ''s3'',
        tbb_at0 \<lparr>MsgType = MsgInit, msg_Content = PTime 0\<rparr>, TListen 0,
        tbb_late_vote ''B'' ''s0'', tbb_late_vote ''B'' ''s2'', tbb_late_vote ''B'' ''s3'',
        TFire CommitPoint2] (tbb_node 1)
   in tbb_isCommit s \<and> localSetD s = ['''', '''', ''''] \<and> set_data (localSetA s) = [''B'']"
  by code_simp

end
