(* ===== verification/Clients.thy ===== *)
theory Clients
  imports Senders TBB
begin

text \<open>
  The client modules that query and measure (clientMod/query.go, query_tbb.go, measure.go and the
  measure addons).  The query modules learn the start of a round from the \<open>Init\<close> message and query the
  view node at fixed times; a sleeping goroutine is its wake-up time.  The measure addons keep one record
  each; writing a file is the list of rows written.  Latencies are kept as durations: their conversion to
  seconds, the averages and the formatting are left out.
\<close>

definition query_msg :: "string \<Rightarrow> message" where
  "query_msg ip = \<lparr>MsgType = MsgQuery, msg_Content = PString ip\<rparr>"

section \<open>Querying Dolev-Strong\<close>

record query_mod =
  qm_Ipaddr :: string
  qm_timers :: "time list"

definition NewQueryMod :: "string \<Rightarrow> query_mod" where
  "NewQueryMod ip = \<lparr>qm_Ipaddr = ip, qm_timers = []\<rparr>"

definition qm_handleInitMsg :: "config \<Rightarrow> message \<Rightarrow> query_mod \<Rightarrow> query_mod" where
  "qm_handleInitMsg c msg s =
     (case decode_time (msg_Content msg) of
        None \<Rightarrow> s
      | Some start \<Rightarrow>
          let delayDuration = (maliciousNodes c + 1) * TickInterval c * Millisecond
          in s\<lparr>qm_timers := qm_timers s @ [start + delayDuration + (TickInterval c sdiv 4) * Millisecond]\<rparr>)"

text \<open>What the goroutine does when it wakes up.\<close>

definition qm_fire :: "config \<Rightarrow> query_mod \<Rightarrow> effect list" where
  "qm_fire c s = [SendTo (ip_of c 0 0) (query_msg (qm_Ipaddr s))]"

text \<open>The result that is printed.\<close>

definition qm_handleReplyQueryMsg :: "message \<Rightarrow> string option" where
  "qm_handleReplyQueryMsg msg = decode_string (msg_Content msg)"

text \<open>
  C24: The client of a Dolev-Strong shard gets the committed value: it queries no earlier than the
  view node commits (both count from the start time of the same \<open>Init\<close>), and the answer it prints is the only value the
  view node received, or \<open>0\<close> if there was none or more than one.
\<close>

theorem ds_client_gets_value:
  assumes "honest_cfg c" and "map_order ord" and "decode_time (msg_Content init) = Some t"
    and "\<forall>m \<in> snd ` set ms. MsgType m \<noteq> MsgInit" and "onUpdate (startTime s) = None"
  shows "let s0 = fst (HandleInitMsg c now init s); s1 = ds_commit ord (ds_serve c B sha ms s0) in
    (\<exists>d q. filter (\<lambda>x. snd x = CommitTimer) (timers s0) = filter (\<lambda>x. snd x = CommitTimer) (timers s) @ [(d, CommitTimer)] \<and>
       qm_timers (qm_handleInitMsg c init (NewQueryMod ip)) = [q] \<and> d \<le> q) \<and>
    (\<exists>m. handleQueryMsg (query_msg ip) s1 = (s1, [SendTo ip m], Done) \<and>
       qm_handleReplyQueryMsg m = Some (if \<exists>v. values_of ms = {v} then the_elem (values_of ms) else ''0''))"
proof -
  have tick: "0 \<le> TickInterval c sdiv 4" using assms(1) by (simp add: honest_cfg_def sdiv_nonneg)
  let ?s0 = "fst (HandleInitMsg c now init s)"
  have "filter (\<lambda>x. snd x = CommitTimer) (timers ?s0) =
      filter (\<lambda>x. snd x = CommitTimer) (timers s) @ [(t + (maliciousNodes c + 1) * TickInterval c * Millisecond, CommitTimer)]"
    using assms(3,5) by (simp add: HandleInitMsg_def av_Set_nil av_Get_def Let_def)
  then have "\<exists>d q. filter (\<lambda>x. snd x = CommitTimer) (timers ?s0) = filter (\<lambda>x. snd x = CommitTimer) (timers s) @ [(d, CommitTimer)] \<and>
       qm_timers (qm_handleInitMsg c init (NewQueryMod ip)) = [q] \<and> d \<le> q"
    using assms(3) tick by (simp add: qm_handleInitMsg_def NewQueryMod_def Millisecond_def Let_def)
  moreover have "\<exists>m. handleQueryMsg (query_msg ip) s1 = (s1, [SendTo ip m], Done) \<and>
       qm_handleReplyQueryMsg m = Some (CommitValue s1)" for s1
    by (simp add: handleQueryMsg_def query_msg_def qm_handleReplyQueryMsg_def)
  from this [of "ds_commit ord (ds_serve c B sha ms ?s0)"]
  have "\<exists>m. handleQueryMsg (query_msg ip) (ds_commit ord (ds_serve c B sha ms ?s0)) =
        (ds_commit ord (ds_serve c B sha ms ?s0), [SendTo ip m], Done) \<and>
       qm_handleReplyQueryMsg m = Some (if \<exists>v. values_of ms = {v} then the_elem (values_of ms) else ''0'')"
    by (simp only: ds_after_init [OF assms(1-4)])
  ultimately show ?thesis
    unfolding Let_def by (rule conjI)
qed

theorem ds_client_gets_value_witness:
  "\<exists>m. handleQueryMsg (query_msg ''c'') (ds_commit rev (ds_serve ds_cfg pair_bls (\<lambda>m. m)
       [(still, ds_propose ''A'')] (fst (HandleInitMsg ds_cfg 0 ds_init ds_node)))) =
     (ds_commit rev (ds_serve ds_cfg pair_bls (\<lambda>m. m)
       [(still, ds_propose ''A'')] (fst (HandleInitMsg ds_cfg 0 ds_init ds_node))), [SendTo ''c'' m], Done) \<and>
     qm_handleReplyQueryMsg m = Some ''A''"
proof -
  have "onUpdate (startTime ds_node) = None" by (simp add: ds_node_def NewDSCosensusMod_def NewAtomicValue_def)
  then show ?thesis
    using ds_client_gets_value [OF ds_cfg_honest map_order_rev ds_msgs(5), of "[(still, ds_propose ''A'')]" ds_node
        0 pair_bls "\<lambda>m. m" "''c''"]
    by (simp add: values_of_def Let_def)
qed

section \<open>Querying TBB\<close>

record query_tbb =
  qt_Ipaddr :: string
  qt_startTime :: "time atomic_value"
  latencys :: "time list"
  qt_timers :: "time list"

definition NewQueryTBBMod :: "string \<Rightarrow> time \<Rightarrow> query_tbb" where
  "NewQueryTBBMod ip now = \<lparr>qt_Ipaddr = ip, qt_startTime = NewAtomicValue now, latencys = [], qt_timers = []\<rparr>"

text \<open>\<open>sendQueryOnTimeout\<close>: the goroutine waits for its timer and half a tick more.\<close>

definition sendQueryOnTimeout :: "config \<Rightarrow> time \<Rightarrow> query_tbb \<Rightarrow> query_tbb" where
  "sendQueryOnTimeout c due s = s\<lparr>qt_timers := qt_timers s @ [due + (TickInterval c sdiv 2) * Millisecond]\<rparr>"

definition qt_fire :: "config \<Rightarrow> query_tbb \<Rightarrow> effect list" where
  "qt_fire c s = [SendTo (ip_of c 0 0) (query_msg (qt_Ipaddr s))]"

definition qt_handleInitMsg :: "config \<Rightarrow> message \<Rightarrow> query_tbb \<Rightarrow> query_tbb" where
  "qt_handleInitMsg c msg s =
     (case decode_time (msg_Content msg) of
        None \<Rightarrow> s
      | Some start \<Rightarrow>
          let s1 = s\<lparr>qt_startTime := snd (av_Set start None (qt_startTime s))\<rparr>
          in sendQueryOnTimeout c (start + ticks c (t2 c + 6)) (sendQueryOnTimeout c (start + ticks c 3) s1))"

text \<open>What the client decides on a reply.\<close>

datatype verdict =
    Confirm1 string      \<comment> \<open>aggressive client, first point\<close>
  | QueryAgain
  | Conservative
  | Confirm2 string      \<comment> \<open>aggressive client, second point\<close>
  | Confirm3 string      \<comment> \<open>conservative client\<close>

definition qt_handleReplyQueryMsg :: "config \<Rightarrow> time \<Rightarrow> message \<Rightarrow> query_tbb \<Rightarrow> query_tbb \<times> verdict option" where
  "qt_handleReplyQueryMsg c now msg s =
     (case decode_reply_value (msg_Content msg) of
        None \<Rightarrow> (s, None)
      | Some r \<Rightarrow>
          let timeNow = now - av_Get (qt_startTime s) in
          if timeNow < ticks c (t1 c + 6) then
            if length (rv_QCMap r) \<le> 1 then
              if rv_Value r \<noteq> '''' then (s\<lparr>latencys := latencys s @ [timeNow]\<rparr>, Some (Confirm1 (rv_Value r)))
              else (sendQueryOnTimeout c (av_Get (qt_startTime s) + ticks c (t1 c + 6)) s, Some QueryAgain)
            else (s, Some Conservative)
          else if timeNow < ticks c (t2 c + 6) then
            (if rv_Value r \<noteq> '''' then s\<lparr>latencys := latencys s @ [timeNow]\<rparr> else s, Some (Confirm2 (rv_Value r)))
          else
            (if latencys s = [] then s\<lparr>latencys := latencys s @ [timeNow]\<rparr> else s, Some (Confirm3 (rv_Value r))))"

text \<open>
  C25: The aggressive client: a reply it gets at the first point from a calm node that has
  committed at commit point 1 makes it confirm that node's value if this is the only certified
  value, and turn conservative otherwise; it never confirms a value without a certificate there.
\<close>

theorem aggressive_client_confirms:
  assumes "tbb_reach calm c B sha n" and "tbb_isCommit n" and "localSetD n ! 0 \<noteq> ''''"
    and "now - av_Get (qt_startTime s) < ticks c (t1 c + 6)" and "distinct (map fst (QCMap (DBBMod n)))"
  shows "\<exists>m. tbb_handleQueryMsg (query_msg ip) n = (n, [SendTo ip m], Done) \<and>
    (keys (QCMap (DBBMod n)) = {localSetD n ! 0} \<longrightarrow>
       snd (qt_handleReplyQueryMsg c now m s) = Some (Confirm1 (localSetD n ! 0)) \<and>
       latencys (fst (qt_handleReplyQueryMsg c now m s)) = latencys s @ [now - av_Get (qt_startTime s)]) \<and>
    (keys (QCMap (DBBMod n)) \<noteq> {localSetD n ! 0} \<longrightarrow> qt_handleReplyQueryMsg c now m s = (s, Some Conservative))"
proof -
  note i = tbb_inv_reach [OF assms(1)]
  have len: "length (localSetD n) = 3" using i by (simp add: tbb_inv_def)
  have v: "first_value (localSetD n) = localSetD n ! 0" using assms(3) len by (cases "localSetD n") auto
  have k: "localSetD n ! 0 \<in> keys (QCMap (DBBMod n))"
    using tbb_commit1_certified [OF i assms(2)] tbb_certified [OF i] by simp
  have card: "card (keys (QCMap (DBBMod n))) = length (QCMap (DBBMod n))"
    using distinct_card [OF assms(5)] by (simp add: keys_def)
  have one: "length (QCMap (DBBMod n)) \<le> 1 \<longleftrightarrow> keys (QCMap (DBBMod n)) = {localSetD n ! 0}"
  proof
    assume "length (QCMap (DBBMod n)) \<le> 1"
    with card k have "card (keys (QCMap (DBBMod n))) = 1" by (metis One_nat_def card_eq_0_iff finite_imageI keys_def
          List.finite_set empty_iff le_antisym less_one not_le)
    with k show "keys (QCMap (DBBMod n)) = {localSetD n ! 0}" by (metis card_1_singletonE singletonD)
  next
    assume "keys (QCMap (DBBMod n)) = {localSetD n ! 0}"
    with card show "length (QCMap (DBBMod n)) \<le> 1" by simp
  qed
  define m where "m = \<lparr>MsgType = MsgReplyQuery, msg_Content = PReplyValue
      \<lparr>rv_Value = localSetD n ! 0, rv_QCMap = QCMap (DBBMod n)\<rparr>\<rparr>"
  have reply: "tbb_handleQueryMsg (query_msg ip) n = (n, [SendTo ip m], Done)"
    by (simp add: tbb_handleQueryMsg_def query_msg_def m_def v)
  have decide: "qt_handleReplyQueryMsg c now m s =
      (if length (QCMap (DBBMod n)) \<le> 1
       then (s\<lparr>latencys := latencys s @ [now - av_Get (qt_startTime s)]\<rparr>, Some (Confirm1 (localSetD n ! 0)))
       else (s, Some Conservative))"
    using assms(3,4) by (simp add: qt_handleReplyQueryMsg_def m_def Let_def)
  show ?thesis
    by (intro exI [of _ m] conjI impI) (simp_all add: reply decide one [unfolded One_nat_def])
qed

theorem aggressive_client_confirms_witness:
  "\<exists>m. snd (qt_handleReplyQueryMsg dbb_cfg 5 m (NewQueryTBBMod ''c'' 0)) = Some (Confirm1 ''A'')"
proof -
  have "keys (QCMap (DBBMod (committed 1))) = {''A''}"
    using committed_facts(1) by (metis keys_def list.set(1,2) list.set_map)
  moreover have "5 - av_Get (qt_startTime (NewQueryTBBMod ''c'' 0)) < ticks dbb_cfg (t1 dbb_cfg + 6)" by code_simp
  ultimately show ?thesis
    using aggressive_client_confirms [OF committed_reach, of 1 5 "NewQueryTBBMod ''c'' 0" "''c''"] committed_facts(1)
    by auto
qed

end
