(* ===== verification/DBB_Shard.thy ===== *)
theory DBB_Shard
  imports DeltaBB
begin

text \<open>
  The fast path of 1-Delta-BB* in a shard whose view node is honest and whose faulty nodes are silent: a node is a
  machine that knows the proposed value or not, collects signatures on it and gets a certificate when a received
  vote completes a quorum.  The module refines this machine.  The nodes of a shard are linked by
  the votes alone: what one broadcasts the others receive, in any order and at any time.
\<close>

section \<open>The abstract machine\<close>

datatype fast_event = Known | GotVote signature | OwnVote | Idle

record fast =
  fa_known :: bool
  fa_sigs :: "signature set"
  fa_cert :: bool

definition fast_start :: fast where
  "fast_start = \<lparr>fa_known = False, fa_sigs = {}, fa_cert = False\<rparr>"

fun fast_step :: "nat \<Rightarrow> signature \<Rightarrow> fast_event \<Rightarrow> fast \<Rightarrow> fast" where
  "fast_step q own Known a = a\<lparr>fa_known := True\<rparr>"
| "fast_step q own (GotVote g) a =
     a\<lparr>fa_sigs := insert g (fa_sigs a), fa_cert := (fa_cert a \<or> card (insert g (fa_sigs a)) = q)\<rparr>"
| "fast_step q own OwnVote a = (if fa_known a then a\<lparr>fa_sigs := insert own (fa_sigs a)\<rparr> else a)"
| "fast_step q own Idle a = a"

definition fast_run :: "nat \<Rightarrow> signature \<Rightarrow> fast_event list \<Rightarrow> fast \<Rightarrow> fast" where
  "fast_run q own es a = fold (fast_step q own) es a"

definition received :: "fast_event list \<Rightarrow> signature set" where
  "received es = {g. GotVote g \<in> set es}"

lemma received_simps [simp]:
  "received [] = {}"
  "received (es @ es') = received es \<union> received es'"
  "received [GotVote g] = {g}"
  "received [Known] = {}" "received [OwnVote] = {}" "received [Idle] = {}"
  by (auto simp: received_def)

text \<open>Whether the own vote is ever the one that completes the quorum.\<close>

definition own_completes :: "nat \<Rightarrow> fast_event list \<Rightarrow> bool" where
  "own_completes q es \<longleftrightarrow> (\<exists>es1 es2. es = es1 @ OwnVote # es2 \<and> Suc (card (received es1)) = q)"

lemma own_completes_snoc: "\<not> own_completes q (es @ [e]) \<Longrightarrow> \<not> own_completes q es"
  unfolding own_completes_def by (metis append_Cons append_assoc)

lemma received_finite: "finite (received es)"
proof -
  have "received es \<subseteq> (\<lambda>e. case e of GotVote g \<Rightarrow> g | _ \<Rightarrow> []) ` set es" by (force simp: received_def)
  then show ?thesis by (rule finite_subset) simp
qed

lemma fast_sigs:
  "fa_sigs (fast_run q own es fast_start) \<subseteq> insert own (received es) \<and>
   received es \<subseteq> fa_sigs (fast_run q own es fast_start)"
proof (induction es rule: rev_induct)
  case (snoc e es)
  then show ?case by (cases e) (auto simp: fast_run_def)
qed (simp add: fast_run_def fast_start_def)

lemma fast_cert:
  assumes "\<not> own_completes q es" and "0 < q"
  shows "fa_cert (fast_run q own es fast_start) \<or> card (fa_sigs (fast_run q own es fast_start)) < q"
  using assms(1)
proof (induction es rule: rev_induct)
  case (snoc e es)
  let ?a = "fast_run q own es fast_start"
  have IH: "fa_cert ?a \<or> card (fa_sigs ?a) < q" using snoc own_completes_snoc by blast
  have fin: "finite (fa_sigs ?a)" using fast_sigs received_finite by (meson finite_insert finite_subset)
  show ?case
  proof (cases e)
    case (GotVote g)
    have "card (insert g (fa_sigs ?a)) \<le> Suc (card (fa_sigs ?a))" by (rule card_insert_le_m1) simp_all
    with IH GotVote show ?thesis by (auto simp: fast_run_def)
  next
    case OwnVote
    with snoc.prems have "Suc (card (received es)) \<noteq> q" by (auto simp: own_completes_def)
    moreover have "fa_sigs ?a = received es" if "own \<notin> fa_sigs ?a" using fast_sigs [of q own es] that by blast
    ultimately show ?thesis using IH OwnVote fin by (cases "own \<in> fa_sigs ?a") (auto simp: fast_run_def insert_absorb)
  qed (use IH in \<open>simp_all add: fast_run_def\<close>)
qed (use assms in \<open>simp add: fast_run_def fast_start_def\<close>)

lemma own_stays: "own \<in> fa_sigs a \<Longrightarrow> own \<in> fa_sigs (fast_run q own xs a)"
proof (induction xs arbitrary: a)
  case (Cons x xs)
  have "own \<in> fa_sigs (fast_step q own x a)" using Cons.prems by (cases x) auto
  from Cons.IH [OF this] show ?case by (simp add: fast_run_def)
qed (simp add: fast_run_def)

text \<open>A node that holds its own signature and received those of the others of a quorum has a certificate.\<close>

lemma enough_votes:
  assumes "\<And>j. j \<in> H \<Longrightarrow> j \<noteq> i \<Longrightarrow> GotVote (g j) \<in> set es" and "g i \<in> fa_sigs (fast_run q own es fast_start)"
    and "inj_on g H" and "q \<le> card H" and "0 < q" and "\<not> own_completes q es"
  shows "fa_cert (fast_run q own es fast_start)"
proof -
  let ?a = "fast_run q own es fast_start"
  have "g ` H \<subseteq> fa_sigs ?a" using assms(1,2) fast_sigs [of q own es] by (fastforce simp: received_def)
  moreover have "finite (fa_sigs ?a)" using fast_sigs received_finite by (meson finite_insert finite_subset)
  ultimately have "card (g ` H) \<le> card (fa_sigs ?a)" by (intro card_mono)
  then have "\<not> card (fa_sigs ?a) < q" using assms(3,4) by (simp add: card_image)
  with fast_cert [OF assms(6,5), of own] show ?thesis by blast
qed

text \<open>
  With each vote received once the machine is exact: it gets its certificate if and only if the votes and its own make a
  quorum and its own was not the one that completed it.
\<close>

definition votes :: "fast_event list \<Rightarrow> signature list" where
  "votes es = concat (map (\<lambda>e. case e of GotVote g \<Rightarrow> [g] | _ \<Rightarrow> []) es)"

lemma votes_simps [simp]:
  "votes [] = []" "votes (es @ es') = votes es @ votes es'" "votes [GotVote g] = [g]"
  "votes [Known] = []" "votes [OwnVote] = []" "votes [Idle] = []" "votes (OwnVote # es) = votes es"
  by (simp_all add: votes_def)

lemma votes_only:
  assumes "OwnVote \<notin> set es" and "distinct (votes es)" and "set (votes es) \<inter> fa_sigs a = {}" and "finite (fa_sigs a)"
  shows "fa_known (fast_run q own es a) = (fa_known a \<or> Known \<in> set es)"
    and "fa_sigs (fast_run q own es a) = fa_sigs a \<union> set (votes es)"
    and "fa_cert (fast_run q own es a) \<longleftrightarrow>
      fa_cert a \<or> card (fa_sigs a) < q \<and> q \<le> card (fa_sigs a) + length (votes es)"
  using assms(1-3)
proof (induction es rule: rev_induct)
  case (snoc e es)
  {
    case 1
    with snoc show ?case by (cases e) (auto simp: fast_run_def)
  next
    case 2
    with snoc show ?case by (cases e) (auto simp: fast_run_def)
  next
    case 3
    have es: "OwnVote \<notin> set es" "distinct (votes es)" "set (votes es) \<inter> fa_sigs a = {}" using 3 by auto
    note IH = snoc.IH(2,3) [OF es]
    show ?case
    proof (cases e)
      case (GotVote g)
      with 3 have new: "g \<notin> fa_sigs a \<union> set (votes es)" by auto
      have "card (fa_sigs a \<union> set (votes es)) = card (fa_sigs a) + length (votes es)"
        using es assms(4) by (simp add: card_Un_disjoint Int_commute distinct_card)
      with new assms(4) have "card (insert g (fa_sigs a \<union> set (votes es))) = Suc (card (fa_sigs a) + length (votes es))"
        by simp
      with IH GotVote show ?thesis by (auto simp: fast_run_def)
    qed (use 3 IH in \<open>auto simp: fast_run_def\<close>)
  }
qed (auto simp: fast_run_def)

lemma fast_cert_iff:
  assumes "OwnVote \<notin> set xs" and "OwnVote \<notin> set ys" and "Known \<in> set xs" and "distinct (own # votes xs @ votes ys)"
    and "0 < q"
  shows "fa_cert (fast_run q own (xs @ OwnVote # ys) fast_start) \<longleftrightarrow>
    q \<le> Suc (length (votes xs) + length (votes ys)) \<and> Suc (length (votes xs)) \<noteq> q"
proof -
  let ?a = "fast_run q own xs fast_start"
  have a: "fa_known ?a" "fa_sigs ?a = set (votes xs)" "fa_cert ?a \<longleftrightarrow> q \<le> length (votes xs)"
    using votes_only [of xs fast_start q own] assms by (auto simp: fast_start_def)
  let ?b = "fast_step q own OwnVote ?a"
  have b: "fa_sigs ?b = insert own (set (votes xs))" "fa_cert ?b \<longleftrightarrow> q \<le> length (votes xs)" using a by simp_all
  have "card (fa_sigs ?b) = Suc (length (votes xs))" using assms(4) b(1) by (simp add: distinct_card)
  moreover have "set (votes ys) \<inter> fa_sigs ?b = {}" "finite (fa_sigs ?b)" using assms(4) b(1) by auto
  ultimately have "fa_cert (fast_run q own ys ?b) \<longleftrightarrow>
      q \<le> length (votes xs) \<or> Suc (length (votes xs)) < q \<and> q \<le> Suc (length (votes xs)) + length (votes ys)"
    using votes_only(3) [OF assms(2)] assms(4) b(2) by auto
  moreover have "fast_run q own (xs @ OwnVote # ys) fast_start = fast_run q own ys ?b" by (simp add: fast_run_def)
  ultimately show ?thesis by auto
qed

lemma fast_sigs_own:
  assumes "OwnVote \<notin> set xs" and "OwnVote \<notin> set ys" and "Known \<in> set xs" and "distinct (own # votes xs @ votes ys)"
  shows "fa_sigs (fast_run q own (xs @ OwnVote # ys) fast_start) = set (own # votes xs @ votes ys)"
proof -
  let ?a = "fast_run q own xs fast_start"
  have a: "fa_known ?a" "fa_sigs ?a = set (votes xs)"
    using votes_only [of xs fast_start q own] assms by (auto simp: fast_start_def)
  let ?b = "fast_step q own OwnVote ?a"
  have b: "fa_sigs ?b = insert own (set (votes xs))" using a by simp
  then have "set (votes ys) \<inter> fa_sigs ?b = {}" "finite (fa_sigs ?b)" using assms(4) by auto
  then have "fa_sigs (fast_run q own ys ?b) = fa_sigs ?b \<union> set (votes ys)"
    using votes_only(2) [OF assms(2)] assms(4) by auto
  moreover have "fast_run q own (xs @ OwnVote # ys) fast_start = fast_run q own ys ?b" by (simp add: fast_run_def)
  ultimately show ?thesis using b by auto
qed

section \<open>The module refines it\<close>

text \<open>The events of the fast path for the value \<open>v\<close> in a round that started at \<open>t0\<close>; votes come within three ticks.\<close>

fun on_path :: "config \<Rightarrow> string \<Rightarrow> time \<Rightarrow> dbb_event \<Rightarrow> bool" where
  "on_path c v t0 (DMsg clk m) =
     (case MsgType m of
        MsgPropose \<Rightarrow> map_option Content (decode_request (msg_Content m)) = Some v
      | MsgForward1 \<Rightarrow> map_option Content (decode_request (msg_Content m)) = Some v
      | MsgVote \<Rightarrow> (case decode_vote (msg_Content m) of
          None \<Rightarrow> False
        | Some vc \<Rightarrow> vc_Content vc = v \<and> vc_Sig vc \<noteq> None \<and> fst (clk 0) - t0 < ticks c 3)
      | MsgQC \<Rightarrow> True
      | _ \<Rightarrow> False)"
| "on_path c v t0 (DFire t) = (t = VoteTimer)"
| "on_path c v t0 DTake = True"

fun abs_event :: "dbb_event \<Rightarrow> fast_event" where
  "abs_event (DMsg clk m) =
     (case MsgType m of
        MsgPropose \<Rightarrow> Known
      | MsgForward1 \<Rightarrow> Known
      | MsgVote \<Rightarrow> (case decode_vote (msg_Content m) of None \<Rightarrow> Idle | Some vc \<Rightarrow> GotVote (the (vc_Sig vc)))
      | _ \<Rightarrow> Idle)"
| "abs_event (DFire t) = OwnVote"
| "abs_event DTake = Idle"

definition fast_rel :: "string \<Rightarrow> time \<Rightarrow> bytes option \<Rightarrow> int \<Rightarrow> dbb \<Rightarrow> fast \<Rightarrow> bool" where
  "fast_rel v t0 sk nid s a \<longleftrightarrow>
     set_invar (proposeSet s) \<and> elems (proposeSet s) = (if fa_known a then {v} else {}) \<and>
     set_invar (sigs_of (voteMap s) v) \<and> elems (sigs_of (voteMap s) v) = fa_sigs a \<and>
     set_invar (BlckSet s) \<and> elems (BlckSet s) = (if fa_cert a then {v} else {}) \<and>
     map fst (QCMap s) = (if fa_cert a then [v] else []) \<and>
     isCommit s = fa_cert a \<and> (fa_cert a \<longrightarrow> dbb_CommitValue s = v) \<and> (\<not> fa_cert a \<longrightarrow> trigger s = 0) \<and>
     av_Get (dbb_startTime s) = t0 \<and> dbb_SecKey s = sk \<and> dbb_Nid s = nid"

lemma one_item: "set_invar S \<Longrightarrow> elems S = {v} \<Longrightarrow> Size S = 1"
  by (simp add: gs.size_card)

lemma no_item: "elems S = {} \<Longrightarrow> Size S = 0"
  by (simp add: elems_def Size_def)

lemma refs_aggregate:
  assumes "map_order ord" and "set_invar S" and "0 < Size S"
  shows "\<exists>g. AggregateSignatures B (map Some (GetItemRefs ord S)) = Some g"
proof -
  have "set (ord (set_data S)) = set (set_data S)" using assms by (auto simp: map_order_def set_invar_def)
  with assms(3) have "ord (set_data S) \<noteq> []" by (auto simp: Size_def)
  then show ?thesis by (auto simp: AggregateSignatures_def GetItemRefs_def)
qed

definition counted :: "string \<Rightarrow> signature \<Rightarrow> dbb \<Rightarrow> dbb" where
  "counted v g s = s\<lparr>voteMap := (voteMap s)(v \<mapsto> Add g (sigs_of (voteMap s) v))\<rparr>"

lemma vote_counts:
  assumes "decode_vote (msg_Content m) = Some vc" and "vc_Sig vc = Some g"
  shows "dbb_HandleVoteMsg c B ord now m s = make_QC c B ord now (vc_Content vc) (counted (vc_Content vc) g s)"
  using assms by (simp add: dbb_HandleVoteMsg_def checkSig_def counted_def Let_def sigs_of_upd)

lemma fast_vote:
  assumes "fast_rel v t0 sk nid s a" and "int q = NodeNum c - maliciousNodes c" and "0 < q" and "map_order ord"
    and "now - t0 < ticks c 3"
  shows "case make_QC c B ord now v (counted v g s) of (s', es, f) \<Rightarrow>
    fast_rel v t0 sk nid s' (fast_step q own (GotVote g) a) \<and> f = Done \<and>
    (fa_cert (fast_step q own (GotVote g) a) \<longrightarrow> fa_cert a \<or> (\<exists>agg. Broadcast 0 (qc_msg \<lparr>qc_Content = v, qc_Sig = Some agg\<rparr>) \<in> set es)) \<and>
    (\<forall>x \<in> set es. vote_value x = None)"
proof -
  note r = assms(1) [unfolded fast_rel_def]
  let ?s = "counted v g s" and ?S = "Add g (sigs_of (voteMap s) v)"
  have S: "sigs_of (voteMap ?s) v = ?S" by (simp add: counted_def sigs_of_upd)
  have inv: "set_invar ?S" "elems ?S = insert g (fa_sigs a)" using r by (simp_all add: gs.abs_add gs.invar_add)
  then have size: "Size ?S = card (insert g (fa_sigs a))" by (simp add: gs.size_card)
  have same: "proposeSet ?s = proposeSet s" "BlckSet ?s = BlckSet s" "QCMap ?s = QCMap s" "isCommit ?s = isCommit s"
    "dbb_CommitValue ?s = dbb_CommitValue s" "trigger ?s = trigger s" "dbb_startTime ?s = dbb_startTime s"
    "dbb_SecKey ?s = dbb_SecKey s" "dbb_Nid ?s = dbb_Nid s"
    by (simp_all add: counted_def)
  show ?thesis
  proof (cases "card (insert g (fa_sigs a)) = q \<and> \<not> fa_cert a")
    case False
    then have "make_QC c B ord now v ?s = (?s, [], Done)"
      using r assms(2) by (auto simp: make_QC_def S size same map_of_eq_None_iff split: if_splits)
    with False r show ?thesis by (auto simp: fast_rel_def same S inv)
  next
    case True
    then obtain agg where agg: "AggregateSignatures B (map Some (GetItemRefs ord ?S)) = Some agg"
      using refs_aggregate [OF assms(4) inv(1)] size assms(3) by auto
    have B1: "elems (Add v (BlckSet s)) = {v}" "set_invar (Add v (BlckSet s))"
      using r True by (simp_all add: gs.abs_add gs.invar_add)
    note B2 = one_item [OF B1(2,1)]
    have Q: "QCMap s = []" "trigger s = 0" using r True by auto
    let ?s2 = "?s\<lparr>QCMap := [(v, agg)], BlckSet := Add v (BlckSet s), dbb_CommitValue := v, isCommit := True, trigger := 1\<rparr>"
    have "make_QC c B ord now v ?s = (?s2, [Broadcast 0 (qc_msg \<lparr>qc_Content = v, qc_Sig = Some agg\<rparr>)], Done)"
      using True r assms(2,5) by (simp add: make_QC_def S size agg same Q B2 Let_def)
    moreover have "fast_rel v t0 sk nid ?s2 (fast_step q own (GotVote g) a)"
      using True r by (simp add: fast_rel_def same S inv B1 B2 counted_def sigs_of_upd)
    ultimately show ?thesis by (simp add: vote_value_def qc_msg_def)
  qed
qed

definition cast_vote :: "int \<Rightarrow> string \<Rightarrow> signature \<Rightarrow> effect" where
  "cast_vote nid v own = Broadcast 0 (vote_msg \<lparr>vc_NodeId = nid, vc_Content = v, vc_Sig = Some own\<rparr>)"

text \<open>
  One event of the fast path is one step of the machine, ends its goroutine, sends the certificate when the machine
  gets it, and sends a vote only when the machine holds the own signature.
\<close>

lemma fast_simulation:
  assumes "fast_rel v t0 sk nid s a" and "on_path c v t0 e" and "map_order ord" and "Sign B sha sk v = Some own"
    and "int q = NodeNum c - maliciousNodes c" and "0 < q"
  shows "case dbb_step c B sha ord e s of (s', es, f) \<Rightarrow>
    fast_rel v t0 sk nid s' (fast_step q own (abs_event e) a) \<and> f = Done \<and>
    (fa_cert (fast_step q own (abs_event e) a) \<longrightarrow> fa_cert a \<or> (\<exists>agg. Broadcast 0 (qc_msg \<lparr>qc_Content = v, qc_Sig = Some agg\<rparr>) \<in> set es)) \<and>
    (\<forall>x \<in> set es. vote_value x \<noteq> None \<longrightarrow> x = cast_vote nid v own \<and> own \<in> fa_sigs (fast_step q own (abs_event e) a))"
proof (cases e)
  case (DMsg clk m)
  note r = assms(1) [unfolded fast_rel_def]
  from assms(2) DMsg consider "MsgType m = MsgPropose" | "MsgType m = MsgForward1" | "MsgType m = MsgVote" | "MsgType m = MsgQC"
    by (cases "MsgType m") auto
  then show ?thesis
  proof cases
    case 1
    with assms(2) DMsg obtain req where "decode_request (msg_Content m) = Some req" "Content req = v" by auto
    with 1 DMsg r show ?thesis
      by (simp add: dbb_dispatch_def dbb_HandleProposeMsg_def checkSig_def fast_rel_def gs.abs_add gs.invar_add vote_value_def Let_def)
  next
    case 2
    with assms(2) DMsg obtain req where "decode_request (msg_Content m) = Some req" "Content req = v" by auto
    with 2 DMsg r show ?thesis
      by (auto simp: dbb_dispatch_def dbb_HandleForward1Msg_def checkSig_def fast_rel_def gs.abs_add gs.invar_add gs.contains_iff)
  next
    case 3
    with assms(2) DMsg obtain vc g where vc: "decode_vote (msg_Content m) = Some vc" "vc_Content vc = v" "vc_Sig vc = Some g"
      "fst (clk 0) - t0 < ticks c 3"
      by (auto split: option.splits)
    from fast_vote [OF assms(1,5,6,3) vc(4), where B = B and g = g and own = own] 3 DMsg vc(1-3) show ?thesis
      by (auto simp: dbb_dispatch_def vote_counts [OF vc(1,3)])
  next
    case 4
    with assms(1) DMsg show ?thesis by (simp add: dbb_dispatch_def dbb_HandleQCMsg_def)
  qed
next
  case (DFire t)
  note r = assms(1) [unfolded fast_rel_def]
  from assms(2) DFire have t: "t = VoteTimer" by simp
  show ?thesis
  proof (cases "fa_known a")
    case True
    with r have P: "set_invar (proposeSet s)" "elems (proposeSet s) = {v}" by simp_all
    from one_item [OF this] GetItems_singleton [OF assms(3) this] True r assms(4) show ?thesis
      by (simp add: DFire t dbb_fire_def try_vote_def fast_rel_def sigs_of_upd gs.abs_add gs.invar_add cast_vote_def)
  next
    case False
    with r have "elems (proposeSet s) = {}" by simp
    from no_item [OF this] False assms(1) show ?thesis by (simp add: DFire t dbb_fire_def try_vote_def)
  qed
next
  case DTake
  with assms(1) show ?thesis by (simp add: fast_rel_def)
qed

fun dbb_trace ::
  "config \<Rightarrow> bls \<Rightarrow> (bytes \<Rightarrow> bytes) \<Rightarrow> ((string list \<Rightarrow> string list) \<times> dbb_event) list \<Rightarrow> dbb \<Rightarrow> dbb \<times> fin list" where
  "dbb_trace c B sha [] s = (s, [])"
| "dbb_trace c B sha ((ord, e) # evs) s =
     (case dbb_step c B sha ord e s of (s', _, f) \<Rightarrow> (case dbb_trace c B sha evs s' of (s'', fs) \<Rightarrow> (s'', f # fs)))"

lemma fast_simulation_run:
  assumes "fast_rel v t0 sk nid s a" and "\<forall>p \<in> set evs. map_order (fst p) \<and> on_path c v t0 (snd p)"
    and "Sign B sha sk v = Some own" and "int q = NodeNum c - maliciousNodes c" and "0 < q"
  shows "fast_rel v t0 sk nid (fst (dbb_trace c B sha evs s)) (fast_run q own (map (abs_event \<circ> snd) evs) a) \<and>
    (\<forall>f \<in> set (snd (dbb_trace c B sha evs s)). f = Done) \<and>
    (fa_cert (fast_run q own (map (abs_event \<circ> snd) evs) a) \<longrightarrow> fa_cert a \<or>
       (\<exists>agg. Broadcast 0 (qc_msg \<lparr>qc_Content = v, qc_Sig = Some agg\<rparr>) \<in> set (dbb_effects c B sha evs s))) \<and>
    (\<forall>x \<in> set (dbb_effects c B sha evs s). vote_value x \<noteq> None \<longrightarrow> x = cast_vote nid v own \<and>
       own \<in> fa_sigs (fast_run q own (map (abs_event \<circ> snd) evs) a))"
  using assms(1,2)
proof (induction evs arbitrary: s a)
  case Nil
  then show ?case by (simp add: fast_run_def)
next
  case (Cons p evs)
  obtain ord e where p: "p = (ord, e)" by (cases p)
  obtain s1 es f where st: "dbb_step c B sha ord e s = (s1, es, f)" by (metis prod_cases3)
  let ?a = "fast_step q own (abs_event e) a"
  from Cons.prems(2) p have o: "map_order ord" "on_path c v t0 e" by simp_all
  from fast_simulation [OF Cons.prems(1) o(2,1) assms(3-5)] st
  have 1: "fast_rel v t0 sk nid s1 ?a" "f = Done"
    "fa_cert ?a \<longrightarrow> fa_cert a \<or> (\<exists>agg. Broadcast 0 (qc_msg \<lparr>qc_Content = v, qc_Sig = Some agg\<rparr>) \<in> set es)"
    "\<forall>x \<in> set es. vote_value x \<noteq> None \<longrightarrow> x = cast_vote nid v own \<and> own \<in> fa_sigs ?a"
    by simp_all
  note mono = own_stays
  have "\<forall>p \<in> set evs. map_order (fst p) \<and> on_path c v t0 (snd p)" using Cons.prems(2) by simp
  note IH = Cons.IH [OF 1(1) this]
  have run: "fast_run q own (map (abs_event \<circ> snd) (p # evs)) a = fast_run q own (map (abs_event \<circ> snd) evs) ?a"
    by (simp add: fast_run_def p)
  obtain s2 fs where t: "dbb_trace c B sha evs s1 = (s2, fs)" by fastforce
  have tr: "dbb_trace c B sha (p # evs) s = (s2, f # fs)" "dbb_effects c B sha (p # evs) s = es @ dbb_effects c B sha evs s1"
    by (simp_all add: p st t)
  show ?case unfolding run tr fst_conv snd_conv
  proof (intro conjI impI)
    show "fast_rel v t0 sk nid s2 (fast_run q own (map (abs_event \<circ> snd) evs) ?a)" using IH t by (simp add: o_def)
    show "\<forall>f \<in> set (f # fs). f = Done" using IH t 1(2) by simp
    assume "fa_cert (fast_run q own (map (abs_event \<circ> snd) evs) ?a)"
    then have "fa_cert ?a \<or> (\<exists>agg. Broadcast 0 (qc_msg \<lparr>qc_Content = v, qc_Sig = Some agg\<rparr>) \<in> set (dbb_effects c B sha evs s1))"
      using IH by blast
    with 1(3) show "fa_cert a \<or> (\<exists>agg. Broadcast 0 (qc_msg \<lparr>qc_Content = v, qc_Sig = Some agg\<rparr>) \<in> set (es @ dbb_effects c B sha evs s1))"
      unfolding set_append by blast
  next
    show "\<forall>x \<in> set (es @ dbb_effects c B sha evs s1). vote_value x \<noteq> None \<longrightarrow> x = cast_vote nid v own \<and>
        own \<in> fa_sigs (fast_run q own (map (abs_event \<circ> snd) evs) ?a)"
      using 1(4) IH mono unfolding set_append by blast
  qed
qed

section \<open>The shard\<close>

lemma fast_rel_init:
  assumes "s = fst (dbb_HandleInitMsg c now \<lparr>MsgType = MsgInit, msg_Content = PTime t0\<rparr> s0)"
    and "onUpdate (dbb_startTime s0) = None"
  shows "fast_rel v t0 (dbb_SecKey s0) (dbb_Nid s0) s fast_start"
  using assms by (simp add: dbb_HandleInitMsg_def fast_rel_def fast_start_def sigs_of_def av_Set_def av_Get_def Let_def)

text \<open>The votes that the nodes of \<open>H\<close> broadcast reach the others of \<open>H\<close>.\<close>

definition votes_delivered ::
  "int set \<Rightarrow> (int \<Rightarrow> effect list) \<Rightarrow> (int \<Rightarrow> ((string list \<Rightarrow> string list) \<times> dbb_event) list) \<Rightarrow> bool" where
  "votes_delivered H sent E \<longleftrightarrow>
     (\<forall>i \<in> H. \<forall>j \<in> H - {i}. \<forall>m. Broadcast 0 m \<in> set (sent j) \<and> MsgType m = MsgVote \<longrightarrow>
        (\<exists>ord clk. (ord, DMsg clk m) \<in> set (E i)))"

text \<open>
  The fast path: after an \<open>Init\<close>, if at least \<open>n - f\<close> nodes see only the honest view node's value, each casts its
  vote, the votes reach each other within three ticks in any order, and no node's own vote is
  the one that completes its quorum, then every one of them commits the value with a certificate, broadcasts
  the certificate and none of its goroutines crashes or blocks.
\<close>

theorem dbb_fast_path:
  assumes "NodeNum c - maliciousNodes c \<le> int (card H)" and "maliciousNodes c < NodeNum c"
    and "\<forall>i \<in> H. s i = fst (dbb_HandleInitMsg c (now i) \<lparr>MsgType = MsgInit, msg_Content = PTime t0\<rparr> (s0 i)) \<and>
      onUpdate (dbb_startTime (s0 i)) = None \<and> Sign B sha (dbb_SecKey (s0 i)) v = Some (g i)" and "inj_on g H"
    and "\<forall>i \<in> H. \<forall>p \<in> set (E i). map_order (fst p) \<and> on_path c v t0 (snd p)"
    and "\<forall>i \<in> H. \<exists>x \<in> set (dbb_effects c B sha (E i) (s i)). vote_value x \<noteq> None"
    and "votes_delivered H (\<lambda>i. dbb_effects c B sha (E i) (s i)) E"
    and "\<forall>i \<in> H. \<not> own_completes (nat (NodeNum c - maliciousNodes c)) (map (abs_event \<circ> snd) (E i))"
    and "i \<in> H" and "dbb_trace c B sha (E i) (s i) = (s', fs)"
  shows "isCommit s' \<and> dbb_CommitValue s' = v \<and> map fst (QCMap s') = [v] \<and> (\<forall>f \<in> set fs. f = Done) \<and>
    (\<exists>agg. Broadcast 0 (qc_msg \<lparr>qc_Content = v, qc_Sig = Some agg\<rparr>) \<in> set (dbb_effects c B sha (E i) (s i)))"
proof -
  let ?q = "nat (NodeNum c - maliciousNodes c)" and ?es = "map (abs_event \<circ> snd) (E i)"
  let ?a = "\<lambda>j. fast_run ?q (g j) (map (abs_event \<circ> snd) (E j)) fast_start"
  have q: "int ?q = NodeNum c - maliciousNodes c" "0 < ?q" using assms(2) by simp_all
  have sim: "fast_rel v t0 (dbb_SecKey (s0 j)) (dbb_Nid (s0 j)) (fst (dbb_trace c B sha (E j) (s j))) (?a j) \<and>
      (\<forall>f \<in> set (snd (dbb_trace c B sha (E j) (s j))). f = Done) \<and>
      (fa_cert (?a j) \<longrightarrow> fa_cert fast_start \<or>
         (\<exists>agg. Broadcast 0 (qc_msg \<lparr>qc_Content = v, qc_Sig = Some agg\<rparr>) \<in> set (dbb_effects c B sha (E j) (s j)))) \<and>
      (\<forall>x \<in> set (dbb_effects c B sha (E j) (s j)). vote_value x \<noteq> None \<longrightarrow>
         x = cast_vote (dbb_Nid (s0 j)) v (g j) \<and> g j \<in> fa_sigs (?a j))" if "j \<in> H" for j
    using that assms(3,5) by (intro fast_simulation_run fast_rel_init q) auto
  have "GotVote (g j) \<in> set ?es" if jH: "j \<in> H" "j \<noteq> i" for j
  proof -
    let ?m = "vote_msg \<lparr>vc_NodeId = dbb_Nid (s0 j), vc_Content = v, vc_Sig = Some (g j)\<rparr>"
    from assms(6) sim jH(1) have "Broadcast 0 ?m \<in> set (dbb_effects c B sha (E j) (s j))"
      unfolding cast_vote_def by fastforce
    moreover have "MsgType ?m = MsgVote" by (simp add: vote_msg_def)
    ultimately obtain ord clk where "(ord, DMsg clk ?m) \<in> set (E i)"
      using assms(7,9) jH unfolding votes_delivered_def by blast
    then show ?thesis by (force simp: vote_msg_def)
  qed
  moreover have "g i \<in> fa_sigs (?a i)" using assms(6,9) sim by blast
  ultimately have "fa_cert (?a i)"
    using assms(1,4,8,9) q by (intro enough_votes [where H = H and i = i and g = g]) auto
  with sim [OF assms(9)] assms(10) show ?thesis by (simp add: fast_rel_def fast_start_def)
qed

lemma own_completes_once:
  assumes "OwnVote \<notin> set xs" and "OwnVote \<notin> set ys"
  shows "own_completes q (xs @ OwnVote # ys) \<longleftrightarrow> Suc (card (received xs)) = q"
  using append_Cons_eq_iff [OF assms] unfolding own_completes_def by metis

text \<open>
  Four nodes, one fault: nodes 0, 1 and 2 get the proposal, vote after a tick and receive the other two votes.
\<close>

definition fast_node :: "int \<Rightarrow> dbb" where
  "fast_node i = New_1Delta_BBConsensusMod i (''n'' @ Itoa i) (Some (''k'' @ Itoa i)) 0"

definition fast_sig :: "int \<Rightarrow> signature" where
  "fast_sig i = the (Sign pair_bls (\<lambda>m. m) (Some (''k'' @ Itoa i)) ''A'')"

definition fast_began :: "int \<Rightarrow> dbb" where
  "fast_began i = fst (dbb_HandleInitMsg dbb_cfg 0 \<lparr>MsgType = MsgInit, msg_Content = PTime 0\<rparr> (fast_node i))"

definition fast_events :: "int \<Rightarrow> ((string list \<Rightarrow> string list) \<times> dbb_event) list" where
  "fast_events i =
     [(rev, hd (tl start_events)), ((\<lambda>xs. xs), DFire VoteTimer)] @
     map (\<lambda>j. (rev, vote_from j ''A'' (fast_sig j))) (filter (\<lambda>j. j \<noteq> i) [2, 0, 1])"


definition fast_sent :: "int \<Rightarrow> effect list" where
  "fast_sent i = dbb_effects dbb_cfg pair_bls (\<lambda>m. m) (fast_events i) (fast_began i)"

lemma fast_facts:
  "map (\<lambda>i. \<exists>x \<in> set (fast_sent i). vote_value x \<noteq> None) [0, 1, 2] = [True, True, True]"
  "map fast_sig [0, 1, 2] = [''k0A'', ''k1A'', ''k2A'']"
  "map (\<lambda>i. map (abs_event \<circ> snd) (fast_events i)) [0, 1, 2] =
     [[Known, OwnVote, GotVote ''k2A'', GotVote ''k1A''], [Known, OwnVote, GotVote ''k2A'', GotVote ''k0A''],
      [Known, OwnVote, GotVote ''k0A'', GotVote ''k1A'']]"
  "map (\<lambda>i. list_all (\<lambda>p. on_path dbb_cfg ''A'' 0 (snd p)) (fast_events i)) [0, 1, 2] = [True, True, True]"
  by code_simp+

lemma fast_votes:
  "list_all (\<lambda>j. list_all (\<lambda>x. case x of
     Broadcast n m \<Rightarrow> MsgType m = MsgVote \<longrightarrow> x = cast_vote j ''A'' (fast_sig j) | _ \<Rightarrow> True) (fast_sent j)) [0, 1, 2]"
  by code_simp

lemma fast_delivered: "votes_delivered {0, 1, 2} fast_sent fast_events"
proof -
  have "\<exists>ord clk. (ord, DMsg clk m) \<in> set (fast_events i)"
    if "i \<in> {0, 1, 2}" "j \<in> {0, 1, 2}" "j \<noteq> i" "Broadcast 0 m \<in> set (fast_sent j)" "MsgType m = MsgVote" for i j m
  proof -
    have "list_all (\<lambda>x. case x of Broadcast n m \<Rightarrow> MsgType m = MsgVote \<longrightarrow> x = cast_vote j ''A'' (fast_sig j) | _ \<Rightarrow> True) (fast_sent j)"
      using fast_votes that(2) by auto
    with that(4,5) have "Broadcast 0 m = cast_vote j ''A'' (fast_sig j)" by (fastforce simp: list_all_iff)
    then have "(rev, DMsg (\<lambda>_. (0, 0)) m) = (rev, vote_from j ''A'' (fast_sig j))"
      by (simp add: cast_vote_def vote_from_def at0_def)
    moreover have "(rev, vote_from j ''A'' (fast_sig j)) \<in> set (fast_events i)"
      using that(1-3) by (auto simp: fast_events_def)
    ultimately show ?thesis by metis
  qed
  then show ?thesis unfolding votes_delivered_def by blast
qed

theorem dbb_fast_path_witness:
  "\<exists>s' fs. dbb_trace dbb_cfg pair_bls (\<lambda>m. m) (fast_events 1) (fast_began 1) = (s', fs) \<and>
     isCommit s' \<and> dbb_CommitValue s' = ''A'' \<and> map fst (QCMap s') = [''A'']"
proof -
  obtain s' fs where t: "dbb_trace dbb_cfg pair_bls (\<lambda>m. m) (fast_events 1) (fast_began 1) = (s', fs)" by fastforce
  have q: "nat (NodeNum dbb_cfg - maliciousNodes dbb_cfg) = 3" by (simp add: dbb_cfg_numbers)
  have once: "\<not> own_completes 3 (map (abs_event \<circ> snd) (fast_events i))" if "i \<in> {0, 1, 2}" for i
    using fast_facts(3) that own_completes_once [of "[Known]" _ 3] by auto
  have "isCommit s' \<and> dbb_CommitValue s' = ''A'' \<and> map fst (QCMap s') = [''A''] \<and> (\<forall>f \<in> set fs. f = Done) \<and>
      (\<exists>agg. Broadcast 0 (qc_msg \<lparr>qc_Content = ''A'', qc_Sig = Some agg\<rparr>) \<in> set (dbb_effects dbb_cfg pair_bls (\<lambda>m. m) (fast_events 1) (fast_began 1)))"
  proof (rule dbb_fast_path [where H = "{0, 1, 2}" and s = fast_began and ?s0.0 = fast_node and g = fast_sig and E = fast_events
        and now = "\<lambda>_. 0" and ?t0.0 = 0])
    show "\<forall>i \<in> {0, 1, 2}. fast_began i = fst (dbb_HandleInitMsg dbb_cfg 0 \<lparr>MsgType = MsgInit, msg_Content = PTime 0\<rparr> (fast_node i)) \<and>
        onUpdate (dbb_startTime (fast_node i)) = None \<and>
        Sign pair_bls (\<lambda>m. m) (dbb_SecKey (fast_node i)) ''A'' = Some (fast_sig i)"
      by (simp add: fast_began_def fast_node_def New_1Delta_BBConsensusMod_def NewAtomicValue_def fast_sig_def Sign_def)
    show "\<forall>i \<in> {0, 1, 2}. \<forall>p \<in> set (fast_events i). map_order (fst p) \<and> on_path dbb_cfg ''A'' 0 (snd p)"
      using fast_facts(4) by (auto simp: list_all_iff fast_events_def)
    show "\<forall>i \<in> {0, 1, 2}. \<exists>x \<in> set (dbb_effects dbb_cfg pair_bls (\<lambda>m. m) (fast_events i) (fast_began i)). vote_value x \<noteq> None"
      using fast_facts(1) by (simp add: fast_sent_def)
    show "votes_delivered {0, 1, 2} (\<lambda>i. dbb_effects dbb_cfg pair_bls (\<lambda>m. m) (fast_events i) (fast_began i)) fast_events"
      using fast_delivered by (simp add: fast_sent_def [abs_def])
  qed (use fast_facts(2) q once t in \<open>simp_all add: dbb_cfg_numbers\<close>)
  with t show ?thesis by (intro exI [of _ s'] exI [of _ fs]) simp
qed


text \<open>Four nodes, one fault: node 1 votes after it received the votes of nodes 0 and 2, and misses the certificate.\<close>

definition late_events :: "((string list \<Rightarrow> string list) \<times> dbb_event) list" where
  "late_events =
     [(rev, hd (tl start_events)), (rev, vote_from 0 ''A'' (fast_sig 0)), (rev, vote_from 2 ''A'' (fast_sig 2)),
      ((\<lambda>xs. xs), DFire VoteTimer)]"

lemma late_facts:
  "map (abs_event \<circ> snd) late_events = [Known, GotVote ''k0A'', GotVote ''k2A''] @ OwnVote # []"
  "list_all (\<lambda>p. on_path dbb_cfg ''A'' 0 (snd p)) late_events" "fast_sig 1 = ''k1A''"
  by code_simp+


end
