(* ===== verification/TBB_Shard.thy ===== *)
theory TBB_Shard
  imports Clients DBB_Shard
begin

text \<open>
  The fast path of TBB in a shard: the nodes of theory TBB with everything that goes on in them, their Dolev-Strong module,
  the BADS* part, reference and commit points and the goroutines on the commit-point-1 channel, linked by their
  votes as in theory DBB_Shard.
\<close>

section \<open>A node on the fast path\<close>

text \<open>
  What the node may meet: no second \<open>Init\<close>, only the value \<open>v\<close> from the proposer, votes for \<open>v\<close> within three ticks;
  every other message, timer and goroutine is arbitrary.
\<close>

fun tbb_on_path :: "config \<Rightarrow> string \<Rightarrow> time \<Rightarrow> tbb_event \<Rightarrow> bool" where
  "tbb_on_path c v t0 (TMsg now clk m) =
     (if MsgType m \<in> {MsgPropose, MsgForward1, MsgVote} then on_path c v t0 (DMsg (\<lambda>_. (now, 0)) m) else MsgType m \<noteq> MsgInit)"
| "tbb_on_path c v t0 _ = True"

fun tbb_abs_event :: "tbb_event \<Rightarrow> fast_event" where
  "tbb_abs_event (TMsg now clk m) = abs_event (DMsg (\<lambda>_. (now, 0)) m)"
| "tbb_abs_event (TFireDBB t) = (if t = VoteTimer then OwnVote else Idle)"
| "tbb_abs_event _ = Idle"

text \<open>
  The 1-Delta-BB* module is related to the abstract machine, no token of an earlier round is left, and once there is a certificate its
  token is in the channel or the node has committed \<open>v\<close> at commit point 1; goroutine \<open>k\<close> listens until then.
\<close>

definition tbb_fast_rel :: "string \<Rightarrow> time \<Rightarrow> bytes option \<Rightarrow> int \<Rightarrow> nat \<Rightarrow> tbb \<Rightarrow> fast \<Rightarrow> bool" where
  "tbb_fast_rel v t0 sk nid k s a \<longleftrightarrow>
     fast_rel v t0 sk nid (DBBMod s) a \<and> (\<forall>ch. staleTokens s ch = 0) \<and> length (localSetD s) = 3 \<and>
     (tbb_isCommit s \<longrightarrow> fa_cert a \<and> localSetD s ! 0 = v) \<and>
     (fa_cert a \<and> \<not> tbb_isCommit s \<longrightarrow> 1 \<le> trigger (DBBMod s)) \<and>
     k < length (listeners s) \<and> (\<not> tbb_isCommit s \<longrightarrow> listeners s ! k = Starting \<or> listeners s ! k = Waiting (channel s))"

lemma fast_other:
  assumes "fast_rel v t0 sk nid s a" and "t \<noteq> VoteTimer"
  shows "case dbb_fire c B sha ord t s of (s', es, f) \<Rightarrow>
    fast_rel v t0 sk nid s' a \<and> trigger s' = trigger s \<and> (\<forall>x \<in> set es. vote_value x = None)"
  using assms
  by (cases t) (auto simp: dbb_fire_def ba_start_def final_commit_def fast_rel_def vote_value_def forward2_msg_def Let_def
      split: option.splits)

lemma fast_forward2:
  assumes "fast_rel v t0 sk nid s a"
  shows "case dbb_HandleForward2Msg c B sha ord clk m s of (s', es, f) \<Rightarrow>
    fast_rel v t0 sk nid s' a \<and> trigger s' = trigger s \<and> (\<forall>x \<in> set es. vote_value x = None)"
  using assms
  by (auto simp: dbb_HandleForward2Msg_def ba_propose_def ba_forward_def fast_rel_def vote_value_def forward2_msg_def Let_def
      split: option.splits list.splits)

text \<open>The token of a certificate is put into the channel with it and taken only by a listener.\<close>

lemma on_path_token:
  assumes "on_path c v t0 e" and "e \<noteq> DTake" and "dbb_step c B sha ord e s = (s', es, f)"
  shows "trigger s \<le> trigger s' \<and> (\<not> isCommit s \<and> isCommit s' \<longrightarrow> 1 \<le> trigger s')"
proof (cases e)
  case (DMsg clk m)
  have q1: "trigger s \<le> trigger (fst (make_QC c B ord now w u))" if "trigger u = trigger s" for now w u
    using that by (auto simp: make_QC_def Let_def split: option.splits)
  have q2: "Suc 0 \<le> trigger (fst (make_QC c B ord now w u))"
    if "isCommit (fst (make_QC c B ord now w u))" "\<not> isCommit u" for now w u
    using that by (auto simp: make_QC_def Let_def split: option.splits if_splits)
  from assms(1,3) DMsg show ?thesis
    by (cases "MsgType m")
      (auto simp: dbb_dispatch_def dbb_HandleProposeMsg_def dbb_HandleForward1Msg_def dbb_HandleQCMsg_def
        dbb_HandleVoteMsg_def checkSig_def Let_def q1 q2 dest!: arg_cong [where f = fst] split: option.splits if_splits)
next
  case (DFire t)
  with assms(1,3) show ?thesis by (auto simp: dbb_fire_def try_vote_def Let_def split: option.splits if_splits)
qed (use assms(2) in simp)

lemma vote_value_not_vote: "MsgType m \<noteq> MsgVote \<Longrightarrow> vote_value (Broadcast n m) = None"
  by (simp add: vote_value_def)

lemma ds_no_votes:
  "HandleProposeMsg c B sha clk m d = (d', es, f) \<Longrightarrow> x \<in> set es \<Longrightarrow> vote_value x = None"
  "HandleForwardMsg c B sha clk m d = (d', es, f) \<Longrightarrow> x \<in> set es \<Longrightarrow> vote_value x = None"
  "ds_fire ord t d = (d', es, f) \<Longrightarrow> x \<in> set es \<Longrightarrow> vote_value x = None"
  by (auto simp: HandleProposeMsg_def HandleForwardMsg_def ds_fire_def ds_commit_def vote_value_def DolevStrong.forward_msg_def Let_def
      split: option.splits if_splits ds_timer.splits)

text \<open>A step of the 1-Delta-BB* module inside the node.\<close>

lemma tbb_rel_module:
  assumes "tbb_fast_rel v t0 sk nid k s a" and "fast_rel v t0 sk nid b a'" and "trigger (DBBMod s) \<le> trigger b"
    and "\<not> isCommit (DBBMod s) \<and> isCommit b \<longrightarrow> 1 \<le> trigger b" and "fa_cert a \<longrightarrow> fa_cert a'"
  shows "tbb_fast_rel v t0 sk nid k (s\<lparr>DBBMod := b, DSMod := d\<rparr>) a'"
proof -
  have "isCommit (DBBMod s) = fa_cert a" "isCommit b = fa_cert a'"
    using assms(1,2) by (auto simp: tbb_fast_rel_def fast_rel_def)
  with assms show ?thesis by (auto simp: tbb_fast_rel_def)
qed

lemma cert_stays: "fa_cert a \<longrightarrow> fa_cert (fast_step q own e a)"
  by (cases e) auto

definition own_votes :: "int \<Rightarrow> string \<Rightarrow> signature \<Rightarrow> fast \<Rightarrow> effect list \<Rightarrow> bool" where
  "own_votes nid v own a es \<longleftrightarrow>
     (\<forall>x \<in> set es. vote_value x \<noteq> None \<longrightarrow> x = cast_vote nid v own \<and> own \<in> fa_sigs a)"

lemma own_votes_none: "(\<And>x. x \<in> set es \<Longrightarrow> vote_value x = None) \<Longrightarrow> own_votes nid v own a es"
  by (simp add: own_votes_def)

lemma own_votes_append: "own_votes nid v own a (es @ es') \<longleftrightarrow> own_votes nid v own a es \<and> own_votes nid v own a es'"
  by (auto simp: own_votes_def)

lemma module_simulation:
  assumes rel: "tbb_fast_rel v t0 sk nid k s a" and e: "on_path c v t0 e" "e \<noteq> DTake" and "map_order ord"
    and "Sign B sha sk v = Some own" and "int q = NodeNum c - maliciousNodes c" and "0 < q"
    and st: "dbb_step c B sha ord e (DBBMod s) = (b, es, f)"
  shows "tbb_fast_rel v t0 sk nid k (s\<lparr>DBBMod := b, DSMod := d\<rparr>) (fast_step q own (abs_event e) a) \<and>
    own_votes nid v own (fast_step q own (abs_event e) a) es \<and> f = Done"
proof -
  have r: "fast_rel v t0 sk nid (DBBMod s) a" using rel by (simp add: tbb_fast_rel_def)
  from fast_simulation [OF r e(1) assms(4-7)] st
  have "fast_rel v t0 sk nid b (fast_step q own (abs_event e) a)" "f = Done"
    "own_votes nid v own (fast_step q own (abs_event e) a) es"
    by (simp_all add: own_votes_def)
  with tbb_rel_module [OF rel] on_path_token [OF e st] cert_stays show ?thesis by blast
qed

lemma same_module: "tbb_fast_rel v t0 sk nid k s a \<Longrightarrow> tbb_fast_rel v t0 sk nid k (s\<lparr>DSMod := d\<rparr>) a"
  by (simp add: tbb_fast_rel_def)

lemma tbb_msg_simulation:
  assumes rel: "tbb_fast_rel v t0 sk nid k s a" and ok: "tbb_on_path c v t0 (TMsg now clk m)" and ord: "map_order ord"
    and hon: "\<not> IsMalicious c" and own: "Sign B sha sk v = Some own" and q: "int q = NodeNum c - maliciousNodes c" "0 < q"
    and st: "tbb_dispatch c B sha ord now clk m s = (s', es, f)"
  shows "tbb_fast_rel v t0 sk nid k s' (fast_step q own (tbb_abs_event (TMsg now clk m)) a) \<and>
    own_votes nid v own (fast_step q own (tbb_abs_event (TMsg now clk m)) a) es"
proof -
  let ?e = "DMsg (\<lambda>_. (now, 0)) m"
  have same: "DSMod s = DSMod (s\<lparr>DBBMod := b\<rparr>)" for b by simp
  note sim = module_simulation [OF rel _ _ ord own q, of ?e]
  show ?thesis
  proof (cases "MsgType m")
    case MsgPropose
    with ok have e: "on_path c v t0 ?e" by simp
    obtain b es1 f1 where d1: "dbb_HandleProposeMsg c now m (DBBMod s) = (b, es1, f1)" by (metis prod_cases3)
    obtain d es2 f2 where d2: "HandleProposeMsg c B sha clk m (DSMod s) = (d, es2, f2)" by (metis prod_cases3)
    have "dbb_step c B sha ord ?e (DBBMod s) = (b, es1, f1)" using d1 MsgPropose by (simp add: dbb_dispatch_def)
    from sim [OF e _ this, of d] have r: "tbb_fast_rel v t0 sk nid k (s\<lparr>DBBMod := b, DSMod := d\<rparr>) (fast_step q own (abs_event ?e) a)"
      "own_votes nid v own (fast_step q own (abs_event ?e) a) es1" "f1 = Done" by simp_all
    have "s' = s\<lparr>DBBMod := b, DSMod := d\<rparr>" "es = es1 @ es2"
      using st MsgPropose hon d1 d2 r(3)
      by (simp_all add: tbb_dispatch_def tbb_handleProposeMsg_def and_then_def on_DBB_def on_DS_def)
    with r(1,2) ds_no_votes(1) [OF d2] show ?thesis by (auto simp: own_votes_append intro: own_votes_none)
  next
    case MsgForward1
    with ok have e: "on_path c v t0 ?e" by simp
    have "on_DBB (dbb_HandleForward1Msg m) s = (s', es, f)"
      using st MsgForward1 hon by (simp add: tbb_dispatch_def tbb_handleForward1Msg_def)
    then obtain b where b: "dbb_HandleForward1Msg m (DBBMod s) = (b, es, f)" "s' = s\<lparr>DBBMod := b\<rparr>" by (rule on_DBB_E)
    then have "dbb_step c B sha ord ?e (DBBMod s) = (b, es, f)" using MsgForward1 by (simp add: dbb_dispatch_def)
    from sim [OF e _ this, of "DSMod s"] b(2) show ?thesis by simp
  next
    case MsgVote
    with ok have e: "on_path c v t0 ?e" by simp
    have "on_DBB (dbb_HandleVoteMsg c B ord now m) s = (s', es, f)"
      using st MsgVote hon by (simp add: tbb_dispatch_def tbb_handleVoteMsg_def)
    then obtain b where b: "dbb_HandleVoteMsg c B ord now m (DBBMod s) = (b, es, f)" "s' = s\<lparr>DBBMod := b\<rparr>" by (rule on_DBB_E)
    then have "dbb_step c B sha ord ?e (DBBMod s) = (b, es, f)" using MsgVote by (simp add: dbb_dispatch_def)
    from sim [OF e _ this, of "DSMod s"] b(2) show ?thesis by simp
  next
    case MsgForward
    then have "on_DS (HandleForwardMsg c B sha clk m) s = (s', es, f)"
      using st hon by (simp add: tbb_dispatch_def tbb_handleForwardMsg_def)
    with MsgForward rel ds_no_votes(2) show ?thesis by (elim on_DS_E) (auto intro: same_module own_votes_none)
  next
    case MsgForward2
    then have "on_DBB (dbb_HandleForward2Msg c B sha ord clk m) s = (s', es, f)"
      using st hon by (simp add: tbb_dispatch_def tbb_handleForward2Msg_def)
    then obtain b where b: "dbb_HandleForward2Msg c B sha ord clk m (DBBMod s) = (b, es, f)" "s' = s\<lparr>DBBMod := b\<rparr>" by (rule on_DBB_E)
    have "fast_rel v t0 sk nid (DBBMod s) a" using rel by (simp add: tbb_fast_rel_def)
    from fast_forward2 [OF this, of c B sha ord clk m] b have
      "fast_rel v t0 sk nid b a" "trigger b = trigger (DBBMod s)" "\<forall>x \<in> set es. vote_value x = None" by simp_all
    with rel b(2) MsgForward2 show ?thesis by (auto simp: tbb_fast_rel_def intro: own_votes_none)
  qed (use st hon rel ok in \<open>auto simp: tbb_dispatch_def tbb_handleQCMsg_def dbb_HandleQCMsg_def on_DBB_def tbb_handleQueryMsg_def
      own_votes_def vote_value_def split: option.splits\<close>)
qed

lemma listen_rel:
  assumes "tbb_fast_rel v t0 sk nid k s a"
  shows "tbb_fast_rel v t0 sk nid k (commitPoint1Handler i s) a"
proof (cases "i < length (listeners s)")
  case True
  note r = assms [unfolded tbb_fast_rel_def fast_rel_def]
  show ?thesis
  proof (cases "listeners s ! i")
    case Starting
    with True r show ?thesis
      by (cases "i = k") (auto simp: commitPoint1Handler_def tbb_fast_rel_def fast_rel_def)
  next
    case (Waiting ch)
    show ?thesis
    proof (cases "ch = channel s \<and> 1 \<le> trigger (DBBMod s)")
      case True
      with r have "fa_cert a" by auto
      with True Waiting \<open>i < length (listeners s)\<close> r show ?thesis
        by (auto simp: commitPoint1Handler_def commit_point1_def tbb_fast_rel_def fast_rel_def)
    next
      case False
      with Waiting r assms show ?thesis by (auto simp: commitPoint1Handler_def)
    qed
  qed (use assms in \<open>simp add: commitPoint1Handler_def\<close>)
qed (use assms in \<open>simp add: commitPoint1Handler_def\<close>)

lemma timer_rel:
  assumes "tbb_fast_rel v t0 sk nid k s a"
  shows "tbb_fast_rel v t0 sk nid k (tbb_fire ord t s) a"
proof -
  have "length (localSetD (tbb_fire ord t s)) = length (localSetD s)" "localSetD (tbb_fire ord t s) ! 0 = localSetD s ! 0"
    "listeners (tbb_fire ord t s) = listeners s" "channel (tbb_fire ord t s) = channel s"
    by (cases t; simp add: tbb_fire_def referencePoint1Handler_def referencePoint2Handler_def
        commitPoint2Handler_def commitPoint3Handler_def)+
  with assms show ?thesis by (simp add: tbb_fast_rel_def)
qed

lemma tbb_fast_simulation:
  assumes rel: "tbb_fast_rel v t0 sk nid k s a" and ok: "tbb_on_path c v t0 e" and ord: "map_order ord"
    and hon: "\<not> IsMalicious c" and own: "Sign B sha sk v = Some own" and q: "int q = NodeNum c - maliciousNodes c" "0 < q"
    and st: "tbb_step c B sha ord e s = (s', es, f)"
  shows "tbb_fast_rel v t0 sk nid k s' (fast_step q own (tbb_abs_event e) a) \<and>
    own_votes nid v own (fast_step q own (tbb_abs_event e) a) es"
proof (cases e)
  case (TMsg now clk m)
  from tbb_msg_simulation [OF rel ok [unfolded TMsg] ord hon own q] st show ?thesis unfolding TMsg by simp
next
  case (TFire t)
  with st rel timer_rel show ?thesis by (auto simp: own_votes_def)
next
  case (TFireDS t)
  with st have "on_DS (ds_fire ord t) s = (s', es, f)" by simp
  with TFireDS rel ds_no_votes(3) show ?thesis by (elim on_DS_E) (auto intro: same_module own_votes_none)
next
  case (TFireDBB t)
  with st have "on_DBB (dbb_fire c B sha ord t) s = (s', es, f)" by simp
  then obtain b where b: "dbb_fire c B sha ord t (DBBMod s) = (b, es, f)" "s' = s\<lparr>DBBMod := b\<rparr>" by (rule on_DBB_E)
  show ?thesis
  proof (cases "t = VoteTimer")
    case True
    with b(1) have "dbb_step c B sha ord (DFire t) (DBBMod s) = (b, es, f)" by simp
    from module_simulation [OF rel _ _ ord own q this, of "DSMod s"] True TFireDBB b(2) show ?thesis by simp
  next
    case False
    have "fast_rel v t0 sk nid (DBBMod s) a" using rel by (simp add: tbb_fast_rel_def)
    from fast_other [OF this False, of c B sha ord] b(1) have
      "fast_rel v t0 sk nid b a" "trigger b = trigger (DBBMod s)" "\<forall>x \<in> set es. vote_value x = None" by simp_all
    with rel b(2) False TFireDBB show ?thesis by (auto simp: tbb_fast_rel_def intro: own_votes_none)
  qed
next
  case (TListen i)
  with st rel listen_rel show ?thesis by (auto simp: own_votes_def)
qed

section \<open>Runs of the nodes\<close>

fun tbb_trace ::
  "config \<Rightarrow> bls \<Rightarrow> (bytes \<Rightarrow> bytes) \<Rightarrow> ((string list \<Rightarrow> string list) \<times> tbb_event) list \<Rightarrow> tbb \<Rightarrow> tbb \<times> effect list" where
  "tbb_trace c B sha [] s = (s, [])"
| "tbb_trace c B sha ((ord, e) # evs) s =
     (case tbb_step c B sha ord e s of (s1, es, _) \<Rightarrow> (case tbb_trace c B sha evs s1 of (s2, es') \<Rightarrow> (s2, es @ es')))"

lemma tbb_simulation_run:
  assumes "tbb_fast_rel v t0 sk nid k s a" and "\<forall>p \<in> set evs. map_order (fst p) \<and> tbb_on_path c v t0 (snd p)"
    and "\<not> IsMalicious c" and "Sign B sha sk v = Some own" and "int q = NodeNum c - maliciousNodes c" and "0 < q"
    and "tbb_trace c B sha evs s = (s', es)"
  shows "tbb_fast_rel v t0 sk nid k s' (fast_run q own (map (tbb_abs_event \<circ> snd) evs) a) \<and>
    own_votes nid v own (fast_run q own (map (tbb_abs_event \<circ> snd) evs) a) es"
  using assms(1,2,7)
proof (induction evs arbitrary: s a es)
  case Nil
  then show ?case by (simp add: fast_run_def own_votes_def)
next
  case (Cons p evs)
  obtain ord e where p: "p = (ord, e)" by (cases p)
  obtain s1 es1 f where st: "tbb_step c B sha ord e s = (s1, es1, f)" by (metis prod_cases3)
  let ?a = "fast_step q own (tbb_abs_event e) a"
  from Cons.prems(2) p have o: "map_order ord" "tbb_on_path c v t0 e" by simp_all
  note 1 = tbb_fast_simulation [OF Cons.prems(1) o(2,1) assms(3-6) st]
  obtain es2 where tr: "tbb_trace c B sha evs s1 = (s', es2)" "es = es1 @ es2"
    using Cons.prems(3) p st by (auto split: prod.splits)
  have "\<forall>p \<in> set evs. map_order (fst p) \<and> tbb_on_path c v t0 (snd p)" using Cons.prems(2) by simp
  from Cons.IH [OF conjunct1 [OF 1] this tr(1)] 1 show ?case
    by (auto simp: p tr(2) fast_run_def own_votes_def intro: own_stays [unfolded fast_run_def])
qed

lemma tbb_rel_init:
  assumes "s = fst (tbb_handleInitMsg c now \<lparr>MsgType = MsgInit, msg_Content = PTime t0\<rparr> s0)"
    and "onUpdate (dbb_startTime (DBBMod s0)) = None" and "\<forall>ch. staleTokens s0 ch = 0" and "trigger (DBBMod s0) = 0"
  shows "tbb_fast_rel v t0 (dbb_SecKey (DBBMod s0)) (dbb_Nid (DBBMod s0)) (length (listeners s0)) s fast_start"
proof -
  have d: "decode_time (msg_Content \<lparr>MsgType = MsgInit, msg_Content = PTime t0\<rparr>) = Some t0" by simp
  have "fast_rel v t0 (dbb_SecKey (DBBMod s0)) (dbb_Nid (DBBMod s0))
      (fst (dbb_HandleInitMsg c now \<lparr>MsgType = MsgInit, msg_Content = PTime t0\<rparr> (DBBMod s0))) fast_start"
    by (rule fast_rel_init [OF refl assms(2)])
  with assms(3,4) show ?thesis
    unfolding assms(1) tbb_init_eq [OF d] by (simp add: tbb_fast_rel_def fast_start_def)
qed

text \<open>After the certificate two steps of the round's goroutine complete commit point 1.\<close>

lemma listener_commits:
  assumes "tbb_fast_rel v t0 sk nid k s a" and "fa_cert a" and "s2 = commitPoint1Handler k (commitPoint1Handler k s)"
  shows "tbb_isCommit s2 \<and> localSetD s2 ! 0 = v \<and> map fst (QCMap (DBBMod s2)) = [v]"
proof -
  have r: "tbb_fast_rel v t0 sk nid k s2 a" using assms(1,3) listen_rel by blast
  have "tbb_isCommit s2"
  proof (cases "tbb_isCommit s")
    case True
    have "tbb_isCommit (commitPoint1Handler i u)" if "tbb_isCommit u" for i u
      using that by (auto simp: commitPoint1Handler_def split: listener.splits)
    with True assms(3) show ?thesis by blast
  next
    case False
    with assms(1,2) have k: "k < length (listeners s)" "1 \<le> trigger (DBBMod s)"
      "listeners s ! k = Starting \<or> listeners s ! k = Waiting (channel s)"
      by (auto simp: tbb_fast_rel_def)
    then show ?thesis by (auto simp: assms(3) commitPoint1Handler_def commit_point1_def)
  qed
  with r assms(2) show ?thesis by (simp add: tbb_fast_rel_def fast_rel_def)
qed

text \<open>The votes that the honest nodes \<open>H\<close> broadcast reach the other nodes of \<open>H\<close>.\<close>

definition tbb_votes_delivered ::
  "int set \<Rightarrow> (int \<Rightarrow> effect list) \<Rightarrow> (int \<Rightarrow> ((string list \<Rightarrow> string list) \<times> tbb_event) list) \<Rightarrow> bool" where
  "tbb_votes_delivered H sent E \<longleftrightarrow>
     (\<forall>i \<in> H. \<forall>j \<in> H - {i}. \<forall>m. Broadcast 0 m \<in> set (sent j) \<and> MsgType m = MsgVote \<longrightarrow>
        (\<exists>ord now clk. (ord, TMsg now clk m) \<in> set (E i)))"


text \<open>
  Four nodes, one fault: nodes 0, 1 and 2 get the proposal, start listening, vote after a tick and receive
  the other two votes and the Dolev-Strong messages.
\<close>

definition shard_node :: "int \<Rightarrow> tbb" where
  "shard_node i = NewTBBCosensusMod i (''n'' @ Itoa i) (Some (''k'' @ Itoa i)) 0"

definition shard_began :: "int \<Rightarrow> tbb" where
  "shard_began i = fst (tbb_handleInitMsg dbb_cfg 0 \<lparr>MsgType = MsgInit, msg_Content = PTime 0\<rparr> (shard_node i))"

definition vote_to :: "int \<Rightarrow> tbb_event" where
  "vote_to j = tbb_at0 (vote_msg \<lparr>vc_NodeId = j, vc_Content = ''A'', vc_Sig = Some (fast_sig j)\<rparr>)"

definition shard_events :: "int \<Rightarrow> ((string list \<Rightarrow> string list) \<times> tbb_event) list" where
  "shard_events i =
     [(rev, tbb_at0 \<lparr>MsgType = MsgPropose, msg_Content = PRequest
        \<lparr>ShardId = 0, ReqType = ReqVerifyString, Content = ''A'', ReqTime = 0, Digest = [], Sig = None\<rparr>\<rparr>),
      ((\<lambda>xs. xs), TFireDBB VoteTimer), (rev, TListen 0)] @
     map (\<lambda>j. (rev, vote_to j)) (filter (\<lambda>j. j \<noteq> i) [2, 0, 1]) @ [(rev, TFire RefPoint1), (rev, TFireDBB BAStart)]"

definition shard_sent :: "int \<Rightarrow> effect list" where
  "shard_sent i = snd (tbb_trace dbb_cfg pair_bls (\<lambda>m. m) (shard_events i) (shard_began i))"

lemma shard_facts:
  "map (\<lambda>i. \<exists>x \<in> set (shard_sent i). vote_value x \<noteq> None) [0, 1, 2] = [True, True, True]"
  "map (\<lambda>i. map (tbb_abs_event \<circ> snd) (shard_events i)) [0, 1, 2] =
     [[Known, OwnVote, Idle, GotVote ''k2A'', GotVote ''k1A'', Idle, Idle], [Known, OwnVote, Idle, GotVote ''k2A'', GotVote ''k0A'', Idle, Idle],
      [Known, OwnVote, Idle, GotVote ''k0A'', GotVote ''k1A'', Idle, Idle]]"
  "map (\<lambda>i. list_all (\<lambda>p. tbb_on_path dbb_cfg ''A'' 0 (snd p)) (shard_events i)) [0, 1, 2] = [True, True, True]"
  "list_all (\<lambda>j. list_all (\<lambda>x. case x of
     Broadcast n m \<Rightarrow> MsgType m = MsgVote \<longrightarrow> x = cast_vote j ''A'' (fast_sig j) | _ \<Rightarrow> True) (shard_sent j)) [0, 1, 2]"
  "\<not> IsMalicious dbb_cfg"
  by code_simp+

lemma shard_delivered: "tbb_votes_delivered {0, 1, 2} shard_sent shard_events"
proof -
  have "\<exists>ord t clk. (ord, TMsg t clk m) \<in> set (shard_events i)"
    if "i \<in> {0, 1, 2}" "j \<in> {0, 1, 2}" "j \<noteq> i" "Broadcast 0 m \<in> set (shard_sent j)" "MsgType m = MsgVote" for i j m
  proof -
    have "list_all (\<lambda>x. case x of Broadcast n m \<Rightarrow> MsgType m = MsgVote \<longrightarrow> x = cast_vote j ''A'' (fast_sig j) | _ \<Rightarrow> True) (shard_sent j)"
      using shard_facts(4) that(2) by auto
    with that(4,5) have "Broadcast 0 m = cast_vote j ''A'' (fast_sig j)" by (fastforce simp: list_all_iff)
    then have "(rev, TMsg 0 (\<lambda>_. (0, 0)) m) = (rev, vote_to j)"
      by (simp add: cast_vote_def vote_to_def tbb_at0_def)
    moreover have "(rev, vote_to j) \<in> set (shard_events i)"
      using that(1-3) by (auto simp: shard_events_def)
    ultimately show ?thesis by metis
  qed
  then show ?thesis unfolding tbb_votes_delivered_def by blast
qed


end
