(* ===== verification/Measure.thy ===== *)
theory Measure
  imports Complex_Main "HOL-Library.AList" Network Blockchain
begin

text \<open>
  The measuring client (clientMod/measure.go and the measure addons).  Each addon is a record with its
  \<open>UpdateRecord\<close> and \<open>WriteResult\<close>; the mutex makes each call a step, and writing a file is the list of the rows
  written, before they are formatted.  The addon interface is a datatype with a \<open>nil\<close> case, because a constructor whose
  file cannot be created returns nil and the nil is stored.  \<open>Seconds()\<close> followed by the conversion to \<open>int\<close> is the
  truncating division; the averages, which Go computes on \<open>float64\<close>, are exact fractions here, and the
  quotient \<open>0 / 0\<close>, a NaN, is \<open>None\<close>.  The decoding of a request's content into a block (gob) is a parameter.
\<close>

section \<open>Transactions per second\<close>

record tps =
  TPS :: "nat list"
  tps_startTime :: time

definition NewMeasureAddonTPS :: "time \<Rightarrow> tps" where
  "NewMeasureAddonTPS now = \<lparr>TPS = [], tps_startTime = now\<rparr>"

definition grow :: "nat list \<Rightarrow> nat \<Rightarrow> nat list" where
  "grow xs n = xs @ replicate (n - length xs) 0"

definition tps_UpdateRecord :: "(bytes \<Rightarrow> block option) \<Rightarrow> time \<Rightarrow> reply \<Rightarrow> tps \<Rightarrow> panic + tps" where
  "tps_UpdateRecord decode now rep s =
     (case decode (Content (rep_Req rep)) of
        None \<Rightarrow> Inr s
      | Some b \<Rightarrow>
          let elapsed = (now - tps_startTime s) sdiv Second;
              recs = (if int (length (TPS s)) \<le> elapsed then grow (TPS s) (nat (elapsed + 1)) else TPS s)
          in if elapsed < 0 then Inl IndexOutOfRange
             else Inr (s\<lparr>TPS := recs[nat elapsed := recs ! nat elapsed + length (Transactions b)]\<rparr>))"

text \<open>A row is the second, its transactions, the total so far and the average over the busy seconds so far.\<close>

fun tps_rows :: "nat \<Rightarrow> nat \<Rightarrow> nat \<Rightarrow> nat list \<Rightarrow> (nat \<times> nat \<times> nat \<times> rat option) list" where
  "tps_rows i totalTxs timeElapsed [] = []"
| "tps_rows i totalTxs timeElapsed (t # ts) =
     (let total' = (if t \<noteq> 0 then totalTxs + t else totalTxs);
          time' = (if t \<noteq> 0 then timeElapsed + 1 else timeElapsed)
      in (i, t, total', if time' = 0 then None else Some (of_nat total' / of_nat time')) # tps_rows (i + 1) total' time' ts)"

definition tps_WriteResult :: "tps \<Rightarrow> (nat \<times> nat \<times> nat \<times> rat option) list" where
  "tps_WriteResult s = tps_rows 0 0 0 (TPS s)"

section \<open>Latency and queue length\<close>

record tcl =
  tcl_latencys :: "time list"

definition NewMeasureAddonTCL :: tcl where
  "NewMeasureAddonTCL = \<lparr>tcl_latencys = []\<rparr>"

definition tcl_UpdateRecord :: "reply \<Rightarrow> tcl \<Rightarrow> tcl" where
  "tcl_UpdateRecord rep s = s\<lparr>tcl_latencys := tcl_latencys s @ [rep_Time rep - ReqTime (rep_Req rep)]\<rparr>"

fun avg_loop :: "nat \<Rightarrow> rat \<Rightarrow> time list \<Rightarrow> rat" where
  "avg_loop n avg [] = avg"
| "avg_loop n avg (l # ls) = avg_loop n (avg + (of_int l / of_int Second) / of_nat n) ls"

definition tcl_WriteResult :: "tcl \<Rightarrow> (rat \<times> rat) list" where
  "tcl_WriteResult s =
     (let avg = avg_loop (length (tcl_latencys s)) 0 (tcl_latencys s)
      in map (\<lambda>l. (of_int l / of_int Second, avg)) (tcl_latencys s))"

record wait_len =
  WaitLen :: "(int \<times> nat) list"

definition NewMeasureAddonWaitLen :: wait_len where
  "NewMeasureAddonWaitLen = \<lparr>WaitLen = []\<rparr>"

definition wl_UpdateRecord :: "reply \<Rightarrow> wait_len \<Rightarrow> wait_len" where
  "wl_UpdateRecord rep s = s\<lparr>WaitLen := AList.update (rep_Sid rep) (ReqQueueLen rep) (WaitLen s)\<rparr>"

text \<open>The two rows list the shards in the order in which the iteration over the map yields them.\<close>

definition wl_WriteResult :: "((int \<times> nat) list \<Rightarrow> (int \<times> nat) list) \<Rightarrow> wait_len \<Rightarrow> string list \<times> string list" where
  "wl_WriteResult ord s =
     (let es = ord (WaitLen s) in (map (\<lambda>e. ''Shard'' @ Itoa (fst e)) es, map (\<lambda>e. Itoa (int (snd e))) es))"

section \<open>The measure module\<close>

datatype MeasureAddon =
    MeasureTPS tps
  | MeasureTCL tcl
  | MeasureWaitLen wait_len
  | NilAddon

text \<open>\<open>creatable\<close> tells whether \<open>os.Create\<close> succeeds on a path.\<close>

definition NewMeasureAddon :: "config \<Rightarrow> (string \<Rightarrow> bool) \<Rightarrow> time \<Rightarrow> string \<Rightarrow> MeasureAddon option" where
  "NewMeasureAddon c creatable now addonType =
     (if addonType = ''TCL'' then
        Some (if creatable (ResultPath c @ ''TCL.csv'') then MeasureTCL NewMeasureAddonTCL else NilAddon)
      else if addonType = ''TPS'' then
        Some (if creatable (ResultPath c @ ''TPS.csv'') then MeasureTPS (NewMeasureAddonTPS now) else NilAddon)
      else if addonType = ''WaitLen'' then
        Some (if creatable (ResultPath c @ ''WaitLen.csv'') then MeasureWaitLen NewMeasureAddonWaitLen else NilAddon)
      else None)"

text \<open>
  The start of \<open>Run\<close>: the addons are appended in order; an unknown type ends \<open>Run\<close> (\<open>False\<close>), and
  then no result is written when the node stops.
\<close>

fun add_addons :: "config \<Rightarrow> (string \<Rightarrow> bool) \<Rightarrow> time \<Rightarrow> string list \<Rightarrow> MeasureAddon list \<Rightarrow> MeasureAddon list \<times> bool" where
  "add_addons c creatable now [] addons = (addons, True)"
| "add_addons c creatable now (ty # tys) addons =
     (case NewMeasureAddon c creatable now ty of
        None \<Rightarrow> (addons, False)
      | Some a \<Rightarrow> add_addons c creatable now tys (addons @ [a]))"

definition MeasureMethod :: "string list" where
  "MeasureMethod = [''TPS'', ''TCL'', ''WaitLen'']"

definition UpdateRecord :: "(bytes \<Rightarrow> block option) \<Rightarrow> time \<Rightarrow> reply \<Rightarrow> MeasureAddon \<Rightarrow> panic + MeasureAddon" where
  "UpdateRecord decode now rep a =
     (case a of
        MeasureTPS s \<Rightarrow> bindP (tps_UpdateRecord decode now rep s) (\<lambda>s'. Inr (MeasureTPS s'))
      | MeasureTCL s \<Rightarrow> Inr (MeasureTCL (tcl_UpdateRecord rep s))
      | MeasureWaitLen s \<Rightarrow> Inr (MeasureWaitLen (wl_UpdateRecord rep s))
      | NilAddon \<Rightarrow> Inl NilDereference)"

fun update_all :: "(bytes \<Rightarrow> block option) \<Rightarrow> time \<Rightarrow> reply \<Rightarrow> MeasureAddon list \<Rightarrow> panic + MeasureAddon list" where
  "update_all decode now rep [] = Inr []"
| "update_all decode now rep (a # as) =
     bindP (UpdateRecord decode now rep a) (\<lambda>a'. bindP (update_all decode now rep as) (\<lambda>as'. Inr (a' # as')))"

definition HandleReply :: "(bytes \<Rightarrow> block option) \<Rightarrow> time \<Rightarrow> message \<Rightarrow> MeasureAddon list \<Rightarrow> panic + MeasureAddon list" where
  "HandleReply decode now msg addons =
     (case decode_reply (msg_Content msg) of None \<Rightarrow> Inr addons | Some rep \<Rightarrow> update_all decode now rep addons)"

section \<open>The recorded figures\<close>

text \<open>The messages a measuring node receives, each with the clock reading of its handler.\<close>

fun handle_replies :: "(bytes \<Rightarrow> block option) \<Rightarrow> (time \<times> message) list \<Rightarrow> MeasureAddon list \<Rightarrow> panic + MeasureAddon list" where
  "handle_replies decode [] addons = Inr addons"
| "handle_replies decode ((now, m) # ms) addons = bindP (HandleReply decode now m addons) (handle_replies decode ms)"

definition replied_txs :: "(bytes \<Rightarrow> block option) \<Rightarrow> message \<Rightarrow> nat" where
  "replied_txs decode m =
     (case decode_reply (msg_Content m) of None \<Rightarrow> 0
      | Some rep \<Rightarrow> (case decode (Content (rep_Req rep)) of None \<Rightarrow> 0 | Some b \<Rightarrow> length (Transactions b)))"

text \<open>The transactions of the replies handled in the \<open>k\<close>-th second.\<close>

definition txs_in_second :: "(bytes \<Rightarrow> block option) \<Rightarrow> time \<Rightarrow> nat \<Rightarrow> (time \<times> message) list \<Rightarrow> nat" where
  "txs_in_second decode start k ms =
     sum_list (map (\<lambda>(now, m). if (now - start) div Second = int k then replied_txs decode m else 0) ms)"

definition entry :: "nat list \<Rightarrow> nat \<Rightarrow> nat" where
  "entry xs k = (if k < length xs then xs ! k else 0)"

lemma entry_grow [simp]: "entry (grow xs n) k = entry xs k"
  by (simp add: entry_def grow_def nth_append)

lemma length_grow [simp]: "length (grow xs n) = max (length xs) n"
  by (simp add: grow_def)

lemma entry_update: "i < length xs \<Longrightarrow> entry (xs[i := v]) k = (if k = i then v else entry xs k)"
  by (simp add: entry_def nth_list_update)

lemma entry_nth: "k < length xs \<Longrightarrow> xs ! k = entry xs k"
  by (simp add: entry_def)

lemma Second_pos [simp]: "0 < Second"
  by (simp add: Second_def Millisecond_def)

text \<open>One reply adds its transactions to its second and changes no other second.\<close>

lemma tps_update_entry:
  assumes "tps_startTime s \<le> now"
  shows "\<exists>s'. tps_UpdateRecord decode now rep s = Inr s' \<and> tps_startTime s' = tps_startTime s \<and>
    (\<forall>k. entry (TPS s') k = entry (TPS s) k +
       (if (now - tps_startTime s) div Second = int k
        then (case decode (Content (rep_Req rep)) of None \<Rightarrow> 0 | Some b \<Rightarrow> length (Transactions b)) else 0))"
proof (cases "decode (Content (rep_Req rep))")
  case None
  then show ?thesis by (simp add: tps_UpdateRecord_def)
next
  case (Some b)
  define e where "e = (now - tps_startTime s) div Second"
  have e: "(now - tps_startTime s) sdiv Second = e" "0 \<le> e"
    using assms by (simp_all add: e_def sdiv_pos_eq_div pos_imp_zdiv_nonneg_iff)
  define recs where "recs = (if int (length (TPS s)) \<le> e then grow (TPS s) (nat (e + 1)) else TPS s)"
  have "nat e < length recs" and same: "entry recs k = entry (TPS s) k" for k
    using e(2) by (auto simp: recs_def)
  then have "entry (recs[nat e := recs ! nat e + n]) k = entry (TPS s) k + (if e = int k then n else 0)" for n k
    using e(2) by (auto simp: entry_update entry_nth)
  moreover have "tps_UpdateRecord decode now rep s = Inr (s\<lparr>TPS := recs[nat e := recs ! nat e + length (Transactions b)]\<rparr>)"
    using e Some by (simp add: tps_UpdateRecord_def recs_def Let_def)
  ultimately show ?thesis using Some by (simp add: e_def)
qed

lemma handle_replies_tps:
  assumes "\<forall>now \<in> fst ` set ms. tps_startTime s \<le> now"
  shows "\<exists>s'. handle_replies decode ms [MeasureTPS s] = Inr [MeasureTPS s'] \<and>
    (\<forall>k. entry (TPS s') k = entry (TPS s) k + txs_in_second decode (tps_startTime s) k ms)"
  using assms
proof (induction ms arbitrary: s)
  case Nil
  then show ?case by (simp add: txs_in_second_def)
next
  case (Cons x ms)
  obtain now m where x: "x = (now, m)" by (cases x)
  have "\<exists>s1. HandleReply decode now m [MeasureTPS s] = Inr [MeasureTPS s1] \<and> tps_startTime s1 = tps_startTime s \<and>
     (\<forall>k. entry (TPS s1) k = entry (TPS s) k + (if (now - tps_startTime s) div Second = int k then replied_txs decode m else 0))"
  proof (cases "decode_reply (msg_Content m)")
    case None
    then show ?thesis by (simp add: HandleReply_def replied_txs_def)
  next
    case (Some rep)
    with tps_update_entry [of s now decode rep] Cons.prems x show ?thesis
      by (auto simp: HandleReply_def replied_txs_def UpdateRecord_def)
  qed
  then obtain s1 where s1: "HandleReply decode now m [MeasureTPS s] = Inr [MeasureTPS s1]" "tps_startTime s1 = tps_startTime s"
    "entry (TPS s1) k = entry (TPS s) k + (if (now - tps_startTime s) div Second = int k then replied_txs decode m else 0)" for k
    by blast
  with Cons.IH [of s1] Cons.prems x show ?case by (auto simp: txs_in_second_def)
qed

text \<open>Row \<open>i\<close> of the result holds the sum of the first seconds.\<close>

lemma tps_rows_nth:
  "length (tps_rows i tot busy ts) = length ts"
  "j < length ts \<Longrightarrow> tps_rows i tot busy ts ! j =
     (let tot' = tot + sum_list (take (Suc j) ts);
          busy' = busy + length (filter (\<lambda>t. t \<noteq> 0) (take (Suc j) ts))
      in (i + j, ts ! j, tot', if busy' = 0 then None else Some (of_nat tot' / of_nat busy')))"
proof (induction ts arbitrary: i tot busy j)
  case Nil
  { case 1 then show ?case by simp }
  { case 2 then show ?case by simp }
next
  case (Cons t ts)
  { case 1 then show ?case using Cons.IH(1) by (simp add: Let_def) }
  { case 2
    then show ?case using Cons.IH(2) by (cases j) (simp_all add: Let_def add.assoc) }
qed

lemma sum_list_take: "j < length ts \<Longrightarrow> sum_list (take (Suc j) ts) = (\<Sum>i\<le>j. entry ts i)"
proof (induction j)
  case 0
  then show ?case by (cases ts) (simp_all add: entry_def)
next
  case (Suc j)
  then show ?case by (simp add: take_Suc_conv_app_nth entry_def)
qed

lemma length_filter_take:
  "j < length ts \<Longrightarrow> length (filter P (take (Suc j) ts)) = card {i. i \<le> j \<and> P (entry ts i)}"
proof (induction j)
  case 0
  then have "{i. i \<le> 0 \<and> P (entry ts i)} = (if P (ts ! 0) then {0} else {})" by (auto simp: entry_def)
  with 0 show ?case by (cases ts) (simp_all add: entry_def)
next
  case (Suc j)
  then have "{i. i \<le> Suc j \<and> P (entry ts i)} =
      (if P (ts ! Suc j) then insert (Suc j) {i. i \<le> j \<and> P (entry ts i)} else {i. i \<le> j \<and> P (entry ts i)})"
    by (auto simp: entry_def le_Suc_eq)
  moreover have "length (filter P (take (Suc (Suc j)) ts)) = length (filter P (take (Suc j) ts)) + (if P (ts ! Suc j) then 1 else 0)"
    using Suc.prems by (simp add: take_Suc_conv_app_nth [of "Suc j"])
  ultimately show ?case using Suc by simp
qed


text \<open>
  With the configured measures \<open>Run\<close> always starts; the first reply then brings the client down
  with a nil dereference exactly if one of the three result files could not be created.
\<close>

theorem measure_panics_iff_file_missing:
  assumes "start \<le> now" and "decode_reply (msg_Content m) = Some rep"
  shows "snd (add_addons c creatable start MeasureMethod []) \<and>
    (HandleReply decode now m (fst (add_addons c creatable start MeasureMethod [])) = Inl NilDereference \<longleftrightarrow>
     \<not> (\<forall>f \<in> {''TPS.csv'', ''TCL.csv'', ''WaitLen.csv''}. creatable (ResultPath c @ f)))"
proof -
  obtain s' where "tps_UpdateRecord decode now rep (NewMeasureAddonTPS start) = Inr s'"
    using tps_update_entry [of "NewMeasureAddonTPS start" now decode rep] assms(1) by (auto simp: NewMeasureAddonTPS_def)
  with assms(2) show ?thesis
    by (simp add: HandleReply_def MeasureMethod_def NewMeasureAddon_def UpdateRecord_def)
qed

section \<open>Concrete replies\<close>

definition reply_at :: "time \<Rightarrow> time \<times> message" where
  "reply_at now = (now, \<lparr>MsgType = MsgReply, msg_Content = PReply \<lparr>rep_Req =
     \<lparr>ShardId = 0, ReqType = ReqVerifyBlock, Content = ''b'', ReqTime = 0, Digest = '''', Sig = None\<rparr>,
     rep_Time = now, rep_Sid = 0, ReqQueueLen = 0\<rparr>\<rparr>)"

definition three_txs :: "bytes \<Rightarrow> block option" where
  "three_txs b = Some \<lparr>Header = zero_header, Transactions = replicate 3 (example_tx b), b_Hash = b\<rparr>"

definition three_replies :: "(time \<times> message) list" where
  "three_replies = [reply_at (2 * Second), reply_at Second, reply_at (2 * Second + 7)]"


theorem measure_panics_iff_file_missing_witness:
  "HandleReply three_txs 5 (snd (reply_at 5)) (fst (add_addons example_config (\<lambda>f. False) 0 MeasureMethod [])) = Inl NilDereference"
  using measure_panics_iff_file_missing [of 0 5 "snd (reply_at 5)" _ example_config "\<lambda>f. False" three_txs]
  by (auto simp: reply_at_def)

end
