(* ===== verification/System.thy ===== *)
theory System
  imports Clients Measure
begin

text \<open>
  How a process is put together: the registry of running modules (runningMod/runningModRegister.go), the predefined
  protocols (protocols.go), the attributes of a node (nodeattr/attribute.go), the node itself (node/node.go)
  and the choice of the role in \<open>main\<close>.  A module is represented by its constructor and the handlers it
  registers; a handler is named by its module and its method.  The flag parser is left out; the
  goroutines that run the modules are in theory Lifecycle; whether the blockchain can be opened is an argument.
\<close>

section \<open>The registry\<close>

datatype running_mod =
    PbftCosensusMod addon_kind
  | TBBCosensusMod
  | DSCosensusMod
  | ProposeTxsAuxiliaryMod
  | ProposeBlockAuxiliaryMod
  | ProposeStringAuxiliaryMod
  | TestAuxiliaryMod
  | SendTxTestMod
  | MeasureMod
  | QueryMod
  | QueryTBBMod
  | StartLocalSystemMod
  | StopSystemMod
  | SendMimicContractTxsMod
  | SendMimicAccountTxsMod
  | SendStringManualMod

fun mod_type :: "running_mod \<Rightarrow> string" where
  "mod_type (PbftCosensusMod k) = ''pbft''"
| "mod_type TBBCosensusMod = ''tbb''"
| "mod_type DSCosensusMod = ''dolev-strong''"
| "mod_type ProposeTxsAuxiliaryMod = ''ProposeTxs''"
| "mod_type ProposeBlockAuxiliaryMod = ''ProposeBlock''"
| "mod_type ProposeStringAuxiliaryMod = ''ProposeString''"
| "mod_type TestAuxiliaryMod = ''testAuxiliary''"
| "mod_type SendTxTestMod = ''test''"
| "mod_type MeasureMod = ''measure''"
| "mod_type QueryMod = ''query''"
| "mod_type QueryTBBMod = ''queryTBB''"
| "mod_type StartLocalSystemMod = ''startlocal''"
| "mod_type StopSystemMod = ''stop''"
| "mod_type SendMimicContractTxsMod = ''sendMimicContractTxs''"
| "mod_type SendMimicAccountTxsMod = ''sendMimicAccountTxs''"
| "mod_type SendStringManualMod = ''sendStringManual''"

text \<open>The constructors that cannot fail; \<open>None\<close> is an unknown name (\<open>hotstuff\<close> is one).\<close>

definition plain_mods :: "running_mod list" where
  "plain_mods = [TBBCosensusMod, DSCosensusMod, ProposeTxsAuxiliaryMod, ProposeBlockAuxiliaryMod,
     ProposeStringAuxiliaryMod, TestAuxiliaryMod, SendTxTestMod, MeasureMod, QueryMod, QueryTBBMod,
     StartLocalSystemMod, StopSystemMod, SendMimicContractTxsMod, SendMimicAccountTxsMod, SendStringManualMod]"

definition NewRunningMod :: "config \<Rightarrow> string \<Rightarrow> panic + running_mod option" where
  "NewRunningMod c ty =
     (if ty = ''pbft'' then
        (case NewPbftAddon (ConsensusMethod c) of
           None \<Rightarrow> Inl (LogPanic ''Error creating pbft addon module'')
         | Some k \<Rightarrow> Inr (Some (PbftCosensusMod k)))
      else Inr (find (\<lambda>m. mod_type m = ty) plain_mods))"

section \<open>The handlers of a module\<close>

type_synonym handler = "string \<times> string"

definition with_m :: "bool \<Rightarrow> string \<Rightarrow> string" where
  "with_m malicious h = (if malicious then h @ ''_m'' else h)"

text \<open>\<open>RegisterHandlers\<close> of each module, in the order of its calls; \<open>nid\<close> is the node's identifier.\<close>

fun registered :: "config \<Rightarrow> int \<Rightarrow> running_mod \<Rightarrow> (MessageType \<times> handler) list" where
  "registered c nid (PbftCosensusMod k) =
     [(MsgPropose, ''pbft'', ''handlePropose''), (MsgPrePrepare, ''pbft'', ''handlePrePrepare''),
      (MsgPrepare, ''pbft'', ''handlePrepare''), (MsgCommit, ''pbft'', ''handleCommit'')]"
| "registered c nid TBBCosensusMod =
     (let h = (\<lambda>s. (''tbb'', with_m (IsMalicious c \<and> nid \<noteq> ViewNodeId c) s))
      in [(MsgInit, h ''handleInitMsg''), (MsgPropose, h ''handleProposeMsg''), (MsgForward, h ''handleForwardMsg''),
          (MsgForward1, h ''handleForward1Msg''), (MsgForward2, h ''handleForward2Msg''), (MsgVote, h ''handleVoteMsg''),
          (MsgQC, h ''handleQCMsg''), (MsgQuery, h ''handleQueryMsg'')])"
| "registered c nid DSCosensusMod =
     (let h = (\<lambda>s. (''ds'', with_m (IsMalicious c \<and> nid \<noteq> ViewNodeId c) s))
      in [(MsgInit, h ''HandleInitMsg''), (MsgPropose, h ''HandleProposeMsg''), (MsgForward, h ''HandleForwardMsg''),
          (MsgQuery, h ''handleQueryMsg'')])"
| "registered c nid ProposeTxsAuxiliaryMod = [(MsgInject, ''ProposeTxs'', ''handleInject'')]"
| "registered c nid ProposeBlockAuxiliaryMod = [(MsgInject, ''ProposeBlock'', ''handleInject'')]"
| "registered c nid ProposeStringAuxiliaryMod =
     [(MsgInject, ''ProposeString'', ''handleInject''), (MsgConsensusDone, ''ProposeString'', ''handleConsensusDone'')]"
| "registered c nid MeasureMod = [(MsgReply, ''measure'', ''HandleReply'')]"
| "registered c nid QueryMod = [(MsgInit, ''query'', ''handleInitMsg''), (MsgReplyQuery, ''query'', ''handleReplyQueryMsg'')]"
| "registered c nid QueryTBBMod =
     [(MsgInit, ''queryTBB'', ''handleInitMsg''), (MsgReplyQuery, ''queryTBB'', ''handleReplyQueryMsg'')]"
| "registered c nid _ = []"

section \<open>Nodes\<close>

record node_attr =
  na_Sid :: int
  na_Nid :: int
  na_Ipaddr :: string
  na_hasChain :: bool

text \<open>A missing entry of the address table reads as the empty string; only the client has no blockchain.\<close>

definition NewNodeAttr :: "config \<Rightarrow> bool \<Rightarrow> int \<Rightarrow> int \<Rightarrow> panic + node_attr" where
  "NewNodeAttr c chain_ok sid nid =
     (let ip = (case node_ip c sid nid of None \<Rightarrow> '''' | Some ip \<Rightarrow> ip) in
      if sid = ClientShard c then
        Inr \<lparr>na_Sid = sid, na_Nid = nid, na_Ipaddr = ClientAddr c, na_hasChain = False\<rparr>
      else if \<not> chain_ok then Inl (LogPanic ''Failed to create the blockchain'')
      else Inr \<lparr>na_Sid = sid, na_Nid = nid, na_Ipaddr = ip, na_hasChain = True\<rparr>)"

definition GetIdentifier :: "node_attr \<Rightarrow> string" where
  "GetIdentifier a = Itoa (na_Sid a) @ ''-'' @ Itoa (na_Nid a) @ ''-'' @ na_Ipaddr a"

record node =
  Attr :: node_attr
  RunningMods :: "running_mod list"
  MsgHandlerMap :: "handler handlers"

fun create_mods :: "config \<Rightarrow> string list \<Rightarrow> running_mod list \<Rightarrow> panic + running_mod list option" where
  "create_mods c [] ms = Inr (Some ms)"
| "create_mods c (ty # tys) ms =
     bindP (NewRunningMod c ty) (\<lambda>r. case r of None \<Rightarrow> Inr None | Some m \<Rightarrow> create_mods c tys (ms @ [m]))"

fun register_list :: "(MessageType \<times> handler) list \<Rightarrow> handler handlers \<Rightarrow> handler handlers" where
  "register_list [] hs = hs"
| "register_list ((t, h) # rs) hs = register_list rs (RegisterHandler t h hs)"

fun register_mods :: "config \<Rightarrow> int \<Rightarrow> running_mod list \<Rightarrow> handler handlers \<Rightarrow> handler handlers" where
  "register_mods c nid [] hs = hs"
| "register_mods c nid (m # ms) hs = register_mods c nid ms (register_list (registered c nid m) hs)"

text \<open>For an unknown module \<open>NewNode\<close> returns a nil node together with a nil error: \<open>None\<close>.\<close>

definition NewNode :: "config \<Rightarrow> bool \<Rightarrow> int \<Rightarrow> int \<Rightarrow> string list \<Rightarrow> panic + node option" where
  "NewNode c chain_ok sid nid tys =
     bindP (NewNodeAttr c chain_ok sid nid) (\<lambda>attr.
     bindP (create_mods c tys []) (\<lambda>r.
       case r of
         None \<Rightarrow> Inr None
       | Some ms \<Rightarrow> Inr (Some \<lparr>Attr = attr, RunningMods = ms, MsgHandlerMap = register_mods c nid ms Map.empty\<rparr>)))"

text \<open>The first step of \<open>Node.Run\<close>.\<close>

definition install_stop :: "node \<Rightarrow> node" where
  "install_stop n = n\<lparr>MsgHandlerMap := RegisterHandler MsgStop (''node'', ''cancel'') (MsgHandlerMap n)\<rparr>"

section \<open>Protocols and main\<close>

record protocol_mods =
  clientMods :: "string list"
  nodeMods :: "string list"
  viewNodeMods :: "string list"

definition PredefinedProtocolMods :: "string \<Rightarrow> protocol_mods option" where
  "PredefinedProtocolMods =
     [''Test'' \<mapsto> \<lparr>clientMods = [''testAuxiliary''], nodeMods = [''testAuxiliary''], viewNodeMods = [''testAuxiliary'']\<rparr>,
      ''Simple'' \<mapsto> \<lparr>clientMods = [''startlocal'', ''stop'', ''sendMimicAccountTxs''],
        nodeMods = [''pbft''], viewNodeMods = [''pbft'', ''ProposeBlock'']\<rparr>,
      ''ClassicPBFT'' \<mapsto> \<lparr>clientMods = [''startlocal'', ''stop'', ''measure'', ''test''],
        nodeMods = [''pbft''], viewNodeMods = [''pbft'', ''ProposeBlock'']\<rparr>,
      ''TBD'' \<mapsto> \<lparr>clientMods = [''startlocal'', ''stop'', ''measure'', ''sendMimicContractTxs''],
        nodeMods = [''pbft''], viewNodeMods = [''pbft'', ''ProposeBlock'']\<rparr>,
      ''TBB'' \<mapsto> \<lparr>clientMods = [''startlocal'', ''stop'', ''sendStringManual'', ''queryTBB''],
        nodeMods = [''tbb''], viewNodeMods = [''tbb'', ''ProposeString'']\<rparr>,
      ''DS'' \<mapsto> \<lparr>clientMods = [''startlocal'', ''stop'', ''sendStringManual'', ''query''],
        nodeMods = [''dolev-strong''], viewNodeMods = [''dolev-strong'', ''ProposeString'']\<rparr>]"

datatype main_result = NotSupported | NilNode | Runs node

text \<open>The arguments of \<open>main\<close> when no flag is given.\<close>

definition default_args :: args where
  "default_args =
     \<lparr>arg_NodeID = 0, arg_NodeNum = 4, arg_ShardID = 0, arg_ShardNum = 1, arg_BlockSize = 500,
      arg_IsClient = False, arg_IsDistribute = False, arg_MaliciousRatio = f64_of_int 0, arg_ResilientRatio = one_half,
      arg_IsMalicious = False, arg_ConsensusMethod = ''Monoxide'', arg_TxType = ''UTXO'', arg_LogLevel = ''INFO'',
      arg_ConnetRemoteDemo = False, arg_TxInjectCount = 80000, arg_TxInjectSpeed = 4000\<rparr>"

text \<open>\<open>main\<close> after \<open>InitConfig\<close>, up to the call of \<open>Run\<close>.\<close>

definition role_mods :: "config \<Rightarrow> args \<Rightarrow> protocol_mods \<Rightarrow> string list" where
  "role_mods c a p =
     (if arg_IsClient a then clientMods p else if arg_NodeID a = ViewNodeId c then viewNodeMods p else nodeMods p)"

definition main_node :: "config \<Rightarrow> bool \<Rightarrow> args \<Rightarrow> panic + main_result" where
  "main_node c chain_ok a =
     (case PredefinedProtocolMods (arg_ConsensusMethod a) of
        None \<Rightarrow> Inr NotSupported
      | Some p \<Rightarrow>
          bindP (if arg_IsClient a then NewNode c chain_ok (ClientShard c) 0 (role_mods c a p)
                 else NewNode c chain_ok (arg_ShardID a) (arg_NodeID a) (role_mods c a p))
            (\<lambda>r. case r of None \<Rightarrow> Inr NilNode | Some n \<Rightarrow> Inr (Runs n)))"

section \<open>What main starts\<close>

lemma NewRunningMod_types:
  "NewRunningMod c ty = Inr (Some m) \<Longrightarrow> mod_type m = ty"
  by (auto simp: NewRunningMod_def find_Some_iff split: if_splits option.splits)

lemma NewRunningMod_known [simp]:
  "NewRunningMod c ''tbb'' = Inr (Some TBBCosensusMod)"
  "NewRunningMod c ''dolev-strong'' = Inr (Some DSCosensusMod)"
  "NewRunningMod c ''ProposeBlock'' = Inr (Some ProposeBlockAuxiliaryMod)"
  "NewRunningMod c ''ProposeString'' = Inr (Some ProposeStringAuxiliaryMod)"
  "NewRunningMod c ''testAuxiliary'' = Inr (Some TestAuxiliaryMod)"
  "NewRunningMod c ''test'' = Inr (Some SendTxTestMod)"
  "NewRunningMod c ''measure'' = Inr (Some MeasureMod)"
  "NewRunningMod c ''query'' = Inr (Some QueryMod)"
  "NewRunningMod c ''queryTBB'' = Inr (Some QueryTBBMod)"
  "NewRunningMod c ''startlocal'' = Inr (Some StartLocalSystemMod)"
  "NewRunningMod c ''stop'' = Inr (Some StopSystemMod)"
  "NewRunningMod c ''sendMimicContractTxs'' = Inr (Some SendMimicContractTxsMod)"
  "NewRunningMod c ''sendMimicAccountTxs'' = Inr (Some SendMimicAccountTxsMod)"
  "NewRunningMod c ''sendStringManual'' = Inr (Some SendStringManualMod)"
  by (simp_all add: NewRunningMod_def plain_mods_def)

lemma NewRunningMod_pbft [simp]:
  "NewRunningMod c ''pbft'' =
    (case NewPbftAddon (ConsensusMethod c) of None \<Rightarrow> Inl (LogPanic ''Error creating pbft addon module'')
     | Some k \<Rightarrow> Inr (Some (PbftCosensusMod k)))"
  by (simp add: NewRunningMod_def)

text \<open>The table after all registrations, when no message type is registered twice.\<close>

definition all_registered :: "config \<Rightarrow> int \<Rightarrow> running_mod list \<Rightarrow> (MessageType \<times> handler) list" where
  "all_registered c nid ms = concat (map (registered c nid) ms)"

lemma register_list_append: "register_list (xs @ ys) hs = register_list ys (register_list xs hs)"
  by (induction xs arbitrary: hs) auto

lemma register_mods_eq: "register_mods c nid ms hs = register_list (all_registered c nid ms) hs"
  by (induction ms arbitrary: hs) (simp_all add: all_registered_def register_list_append)

lemma register_list_map_of:
  "distinct (map fst rs) \<Longrightarrow> register_list rs hs = hs ++ map_of rs"
  by (induction rs arbitrary: hs) (auto simp: RegisterHandler_def map_add_upd_left dom_map_of_conv_image_fst)

definition no_overwrite :: "config \<Rightarrow> int \<Rightarrow> running_mod list \<Rightarrow> bool" where
  "no_overwrite c nid ms \<longleftrightarrow> distinct (map fst (all_registered c nid ms))"

lemma register_mods_distinct:
  "no_overwrite c nid ms \<Longrightarrow> register_mods c nid ms Map.empty = map_of (all_registered c nid ms)"
  by (simp add: no_overwrite_def register_mods_eq register_list_map_of)

lemma InitConfig_method: "InitConfig a0 c0 = Inr (a, c) \<Longrightarrow>
  ConsensusMethod c = arg_ConsensusMethod a \<and> arg_IsClient a = arg_IsClient a0 \<and>
  arg_ConsensusMethod a = arg_ConsensusMethod a0 \<and>
  (if arg_IsClient a then arg_ShardID a = ClientShard c \<and> arg_NodeID a = 0 \<and> node_ip c (ClientShard c) 0 = Some (ClientAddr c) else True)"
  by (auto simp: InitConfig_def Let_def bindP_eq_Inr_iff node_ip_def split: if_splits)

lemma NewNode_ok:
  assumes "sid = ClientShard c \<or> chain_ok" and "create_mods c tys [] = Inr (Some ms)" and "no_overwrite c nid ms"
  shows "\<exists>n. NewNode c chain_ok sid nid tys = Inr (Some n) \<and> RunningMods n = ms \<and> na_Sid (Attr n) = sid \<and>
    na_Nid (Attr n) = nid \<and> MsgHandlerMap n = map_of (all_registered c nid ms)"
  using assms by (auto simp: NewNode_def NewNodeAttr_def register_mods_distinct Let_def)

lemma create_mods_types:
  "create_mods c tys ms = Inr (Some ms') \<Longrightarrow> map mod_type ms' = map mod_type ms @ tys"
  by (induction tys arbitrary: ms) (auto simp: bindP_eq_Inr_iff dest!: NewRunningMod_types split: option.splits)

lemma predefined_cases:
  assumes "PredefinedProtocolMods m = Some p"
  shows "m \<in> {''Test'', ''Simple'', ''ClassicPBFT'', ''TBD'', ''TBB'', ''DS''}"
  using assms by (simp add: PredefinedProtocolMods_def split: if_splits)

lemma role_modules_created:
  assumes "PredefinedProtocolMods (ConsensusMethod c) = Some p" and "ConsensusMethod c \<noteq> ''ClassicPBFT'' \<or> arg_IsClient a"
  shows "\<exists>ms. create_mods c (role_mods c a p) [] = Inr (Some ms) \<and> no_overwrite c nid ms"
  using predefined_cases [OF assms(1)] assms
  by (auto simp: PredefinedProtocolMods_def role_mods_def NewPbftAddon_def no_overwrite_def all_registered_def Let_def)

lemma classic_pbft_panics:
  assumes "PredefinedProtocolMods (ConsensusMethod c) = Some p" and "ConsensusMethod c = ''ClassicPBFT''" and "\<not> arg_IsClient a"
  shows "create_mods c (role_mods c a p) [] = Inl (LogPanic ''Error creating pbft addon module'')"
  using assms by (auto simp: PredefinedProtocolMods_def role_mods_def NewPbftAddon_def)

lemma main_runs:
  assumes "InitConfig a0 c0 = Inr (a, c)" and "arg_IsClient a \<or> chain_ok"
    and "PredefinedProtocolMods (arg_ConsensusMethod a) = Some p" and "arg_ConsensusMethod a \<noteq> ''ClassicPBFT'' \<or> arg_IsClient a"
  shows "\<exists>n ms. main_node c chain_ok a = Inr (Runs n) \<and> create_mods c (role_mods c a p) [] = Inr (Some ms) \<and>
    RunningMods n = ms \<and> na_Sid (Attr n) = arg_ShardID a \<and> na_Nid (Attr n) = arg_NodeID a \<and>
    no_overwrite c (arg_NodeID a) ms \<and> MsgHandlerMap n = map_of (all_registered c (arg_NodeID a) ms)"
proof -
  note i = InitConfig_method [OF assms(1)]
  have args: "(if arg_IsClient a then NewNode c chain_ok (ClientShard c) 0 (role_mods c a p)
      else NewNode c chain_ok (arg_ShardID a) (arg_NodeID a) (role_mods c a p)) =
      NewNode c chain_ok (arg_ShardID a) (arg_NodeID a) (role_mods c a p)"
    using i by auto
  obtain ms where ms: "create_mods c (role_mods c a p) [] = Inr (Some ms)" "no_overwrite c (arg_NodeID a) ms"
    using role_modules_created [of c p a "arg_NodeID a"] assms(3,4) i by auto
  have "arg_ShardID a = ClientShard c \<or> chain_ok" using assms(2) i by auto
  from NewNode_ok [OF this ms] ms assms(3) show ?thesis
    by (auto simp: main_node_def args)
qed

text \<open>
  C30: What \<open>main\<close> starts, for every method and role: an unknown method is refused; each predefined protocol
  starts a node with exactly the modules of its role, in which no module overwrites another's handler; except that
  the nodes of \<open>ClassicPBFT\<close>, which has no addon, panic.  The nil node is never reached.
\<close>

theorem main_outcome:
  assumes "InitConfig a0 c0 = Inr (a, c)" and "arg_IsClient a \<or> chain_ok"
  shows "case PredefinedProtocolMods (arg_ConsensusMethod a0) of
      None \<Rightarrow> main_node c chain_ok a = Inr NotSupported
    | Some p \<Rightarrow>
        if arg_ConsensusMethod a0 = ''ClassicPBFT'' \<and> \<not> arg_IsClient a0
        then main_node c chain_ok a = Inl (LogPanic ''Error creating pbft addon module'')
        else \<exists>n. main_node c chain_ok a = Inr (Runs n) \<and> map mod_type (RunningMods n) = role_mods c a p \<and>
          na_Sid (Attr n) = arg_ShardID a \<and> na_Nid (Attr n) = arg_NodeID a \<and>
          no_overwrite c (arg_NodeID a) (RunningMods n) \<and>
          MsgHandlerMap n = map_of (all_registered c (arg_NodeID a) (RunningMods n))"
proof -
  note i = InitConfig_method [OF assms(1)]
  show ?thesis
  proof (cases "PredefinedProtocolMods (arg_ConsensusMethod a)")
    case None
    with i show ?thesis by (simp add: main_node_def)
  next
    case (Some p)
    show ?thesis
    proof (cases "arg_ConsensusMethod a = ''ClassicPBFT'' \<and> \<not> arg_IsClient a")
      case True
      then show ?thesis
        using assms(2) i Some classic_pbft_panics [of c p a] by (simp add: main_node_def NewNode_def NewNodeAttr_def Let_def)
    next
      case False
      then have "arg_ConsensusMethod a \<noteq> ''ClassicPBFT'' \<or> arg_IsClient a" by blast
      from main_runs [OF assms Some this] False i Some show ?thesis
        by (auto dest: create_mods_types)
    qed
  qed
qed

text \<open>
  The round timer and the proposer are on different nodes unless the view node is node 0: with
  Dolev-Strong the timer runs on node 0 (its view is always 0), while the handler it calls is installed on the node
  the configuration names; with another view node the timer of node 0 calls a nil function and brings node 0 down.
\<close>

theorem view_node_must_be_zero:
  assumes "InitConfig a0 c0 = Inr (a, c)" and "chain_ok" and "\<not> arg_IsClient a" and "arg_ConsensusMethod a = ''DS''"
    and "arg_NodeID a = 0" and "decode_time (msg_Content init) = Some t"
  shows "\<exists>n d. main_node c chain_ok a = Inr (Runs n) \<and>
    (d, DoneTimer) \<in> set (timers (fst (HandleInitMsg c now init (NewDSCosensusMod 0 ip sk t0)))) \<and>
    fst (snd (ds_fire ord DoneTimer (fst (HandleInitMsg c now init (NewDSCosensusMod 0 ip sk t0))))) = [CallHandler MsgConsensusDone] \<and>
    (call_handler (MsgHandlerMap n) MsgConsensusDone = Inl NilDereference \<longleftrightarrow> ViewNodeId c \<noteq> 0)"
proof -
  obtain p where p: "PredefinedProtocolMods (arg_ConsensusMethod a) = Some p"
    "role_mods c a p = (if ViewNodeId c = 0 then [''dolev-strong'', ''ProposeString''] else [''dolev-strong''])"
    using assms(3-5) by (auto simp: PredefinedProtocolMods_def role_mods_def)
  have "arg_IsClient a \<or> chain_ok" using assms(2) by simp
  from main_runs [OF assms(1) this p(1)] assms(4) p(2) obtain n where n: "main_node c chain_ok a = Inr (Runs n)"
    "MsgHandlerMap n = map_of (all_registered c (arg_NodeID a)
       (if ViewNodeId c = 0 then [DSCosensusMod, ProposeStringAuxiliaryMod] else [DSCosensusMod]))"
    by (force split: if_splits)
  moreover have "call_handler (MsgHandlerMap n) MsgConsensusDone = Inl NilDereference \<longleftrightarrow> ViewNodeId c \<noteq> 0"
    by (simp add: n(2) call_handler_def all_registered_def Let_def)
  moreover have "\<exists>d. (d, DoneTimer) \<in> set (timers (fst (HandleInitMsg c now init (NewDSCosensusMod 0 ip sk t0))))"
    using assms(6) by (simp add: HandleInitMsg_def NewDSCosensusMod_def Let_def)
  ultimately show ?thesis by (auto simp: ds_fire_def)
qed

text \<open>Started without flags the program refuses its own default method.\<close>

lemma default_method_refused: "main_node c chain_ok default_args = Inr NotSupported"
  by (simp add: main_node_def default_args_def PredefinedProtocolMods_def)

section \<open>Concrete processes\<close>

definition example_args :: args where
  "example_args = \<lparr>arg_NodeID = 0, arg_NodeNum = 4, arg_ShardID = 0, arg_ShardNum = 1, arg_BlockSize = 500,
     arg_IsClient = False, arg_IsDistribute = False, arg_MaliciousRatio = one_third, arg_ResilientRatio = one_half,
     arg_IsMalicious = False, arg_ConsensusMethod = ''DS'', arg_TxType = ''UTXO'', arg_LogLevel = ''INFO'',
     arg_ConnetRemoteDemo = False, arg_TxInjectCount = 80000, arg_TxInjectSpeed = 4000\<rparr>"

lemma example_args_init:
  "arg_IsDistribute a0 = False \<Longrightarrow> arg_IsClient a0 = False \<Longrightarrow>
   \<exists>c. InitConfig a0 c0 = Inr (a0, c) \<and> ViewNodeId c = ViewNodeId c0 \<and> ConsensusMethod c = arg_ConsensusMethod a0"
  by (simp add: InitConfig_def Let_def)

theorem main_outcome_witness:
  "\<exists>c. InitConfig (example_args\<lparr>arg_ConsensusMethod := ''ClassicPBFT''\<rparr>) example_config =
     Inr (example_args\<lparr>arg_ConsensusMethod := ''ClassicPBFT''\<rparr>, c) \<and>
   main_node c True (example_args\<lparr>arg_ConsensusMethod := ''ClassicPBFT''\<rparr>) =
     Inl (LogPanic ''Error creating pbft addon module'')"
proof -
  let ?a = "example_args\<lparr>arg_ConsensusMethod := ''ClassicPBFT''\<rparr>"
  obtain c where c: "InitConfig ?a example_config = Inr (?a, c)"
    using example_args_init [of ?a example_config] by (auto simp: example_args_def)
  from main_outcome [OF c, of True] c show ?thesis
    by (auto simp: PredefinedProtocolMods_def example_args_def)
qed

theorem view_node_must_be_zero_witness:
  "\<exists>c n. InitConfig example_args (example_config\<lparr>ViewNodeId := 2\<rparr>) = Inr (example_args, c) \<and>
     main_node c True example_args = Inr (Runs n) \<and> call_handler (MsgHandlerMap n) MsgConsensusDone = Inl NilDereference"
proof -
  obtain c where c: "InitConfig example_args (example_config\<lparr>ViewNodeId := 2\<rparr>) = Inr (example_args, c)" "ViewNodeId c = 2"
    using example_args_init [of example_args "example_config\<lparr>ViewNodeId := 2\<rparr>"] by (auto simp: example_args_def)
  have "\<exists>n d. main_node c True example_args = Inr (Runs n) \<and>
    (d, DoneTimer) \<in> set (timers (fst (HandleInitMsg c 0 ds_init (NewDSCosensusMod 0 ''n'' None 0)))) \<and>
    fst (snd (ds_fire rev DoneTimer (fst (HandleInitMsg c 0 ds_init (NewDSCosensusMod 0 ''n'' None 0))))) = [CallHandler MsgConsensusDone] \<and>
    (call_handler (MsgHandlerMap n) MsgConsensusDone = Inl NilDereference \<longleftrightarrow> ViewNodeId c \<noteq> 0)"
    by (rule view_node_must_be_zero [OF c(1)]) (simp_all add: example_args_def)
  with c show ?thesis by auto
qed

end
