(* ===== verification/Codecs.thy ===== *)
theory Codecs
  imports Prelude
begin

text \<open>
  The text encodings of the standard library that the program uses: hexadecimal (encoding/hex) and
  base64 with padding (encoding/base64), with their round trips.
\<close>

section \<open>encoding/hex\<close>

definition hex_digit :: "nat \<Rightarrow> char" where
  "hex_digit d = char_of (if d < 10 then 48 + d else 87 + d)"

definition EncodeToString :: "bytes \<Rightarrow> string" where
  "EncodeToString bs = concat (map (\<lambda>b. [hex_digit (of_char b div 16), hex_digit (of_char b mod 16)]) bs)"

lemma hex_digit_ascii: "d < 16 \<Longrightarrow> of_char (hex_digit d) < (128 :: int)"
proof -
  assume "d < 16"
  then have "of_char (hex_digit d) < (128 :: nat)" by (simp add: hex_digit_def)
  then have "int (of_char (hex_digit d)) < 128" by linarith
  then show ?thesis by (simp add: of_nat_of_char)
qed

lemma EncodeToString_length: "length (EncodeToString bs) = 2 * length bs"
  by (induction bs) (simp_all add: EncodeToString_def)

lemma EncodeToString_ascii:
  assumes "ch \<in> set (EncodeToString bs)"
  shows "of_char ch < (128 :: int)"
proof -
  from assms obtain b where "ch = hex_digit (of_char b div 16) \<or> ch = hex_digit (of_char b mod 16)"
    by (auto simp: EncodeToString_def)
  moreover have "of_char b div 16 < (16 :: nat)"
    using nat_of_char_less_256 [of b] by linarith
  ultimately show ?thesis by (auto intro: hex_digit_ascii)
qed

lemma hex_digit_inj: "d < 16 \<Longrightarrow> e < 16 \<Longrightarrow> hex_digit d = hex_digit e \<Longrightarrow> d = e"
  by (drule arg_cong [where f = "of_char :: char \<Rightarrow> nat"]) (simp add: hex_digit_def split: if_splits)

text \<open>The hexadecimal text determines the bytes.\<close>

lemma EncodeToString_inj: "EncodeToString bs = EncodeToString cs \<Longrightarrow> bs = cs"
proof (induction bs arbitrary: cs)
  case Nil
  then show ?case by (cases cs) (simp_all add: EncodeToString_def)
next
  case (Cons b bs)
  then obtain c cs' where cs: "cs = c # cs'" by (cases cs) (auto simp: EncodeToString_def)
  have small: "of_char x div 16 < (16 :: nat)" "of_char x mod 16 < (16 :: nat)" for x :: char
    using nat_of_char_less_256 [of x] by linarith+
  from Cons.prems cs have "of_char b div 16 = (of_char c div 16 :: nat)" "of_char b mod 16 = (of_char c mod 16 :: nat)"
    "EncodeToString bs = EncodeToString cs'"
    using hex_digit_inj small by (auto simp: EncodeToString_def)
  then have "(of_char b :: nat) = of_char c" "bs = cs'" using Cons.IH by (metis div_mult_mod_eq, blast)
  then show ?case by (simp add: cs)
qed

section \<open>encoding/base64\<close>

definition b64_alphabet :: string where
  "b64_alphabet = ''ABCDEFGHIJKLMNOPQRSTUVWXYZabcdefghijklmnopqrstuvwxyz0123456789+/''"

definition b64_char :: "nat \<Rightarrow> char" where
  "b64_char n = b64_alphabet ! n"

definition b64_val :: "char \<Rightarrow> nat option" where
  "b64_val = map_of (zip b64_alphabet [0..<64])"

fun b64_encode :: "bytes \<Rightarrow> string" where
  "b64_encode [] = []"
| "b64_encode [a] = (let x = of_char a in [b64_char (x div 4), b64_char (x mod 4 * 16), CHR ''='', CHR ''=''])"
| "b64_encode [a, b] =
     (let x = of_char a; y = of_char b in
      [b64_char (x div 4), b64_char (x mod 4 * 16 + y div 16), b64_char (y mod 16 * 4), CHR ''=''])"
| "b64_encode (a # b # c # cs) =
     (let x = of_char a; y = of_char b; z = of_char c in
      [b64_char (x div 4), b64_char (x mod 4 * 16 + y div 16), b64_char (y mod 16 * 4 + z div 64), b64_char (z mod 64)]
      @ b64_encode cs)"

fun b64_decode :: "string \<Rightarrow> bytes option" where
  "b64_decode [] = Some []"
| "b64_decode (a # b # c # d # cs) =
     (case (b64_val a, b64_val b) of
        (Some v, Some w) \<Rightarrow>
          if c = CHR ''='' then if d = CHR ''='' \<and> cs = [] then Some [char_of (v * 4 + w div 16)] else None
          else (case b64_val c of
            None \<Rightarrow> None
          | Some x \<Rightarrow>
              if d = CHR ''='' then if cs = [] then Some [char_of (v * 4 + w div 16), char_of (w mod 16 * 16 + x div 4)] else None
              else (case (b64_val d, b64_decode cs) of
                (Some y, Some bs) \<Rightarrow>
                  Some (char_of (v * 4 + w div 16) # char_of (w mod 16 * 16 + x div 4) # char_of (x mod 4 * 64 + y) # bs)
              | _ \<Rightarrow> None))
      | _ \<Rightarrow> None)"
| "b64_decode _ = None"

lemma b64_alphabet_facts:
  "length b64_alphabet = 64" "distinct b64_alphabet" "CHR ''='' \<notin> set b64_alphabet" "CHR 0x22 \<notin> set b64_alphabet"
  "CHR 0x0A \<notin> set b64_alphabet"
  by (simp_all add: b64_alphabet_def)

lemma b64_char_in: "n < 64 \<Longrightarrow> b64_char n \<in> set b64_alphabet"
  by (simp add: b64_char_def b64_alphabet_facts(1))

lemma b64_val_char [simp]: "n < 64 \<Longrightarrow> b64_val (b64_char n) = Some n"
  using map_of_zip_nth [of b64_alphabet "[0..<64]" n] b64_alphabet_facts(1,2) by (simp add: b64_val_def b64_char_def)

lemma b64_char_no_pad [simp]: "n < 64 \<Longrightarrow> b64_char n \<noteq> CHR ''=''"
  using b64_char_in b64_alphabet_facts(3) by metis

lemma byte_bound [simp]: "of_char (c :: char) < (256 :: nat)"
  using of_char_mod_256 [of c, where ?'a = nat] mod_less_divisor [of 256 "of_char c :: nat"] by simp

text \<open>The four six-bit digits of three bytes, and back.\<close>

lemma b64_digits [simp]:
  fixes x y z :: nat
  shows "x < 256 \<Longrightarrow> x div 4 < 64" "x mod 4 * 16 < 64" "y < 256 \<Longrightarrow> x mod 4 * 16 + y div 16 < 64" "y mod 16 * 4 < 64"
    "z < 256 \<Longrightarrow> y mod 16 * 4 + z div 64 < 64" "z mod 64 < 64"
proof -
  show "x mod 4 * 16 < 64" "y mod 16 * 4 < 64" using mod_less_divisor [of 4 x] mod_less_divisor [of 16 y] by linarith+
  show "x mod 4 * 16 + y div 16 < 64" if "y < 256"
    using mod_less_divisor [of 4 x] less_mult_imp_div_less [of y 16 16] that by linarith
  show "y mod 16 * 4 + z div 64 < 64" if "z < 256"
    using mod_less_divisor [of 16 y] less_mult_imp_div_less [of z 4 64] that by linarith
qed (simp_all add: less_mult_imp_div_less)

lemma b64_bytes [simp]:
  fixes x :: nat
  assumes "x < 256"
  shows "x div 16 div 16 = 0" "x div 16 mod 16 * 16 + x mod 16 = x" "x div 64 div 4 = 0" "x div 64 mod 4 * 64 + x mod 64 = x"
proof -
  show "x div 16 div 16 = 0" "x div 64 div 4 = 0" using assms by (simp_all flip: div_mult2_eq)
  then have "x div 16 mod 16 = x div 16" "x div 64 mod 4 = x div 64" by (simp_all add: div_eq_0_iff)
  then show "x div 16 mod 16 * 16 + x mod 16 = x" "x div 64 mod 4 * 64 + x mod 64 = x" by (simp_all add: div_mult_mod_eq)
qed

lemma b64_roundtrip: "b64_decode (b64_encode bs) = Some bs"
  by (induction bs rule: b64_encode.induct) (simp_all add: Let_def)

lemma b64_encode_set: "set (b64_encode bs) \<subseteq> insert (CHR ''='') (set b64_alphabet)"
  by (induction bs rule: b64_encode.induct) (auto simp: Let_def b64_char_in)
end
