(* ===== verification/SenderRun.thy ===== *)
theory SenderRun
  imports Senders Codecs
begin

text \<open>
  The \<open>Run\<close> methods of the client modules that send work: the wait for the system, then a loop over
  the events its \<open>select\<close> sees, ticks or input lines, until the context is done.
  (clientMod/sendMimicAccountTxs.go, sendMimicContractTxs.go, sendTxTest.go, sendStringManual.go.)
  The value of a run is \<open>None\<close> if the wait never ends, and otherwise a panic or everything sent.
\<close>

section \<open>Loops over a ticker\<close>

datatype 'a wakeup = CtxDone | Ticked 'a

text \<open>The end of the list is where the run stands, not where it ends.\<close>

fun ticker_loop :: "('a \<Rightarrow> panic + effect list) \<Rightarrow> 'a wakeup list \<Rightarrow> panic + effect list" where
  "ticker_loop body [] = Inr []"
| "ticker_loop body (CtxDone # es) = Inr []"
| "ticker_loop body (Ticked x # es) =
     bindP (body x) (\<lambda>out. bindP (ticker_loop body es) (\<lambda>rest. Inr (out @ rest)))"

definition after_wait :: "(bool \<times> nat) option \<Rightarrow> (panic + effect list) \<Rightarrow> (panic + effect list) option" where
  "after_wait w loop = (case w of None \<Rightarrow> None | Some (ready, _) \<Rightarrow> Some (if ready then loop else Inr []))"

text \<open>A random address of 20 bytes in hexadecimal.\<close>

definition randomAddr :: "bytes \<Rightarrow> string" where
  "randomAddr random = EncodeToString random"

text \<open>What a tick reads: the clock at each transaction, the random bytes and numbers, and the order of \<open>range\<close>.\<close>

record mimic_tick =
  mt_now :: "nat \<Rightarrow> time"
  mt_random :: "nat \<Rightarrow> bytes"
  mt_crypto :: "nat \<Rightarrow> int"
  mt_keys :: "int list"

definition account_tick ::
  "(bytes \<Rightarrow> bytes) \<Rightarrow> (bytes \<Rightarrow> bytes) \<Rightarrow> (account_transaction \<Rightarrow> bytes) \<Rightarrow> config \<Rightarrow> bigptr option \<Rightarrow> mimic_tick \<Rightarrow> transaction list" where
  "account_tick sha gb gob c zero t = generateMimicAccountTxs sha gb gob c (mt_now t) (\<lambda>i. randomAddr (mt_random t i)) zero"

definition contract_tick ::
  "(bytes \<Rightarrow> bytes) \<Rightarrow> (bytes \<Rightarrow> bytes) \<Rightarrow> (contract_transaction \<Rightarrow> bytes) \<Rightarrow> config \<Rightarrow> mimic_tick \<Rightarrow> transaction list" where
  "contract_tick sha gb gob c t = generateMimicContractTxs sha gb gob c (mt_now t) (\<lambda>i. randomAddr (mt_random t i)) (mt_crypto t)"

definition sendMimicAccountTxs_Run ::
  "(bytes \<Rightarrow> bytes) \<Rightarrow> (bytes \<Rightarrow> bytes) \<Rightarrow> (account_transaction \<Rightarrow> bytes) \<Rightarrow> config \<Rightarrow> bigptr option \<Rightarrow>
   (string \<Rightarrow> nat \<Rightarrow> bool) \<Rightarrow> (nat \<Rightarrow> time) \<Rightarrow> time \<Rightarrow> mimic_tick wakeup list \<Rightarrow> (panic + effect list) option" where
  "sendMimicAccountTxs_Run sha gb gob c zero up clk start es =
     after_wait (WaitForAllIPsReady c up clk start (10 * Second))
       (ticker_loop (\<lambda>t. send_txs c (mt_keys t) (account_tick sha gb gob c zero t)) es)"

definition sendMimicContractTxs_Run ::
  "(bytes \<Rightarrow> bytes) \<Rightarrow> (bytes \<Rightarrow> bytes) \<Rightarrow> (contract_transaction \<Rightarrow> bytes) \<Rightarrow> config \<Rightarrow>
   (string \<Rightarrow> nat \<Rightarrow> bool) \<Rightarrow> (nat \<Rightarrow> time) \<Rightarrow> time \<Rightarrow> mimic_tick wakeup list \<Rightarrow> (panic + effect list) option" where
  "sendMimicContractTxs_Run sha gb gob c up clk start es =
     after_wait (WaitForAllIPsReady c up clk start (10 * Second))
       (ticker_loop (\<lambda>t. send_txs c (mt_keys t) (contract_tick sha gb gob c t)) es)"

text \<open>The fixed batch of the test module; a value is its integer and the exponent 0.\<close>

definition utxo_in :: "string \<Rightarrow> int \<Rightarrow> tx_in" where
  "utxo_in a v = \<lparr>PrevTxId = [], in_Value = (v, 0), in_Index = 0, in_Addr = a\<rparr>"

definition utxo_out :: "string \<Rightarrow> int \<Rightarrow> tx_out" where
  "utxo_out a v = \<lparr>out_Value = (v, 0), out_Addr = a\<rparr>"

definition test_txs :: "time \<Rightarrow> transaction list" where
  "test_txs zero_time =
     [UTXOTransaction \<lparr>TxId = ''txid1'', Vin = [utxo_in ''addr1'' 10], Vout = [utxo_out ''addr2'' 7, utxo_out ''addr3'' 3],
        u_Nonce = 123, u_IsCoinbase = False, u_Time = zero_time\<rparr>,
      UTXOTransaction \<lparr>TxId = ''txid2'', Vin = [utxo_in ''addr3'' 101], Vout = [utxo_out ''addr4'' 71, utxo_out ''addr3'' 22],
        u_Nonce = 1233, u_IsCoinbase = False, u_Time = zero_time\<rparr>]"

definition sendTxTest_Run ::
  "config \<Rightarrow> time \<Rightarrow> (string \<Rightarrow> nat \<Rightarrow> bool) \<Rightarrow> (nat \<Rightarrow> time) \<Rightarrow> time \<Rightarrow> unit wakeup list \<Rightarrow> (panic + effect list) option" where
  "sendTxTest_Run c zero_time up clk start es =
     after_wait (WaitForAllIPsReady c up clk start (20 * Second))
       (ticker_loop (\<lambda>_. Inr (sendTxTest_tick c (test_txs zero_time))) es)"

section \<open>The interactive client\<close>

definition printWelcome :: "config \<Rightarrow> string list" where
  "printWelcome c =
     [replicate 60 (CHR ''=''), ''Interactive Blockchain Client'',
      ''Connected to Node ID: 0 | IP: '' @ ip_of c 0 0, ''Type '' @ [CHR 0x27] @ ''help'' @ [CHR 0x27] @ '' for available commands'',
      replicate 60 (CHR ''='')]"

text \<open>An event tells whether the select sees the done context; \<open>lines\<close> is what is typed.\<close>

fun input_loop :: "config \<Rightarrow> bool list \<Rightarrow> string list \<Rightarrow> effect list" where
  "input_loop c [] chan = []"
| "input_loop c (e # es) chan =
     (case sendString_iteration c e chan of None \<Rightarrow> [] | Some (rest, out) \<Rightarrow> out @ input_loop c es rest)"

definition sendStringManual_Run ::
  "config \<Rightarrow> (string \<Rightarrow> nat \<Rightarrow> bool) \<Rightarrow> (nat \<Rightarrow> time) \<Rightarrow> time \<Rightarrow> string list \<Rightarrow> bool list \<Rightarrow> (string list \<times> effect list) option" where
  "sendStringManual_Run c up clk start lines es =
     (case WaitForAllIPsReady c up clk start (20 * Second) of
        None \<Rightarrow> None
      | Some (ready, _) \<Rightarrow> Some (if ready then (printWelcome c, input_loop c es (inputRoutine lines)) else ([], [])))"

section \<open>What the runs send\<close>

lemma plain_random:
  assumes "To tx = [randomAddr r]" and "length r = 20"
  shows "plain_tx tx"
  using assms EncodeToString_ascii by (auto simp: plain_tx_def randomAddr_def EncodeToString_length)

lemma account_tick_plain:
  assumes "\<forall>i. length (mt_random t i) = 20"
  shows "\<forall>tx \<in> set (account_tick sha gb gob c zero t). plain_tx tx"
  using assms by (auto simp: account_tick_def generateMimicAccountTxs_def NewAccountTransaction_def Let_def intro!: plain_random)

lemma contract_tick_plain:
  assumes "\<forall>i. length (mt_random t i) = 20"
  shows "\<forall>tx \<in> set (contract_tick sha gb gob c t). plain_tx tx"
  using assms by (auto simp: contract_tick_def generateMimicContractTxs_def NewContractTransaction_def Let_def intro!: plain_random)

lemma tick_lengths:
  "length (account_tick sha gb gob c zero t) = nat (TxInjectSpeed c)"
  "length (contract_tick sha gb gob' c t) = nat (TxInjectSpeed c)"
  by (simp_all add: account_tick_def contract_tick_def generateMimicAccountTxs_def generateMimicContractTxs_def)

fun sent_txs :: "effect \<Rightarrow> nat" where
  "sent_txs (SendTo ip m) = (case msg_Content m of PTxs txs \<Rightarrow> length txs | _ \<Rightarrow> 0)"
| "sent_txs _ = 0"

definition to_its_shard :: "config \<Rightarrow> effect \<Rightarrow> bool" where
  "to_its_shard c e \<longleftrightarrow> (\<exists>sid txs. e = SendTo (ip_of c sid 0) \<lparr>MsgType = MsgInject, msg_Content = PTxs txs\<rparr> \<and>
     0 \<le> sid \<and> sid < ShardNum c \<and> txs \<noteq> [] \<and> (\<forall>tx \<in> set txs. target_shard c tx = sid))"

definition good_tick :: "config \<Rightarrow> mimic_tick \<Rightarrow> bool" where
  "good_tick c t \<longleftrightarrow> distinct (mt_keys t) \<and> set (mt_keys t) = {0..<ShardNum c} \<and> (\<forall>i. length (mt_random t i) = 20)"

definition delivers :: "config \<Rightarrow> nat \<Rightarrow> effect list \<Rightarrow> bool" where
  "delivers c n out \<longleftrightarrow> sum_list (map sent_txs out) = n \<and> (\<forall>e \<in> set out. to_its_shard c e)"

lemma tick_delivers:
  assumes "\<forall>tx \<in> set txs. plain_tx tx" and "ConsensusMethod c \<noteq> ''CShard''" and "0 < ShardNum c" and "good_tick c t"
  shows "\<exists>out. send_txs c (mt_keys t) txs = Inr out \<and> delivers c (length txs) out"
proof -
  from mimic_txs_routed [OF assms(1-3), of "mt_keys t"] assms(4) obtain sids where
    s: "send_txs c (mt_keys t) txs = Inr (map (\<lambda>sid. SendTo (ip_of c sid 0) \<lparr>MsgType = MsgInject,
        msg_Content = PTxs (filter (\<lambda>tx. target_shard c tx = sid) txs)\<rparr>) sids)"
      "set sids = target_shard c ` set txs" "set sids \<subseteq> {0..<ShardNum c}"
      "length (concat (map (\<lambda>sid. filter (\<lambda>tx. target_shard c tx = sid) txs) sids)) = length txs"
    by (auto simp: good_tick_def)
  let ?out = "map (\<lambda>sid. SendTo (ip_of c sid 0) \<lparr>MsgType = MsgInject,
        msg_Content = PTxs (filter (\<lambda>tx. target_shard c tx = sid) txs)\<rparr>) sids"
  have "to_its_shard c e" if "e \<in> set ?out" for e
  proof -
    from that obtain sid where e: "sid \<in> set sids" "e = SendTo (ip_of c sid 0) \<lparr>MsgType = MsgInject,
        msg_Content = PTxs (filter (\<lambda>tx. target_shard c tx = sid) txs)\<rparr>" by auto
    moreover from e(1) s(2) have "filter (\<lambda>tx. target_shard c tx = sid) txs \<noteq> []" by (auto simp: filter_empty_conv)
    moreover from e(1) s(3) have "0 \<le> sid \<and> sid < ShardNum c" by auto
    ultimately show ?thesis unfolding to_its_shard_def by auto
  qed
  moreover have "sum_list (map sent_txs ?out) = length txs"
    using s(4) by (simp add: length_concat o_def)
  ultimately show ?thesis using s(1) by (auto simp: delivers_def)
qed

lemma ticks_deliver:
  assumes "ConsensusMethod c \<noteq> ''CShard''" and "0 < ShardNum c"
    and "\<forall>t \<in> set ts. good_tick c t \<and> (\<forall>tx \<in> set (gen t). plain_tx tx) \<and> length (gen t) = n"
  shows "\<exists>out. ticker_loop (\<lambda>t. send_txs c (mt_keys t) (gen t)) (map Ticked ts @ CtxDone # es) = Inr out \<and>
    delivers c (length ts * n) out"
  using assms(3)
proof (induction ts)
  case Nil
  then show ?case by (simp add: delivers_def)
next
  case (Cons t ts)
  then obtain out where "ticker_loop (\<lambda>t. send_txs c (mt_keys t) (gen t)) (map Ticked ts @ CtxDone # es) = Inr out"
    "delivers c (length ts * n) out" by auto
  moreover from Cons.prems tick_delivers [OF _ assms(1,2)] obtain out' where
    "send_txs c (mt_keys t) (gen t) = Inr out'" "delivers c n out'" by force
  ultimately show ?case by (auto simp: delivers_def)
qed

text \<open>
  A run of either sender that found the system up and saw \<open>k\<close> ticks before it was stopped ends without a panic and
  has sent \<open>k\<close> times the configured number of transactions, each to the view node of the shard its recipient belongs
  to, and nothing else.  With random addresses of 20 bytes every address has a shard.
\<close>

theorem mimic_run_delivers:
  assumes "WaitForAllIPsReady c up clk start (10 * Second) = Some (True, k)"
    and "ConsensusMethod c \<noteq> ''CShard''" and "0 < ShardNum c" and "\<forall>t \<in> set ts. good_tick c t"
  shows "\<exists>out out'. sendMimicAccountTxs_Run sha gb gob c zero up clk start (map Ticked ts @ CtxDone # es) = Some (Inr out) \<and>
    sendMimicContractTxs_Run sha gb gob' c up clk start (map Ticked ts @ CtxDone # es) = Some (Inr out') \<and>
    delivers c (length ts * nat (TxInjectSpeed c)) out \<and> delivers c (length ts * nat (TxInjectSpeed c)) out'"
proof -
  have "\<forall>t \<in> set ts. good_tick c t \<and> (\<forall>tx \<in> set (account_tick sha gb gob c zero t). plain_tx tx) \<and>
      length (account_tick sha gb gob c zero t) = nat (TxInjectSpeed c)"
    using assms(4) account_tick_plain unfolding good_tick_def tick_lengths by blast
  note account = ticks_deliver [OF assms(2,3) this, of es]
  have "\<forall>t \<in> set ts. good_tick c t \<and> (\<forall>tx \<in> set (contract_tick sha gb gob' c t). plain_tx tx) \<and>
      length (contract_tick sha gb gob' c t) = nat (TxInjectSpeed c)"
    using assms(4) contract_tick_plain unfolding good_tick_def tick_lengths by blast
  note ticks_deliver [OF assms(2,3) this, of es] account
  with assms(1) show ?thesis
    by (auto simp: sendMimicAccountTxs_Run_def sendMimicContractTxs_Run_def after_wait_def)
qed

text \<open>
  The interactive client handles the lines typed before it is stopped in their order, and nothing after; a
  system that does not come up in time gets nothing.
\<close>

lemma input_loop_typed:
  "length chan = n \<Longrightarrow> input_loop c (replicate n False @ True # es) chan = concat (map (processInput c) chan)"
  by (induction chan arbitrary: n) (auto simp: sendString_iteration_def)

theorem typed_lines_in_order:
  assumes "n = length (inputRoutine lines)"
  shows "sendStringManual_Run c up clk start lines (replicate n False @ True # es) =
    (case WaitForAllIPsReady c up clk start (20 * Second) of
       None \<Rightarrow> None
     | Some (True, _) \<Rightarrow> Some (printWelcome c, concat (map (processInput c) (inputRoutine lines)))
     | Some (False, _) \<Rightarrow> Some ([], []))"
  using input_loop_typed [of "inputRoutine lines" n c es] assms
  by (auto simp: sendStringManual_Run_def split: option.splits bool.splits)

definition tick_at :: "nat \<Rightarrow> mimic_tick" where
  "tick_at k = \<lparr>mt_now = (\<lambda>i. int i), mt_random = (\<lambda>i. replicate 20 (char_of (i + k))), mt_crypto = (\<lambda>i. int i), mt_keys = [0]\<rparr>"

definition slow_sender :: config where
  "slow_sender = two_nodes\<lparr>TxInjectSpeed := 3\<rparr>"

theorem mimic_run_delivers_witness:
  "\<exists>out. sendMimicAccountTxs_Run (\<lambda>b. b) (\<lambda>b. b) (\<lambda>_. []) slow_sender None late_up second_clock 0
     [Ticked (tick_at 0), Ticked (tick_at 5), CtxDone] = Some (Inr out) \<and> sum_list (map sent_txs out) = 6"
proof -
  have "WaitForAllIPsReady slow_sender late_up second_clock 0 (10 * Second) = Some (True, 4)"
    by (simp add: WaitForAllIPsReady_def slow_sender_def two_nodes_def all_ips_def ip_of_def example_config_def upto.simps
        wait_ip.simps late_up_def second_clock_def Second_def Millisecond_def)
  moreover have good: "good_tick slow_sender (tick_at k)" for k
    by (auto simp: good_tick_def tick_at_def slow_sender_def two_nodes_def example_config_def)
  ultimately show ?thesis
    using mimic_run_delivers [of slow_sender late_up second_clock 0 4 "[tick_at 0, tick_at 5]" "\<lambda>b. b" "\<lambda>b. b" "\<lambda>_. []" None "[]" "\<lambda>_. []"]
    by (auto simp: delivers_def slow_sender_def two_nodes_def example_config_def)
qed

end
