(* ===== verification/Lifecycle.thy ===== *)
theory Lifecycle
  imports System SenderRun
begin

text \<open>
  The life of a process (node/node.go, \<open>Run\<close>; node/p2p/p2p.go, \<open>StartListen\<close>): the stop handler is installed, the node
  listens, each running module gets a goroutine, and the process waits for a stop message or a
  signal and then for all modules.  Of a module's \<open>Run\<close> the model keeps where it stands and how it can
  go on, since its work is the subject of the other theories; whether the port can be bound is an
  argument.
\<close>

section \<open>Where the modules stand\<close>

datatype run_pc =
    Entering        \<comment> \<open>the goroutine has not begun\<close>
  | Starting        \<comment> \<open>in \<open>WaitForAllIPsReady\<close>\<close>
  | AtSelect        \<comment> \<open>at the top of the loop\<close>
  | Working         \<comment> \<open>in the body of the loop\<close>
  | RoundWait       \<comment> \<open>waiting for the end of a round or the context\<close>
  | AwaitCtx        \<comment> \<open>at a bare \<open><-ctx.Done()\<close>\<close>
  | Finishing       \<comment> \<open>sending stop messages or writing results\<close>
  | Returned

datatype run_kind =
    AtOnce          \<comment> \<open>returns without waiting\<close>
  | UntilDone bool  \<comment> \<open>waits for the context; whether it can fail before\<close>
  | Polls bool      \<comment> \<open>\<open>select\<close> with a default; whether the body may wait for a round\<close>
  | Ticks           \<comment> \<open>waits for the system, then selects between the context and a ticker or the input\<close>

fun runs_as :: "config \<Rightarrow> int \<Rightarrow> running_mod \<Rightarrow> run_kind" where
  "runs_as c nid (PbftCosensusMod k) = (if nid \<noteq> ViewNodeId c then AtOnce else Polls True)"
| "runs_as c nid TBBCosensusMod = AtOnce"
| "runs_as c nid DSCosensusMod = AtOnce"
| "runs_as c nid ProposeTxsAuxiliaryMod = Polls False"
| "runs_as c nid ProposeBlockAuxiliaryMod = Polls False"
| "runs_as c nid ProposeStringAuxiliaryMod = Polls True"
| "runs_as c nid TestAuxiliaryMod = Polls False"
| "runs_as c nid SendTxTestMod = Ticks"
| "runs_as c nid MeasureMod = UntilDone True"
| "runs_as c nid QueryMod = AtOnce"
| "runs_as c nid QueryTBBMod = UntilDone False"
| "runs_as c nid StartLocalSystemMod = AtOnce"
| "runs_as c nid StopSystemMod = UntilDone False"
| "runs_as c nid SendMimicContractTxsMod = Ticks"
| "runs_as c nid SendMimicAccountTxsMod = Ticks"
| "runs_as c nid SendStringManualMod = Ticks"

text \<open>
  The positions a goroutine can reach next.  A \<open>select\<close> with a default takes a done context; one
  between two ready channels takes either.
\<close>

fun run_next :: "run_kind \<Rightarrow> bool \<Rightarrow> run_pc \<Rightarrow> run_pc list" where
  "run_next AtOnce done Entering = [Returned]"
| "run_next (UntilDone fails) done Entering = AwaitCtx # (if fails then [Returned] else [])"
| "run_next (Polls rounds) done Entering = [AtSelect]"
| "run_next Ticks done Entering = [Starting]"
| "run_next k done Starting = [AtSelect, Returned]"
| "run_next Ticks done AtSelect = (if done then [Returned] else []) @ [Working]"
| "run_next k done AtSelect = (if done then [Returned] else [Working])"
| "run_next (Polls True) done Working = [AtSelect, RoundWait]"
| "run_next k done Working = [AtSelect]"
| "run_next k done RoundWait = (if done then [Returned] else []) @ [AtSelect]"
| "run_next k done AwaitCtx = (if done then [Finishing] else [])"
| "run_next k done Finishing = [Returned]"
| "run_next k done Returned = []"

section \<open>Processes\<close>

datatype main_pc = MainSelect | MainWait | MainReturned

record proc =
  p_node :: node
  p_listening :: bool
  p_done :: bool              \<comment> \<open>the context is cancelled\<close>
  p_signal :: bool            \<comment> \<open>SIGINT or SIGTERM is in \<open>sigChan\<close>\<close>
  p_pcs :: "run_pc list"
  p_wg :: int
  p_main :: main_pc

text \<open>\<open>StartListen\<close> only logs that the port is taken; the node goes on deaf.\<close>

definition StartListen :: "bool \<Rightarrow> proc \<Rightarrow> proc" where
  "StartListen bound p = (if bound then p\<lparr>p_listening := True\<rparr> else p)"

definition node_Run :: "bool \<Rightarrow> node \<Rightarrow> proc" where
  "node_Run bound n =
     StartListen bound
       \<lparr>p_node = install_stop n, p_listening = False, p_done = False, p_signal = False,
        p_pcs = map (\<lambda>_. Entering) (RunningMods n), p_wg = int (length (RunningMods n)), p_main = MainSelect\<rparr>"

datatype proc_event =
    Receive message       \<comment> \<open>a message arrives and its handler runs\<close>
  | Signal
  | Module nat nat        \<comment> \<open>the module and the choice among its next positions\<close>
  | Main

definition kind_of :: "config \<Rightarrow> proc \<Rightarrow> nat \<Rightarrow> run_kind" where
  "kind_of c p k = runs_as c (na_Nid (Attr (p_node p))) (RunningMods (p_node p) ! k)"

definition module_step :: "config \<Rightarrow> nat \<Rightarrow> nat \<Rightarrow> proc \<Rightarrow> proc" where
  "module_step c k j p =
     (if k < length (p_pcs p) then
        (let nx = run_next (kind_of c p k) (p_done p) (p_pcs p ! k) in
         if j < length nx then
           p\<lparr>p_pcs := (p_pcs p)[k := nx ! j], p_wg := (if nx ! j = Returned then p_wg p - 1 else p_wg p)\<rparr>
         else p)
      else p)"

definition main_step :: "proc \<Rightarrow> proc" where
  "main_step p =
     (case p_main p of
        MainSelect \<Rightarrow>
          if p_done p then p\<lparr>p_main := MainWait\<rparr>
          else if p_signal p then p\<lparr>p_done := True, p_main := MainWait\<rparr>
          else p
      | MainWait \<Rightarrow> if p_wg p = 0 then p\<lparr>p_main := MainReturned\<rparr> else p
      | MainReturned \<Rightarrow> p)"

text \<open>After \<open>Run\<close> has returned the process is gone.\<close>

fun proc_step :: "config \<Rightarrow> proc_event \<Rightarrow> proc \<Rightarrow> proc" where
  "proc_step c e p =
     (if p_main p = MainReturned then p
      else case e of
        Receive m \<Rightarrow>
          if p_listening p \<and> handler_for (MsgHandlerMap (p_node p)) m = Some (''node'', ''cancel'')
          then p\<lparr>p_done := True\<rparr> else p
      | Signal \<Rightarrow> p\<lparr>p_signal := True\<rparr>
      | Module k j \<Rightarrow> module_step c k j p
      | Main \<Rightarrow> main_step p)"

definition proc_run :: "config \<Rightarrow> proc_event list \<Rightarrow> proc \<Rightarrow> proc" where
  "proc_run c es p = fold (proc_step c) es p"
section \<open>Stopping\<close>

lemma proc_run_simps [simp]:
  "proc_run c [] p = p"
  "proc_run c (e # es) p = proc_run c es (proc_step c e p)"
  "proc_run c (es @ es') p = proc_run c es' (proc_run c es p)"
  by (simp_all add: proc_run_def)

definition running :: "proc \<Rightarrow> nat" where
  "running p = length (filter (\<lambda>pc. pc \<noteq> Returned) (p_pcs p))"

definition proc_inv :: "node \<Rightarrow> proc \<Rightarrow> bool" where
  "proc_inv n p \<longleftrightarrow> p_node p = install_stop n \<and> length (p_pcs p) = length (RunningMods n) \<and> p_wg p = int (running p) \<and>
     (p_main p \<noteq> MainSelect \<longrightarrow> p_done p) \<and> (p_main p = MainReturned \<longrightarrow> running p = 0)"

lemma running_update:
  assumes "k < length xs" and "xs ! k \<noteq> Returned"
  shows "length (filter (\<lambda>pc. pc \<noteq> Returned) (xs[k := x])) + (if x = Returned then 1 else 0) =
    length (filter (\<lambda>pc. pc \<noteq> Returned) xs)"
  using assms
proof (induction xs arbitrary: k)
  case (Cons y ys)
  then show ?case by (cases k) auto
qed simp

lemma running_zero: "running p = 0 \<longleftrightarrow> (\<forall>pc \<in> set (p_pcs p). pc = Returned)"
  by (simp add: running_def filter_empty_conv)

lemma no_way_back: "j < length (run_next k d pc) \<Longrightarrow> pc \<noteq> Returned"
  by auto

lemma proc_inv_module:
  assumes "proc_inv n p" and "p_main p \<noteq> MainReturned"
  shows "proc_inv n (module_step c k j p)"
proof (cases "k < length (p_pcs p) \<and> j < length (run_next (kind_of c p k) (p_done p) (p_pcs p ! k))")
  case True
  then have "p_pcs p ! k \<noteq> Returned" using no_way_back by blast
  with running_update [of k "p_pcs p" "run_next (kind_of c p k) (p_done p) (p_pcs p ! k) ! j"] True assms
  show ?thesis by (auto simp: module_step_def Let_def proc_inv_def running_def split: if_splits)
next
  case False
  with assms(1) show ?thesis by (auto simp: module_step_def Let_def)
qed

lemma proc_inv_step: "proc_inv n p \<Longrightarrow> proc_inv n (proc_step c e p)"
  by (cases "p_main p = MainReturned"; cases e)
    (auto simp: proc_inv_module; auto simp: proc_inv_def main_step_def running_def split: main_pc.splits)+

lemma proc_inv_run: "proc_inv n p \<Longrightarrow> proc_inv n (proc_run c es p)"
  by (induction es arbitrary: p) (simp_all del: proc_step.simps add: proc_inv_step)

lemma proc_inv_start: "proc_inv n (node_Run bound n)"
  by (simp add: proc_inv_def node_Run_def StartListen_def running_def)

text \<open>
  With a done context every position has a way out: the first one listed brings the module closer to its
  return.  Only a module at a \<open>select\<close> without default can also move away from it.
\<close>

fun run_rank :: "run_pc \<Rightarrow> nat" where
  "run_rank Entering = 4"
| "run_rank Working = 3"
| "run_rank Starting = 2"
| "run_rank RoundWait = 2"
| "run_rank AwaitCtx = 2"
| "run_rank AtSelect = 1"
| "run_rank Finishing = 1"
| "run_rank Returned = 0"

lemma rank_first:
  "pc \<noteq> Returned \<Longrightarrow> run_next k True pc \<noteq> [] \<and> run_rank (run_next k True pc ! 0) < run_rank pc"
  by (cases "(k, True, pc)" rule: run_next.cases) auto

lemma rank_any:
  "k \<noteq> Ticks \<Longrightarrow> x \<in> set (run_next k True pc) \<Longrightarrow> run_rank x < run_rank pc"
  by (cases "(k, True, pc)" rule: run_next.cases) (auto split: if_splits)

definition rank :: "proc \<Rightarrow> nat" where
  "rank p = sum_list (map run_rank (p_pcs p)) + (case p_main p of MainSelect \<Rightarrow> 2 | MainWait \<Rightarrow> 1 | MainReturned \<Rightarrow> 0)"

lemma sum_list_update_less:
  fixes f :: "'a \<Rightarrow> nat"
  assumes "k < length xs" and "f x < f (xs ! k)"
  shows "sum_list (map f (xs[k := x])) < sum_list (map f xs)"
  using assms
proof (induction xs arbitrary: k)
  case (Cons y ys)
  then show ?case by (cases k) auto
qed simp

text \<open>The steps the process takes by itself.\<close>

definition own :: "proc_event \<Rightarrow> bool" where
  "own e \<longleftrightarrow> e = Main \<or> (\<exists>k j. e = Module k j)"

lemma own_step_lowers:
  assumes "own e" and "p_done p" and "proc_step c e p \<noteq> p" and "\<forall>k < length (p_pcs p). kind_of c p k \<noteq> Ticks"
  shows "rank (proc_step c e p) < rank p"
proof (cases "e = Main")
  case True
  with assms(2,3) show ?thesis by (auto simp: main_step_def rank_def split: main_pc.splits if_splits)
next
  case False
  with assms(1) obtain k j where e: "e = Module k j" by (auto simp: own_def)
  let ?nx = "run_next (kind_of c p k) (p_done p) (p_pcs p ! k)"
  from e assms(3) have k: "k < length (p_pcs p)" "j < length ?nx" "p_main p \<noteq> MainReturned"
    by (auto simp: module_step_def Let_def split: if_splits)
  then have "?nx ! j \<in> set ?nx" by simp
  then have "run_rank (?nx ! j) < run_rank (p_pcs p ! k)"
    using rank_any [of "kind_of c p k"] assms(2,4) k(1) by simp
  from sum_list_update_less [of k "p_pcs p" run_rank, OF k(1) this] k e
  show ?thesis by (auto simp: module_step_def Let_def rank_def)
qed

lemma not_returned_progress:
  assumes "proc_inv n p" and "p_done p" and "p_main p \<noteq> MainReturned"
  shows "\<exists>e. own e \<and> rank (proc_step c e p) < rank p"
proof (cases "p_main p = MainWait \<and> running p \<noteq> 0")
  case True
  then obtain k where k: "k < length (p_pcs p)" "p_pcs p ! k \<noteq> Returned"
    by (auto simp: running_zero in_set_conv_nth)
  from rank_first [OF k(2), of "kind_of c p k"] assms(2)
  have f: "0 < length (run_next (kind_of c p k) (p_done p) (p_pcs p ! k))"
    "run_rank (run_next (kind_of c p k) (p_done p) (p_pcs p ! k) ! 0) < run_rank (p_pcs p ! k)" by auto
  from sum_list_update_less [of k "p_pcs p" run_rank, OF k(1) f(2)] k f(1) assms(3)
  have "rank (proc_step c (Module k 0) p) < rank p" by (auto simp: module_step_def Let_def rank_def)
  then show ?thesis by (intro exI [of _ "Module k 0"]) (simp add: own_def del: proc_step.simps)
next
  case False
  with assms have "rank (proc_step c Main p) < rank p"
    by (cases "p_main p") (auto simp: main_step_def rank_def proc_inv_def)
  then show ?thesis by (auto simp: own_def)
qed

lemma done_stays: "p_done p \<Longrightarrow> p_done (proc_step c e p)"
  by (cases e) (auto simp: module_step_def main_step_def Let_def split: main_pc.splits)

lemma way_out:
  assumes "proc_inv n p" and "p_done p"
  shows "\<exists>es. p_main (proc_run c es p) = MainReturned \<and> length es \<le> rank p \<and> (\<forall>e \<in> set es. own e)"
  using assms
proof (induction "rank p" arbitrary: p rule: less_induct)
  case less
  show ?case
  proof (cases "p_main p = MainReturned")
    case True
    then show ?thesis by (intro exI [of _ "[]"]) simp
  next
    case False
    with not_returned_progress [OF less.prems] obtain e where e: "own e" "rank (proc_step c e p) < rank p" by blast
    from less.hyps [OF e(2) proc_inv_step [OF less.prems(1)] done_stays [OF less.prems(2)]] obtain es where
      "p_main (proc_run c es (proc_step c e p)) = MainReturned" "length es \<le> rank (proc_step c e p)" "\<forall>x \<in> set es. own x"
      by blast
    with e show ?thesis by (intro exI [of _ "e # es"]) (simp del: proc_step.simps)
  qed
qed

lemma rank_bound: "proc_inv n p \<Longrightarrow> rank p \<le> 4 * length (RunningMods n) + 2"
proof -
  assume "proc_inv n p"
  moreover have "sum_list (map run_rank xs) \<le> 4 * length xs" for xs
  proof (induction xs)
    case (Cons x xs)
    moreover have "run_rank x \<le> 4" by (cases x) auto
    ultimately show ?case by simp
  qed simp
  from this [of "p_pcs p"] show ?thesis
    using calculation by (auto simp: rank_def proc_inv_def split: main_pc.splits)
qed

section \<open>Nodes of a running system\<close>

lemma registered_not_node: "(t, ''node'', h) \<notin> set (registered c nid m)"
  by (cases m) (auto simp: with_m_def)

lemma register_mods_not_node:
  assumes "hs t \<noteq> Some (''node'', h)"
  shows "register_mods c nid ms hs t \<noteq> Some (''node'', h)"
proof -
  have "register_list rs hs t \<noteq> Some (''node'', h)" if "\<forall>r \<in> set rs. fst (snd r) \<noteq> ''node''" for rs
    using that assms by (induction rs arbitrary: hs) (auto simp: RegisterHandler_def)
  moreover have "\<forall>r \<in> set (all_registered c nid ms). fst (snd r) \<noteq> ''node''"
    using registered_not_node by (force simp: all_registered_def)
  ultimately show ?thesis by (simp add: register_mods_eq)
qed

lemma stop_handler:
  assumes "NewNode c chain_ok sid nid tys = Inr (Some n)"
  shows "handler_for (MsgHandlerMap (install_stop n)) m = Some (''node'', ''cancel'') \<longleftrightarrow> MsgType m = MsgStop"
proof -
  from assms obtain ms where "MsgHandlerMap n = register_mods c nid ms Map.empty"
    by (auto simp: NewNode_def bindP_eq_Inr_iff split: option.splits)
  with register_mods_not_node [of Map.empty "MsgType m" "''cancel''" c nid ms] show ?thesis
    by (auto simp: handler_for_def install_stop_def RegisterHandler_def)
qed

lemma proc_run_frame: "p_node (proc_run c es p) = p_node p \<and> p_listening (proc_run c es p) = p_listening p"
proof (induction es arbitrary: p)
  case (Cons e es)
  have "p_node (proc_step c e p) = p_node p \<and> p_listening (proc_step c e p) = p_listening p"
    by (cases e) (auto simp: module_step_def main_step_def Let_def split: main_pc.splits)
  with Cons show ?case by (simp del: proc_step.simps)
qed simp

definition stop_cause :: "proc \<Rightarrow> proc_event list \<Rightarrow> bool" where
  "stop_cause p es \<longleftrightarrow> Signal \<in> set es \<or>
     (p_listening p \<and> (\<exists>m. Receive m \<in> set es \<and> handler_for (MsgHandlerMap (p_node p)) m = Some (''node'', ''cancel'')))"

lemma done_has_cause:
  "p_done (proc_run c es p) \<or> p_signal (proc_run c es p) \<Longrightarrow> p_done p \<or> p_signal p \<or> stop_cause p es"
proof (induction es rule: rev_induct)
  case (snoc e es)
  let ?q = "proc_run c es p"
  have f: "p_node ?q = p_node p" "p_listening ?q = p_listening p" using proc_run_frame [of c es p] by simp_all
  have "p_done ?q \<or> p_signal ?q \<or> stop_cause p [e]"
    using snoc.prems f
    by (cases e) (auto simp: stop_cause_def module_step_def main_step_def Let_def split: main_pc.splits if_splits)
  with snoc.IH show ?case by (auto simp: stop_cause_def)
qed auto

text \<open>
  A process ends in order: its wait group never goes negative, it returns only after every module has returned, and it
  stops only for a signal or, if it could bind its port, a stop message; no handler of a module replaces the stop handler.
\<close>

theorem process_ends_in_order:
  assumes "NewNode c chain_ok sid nid tys = Inr (Some n)" and "p = proc_run c' es (node_Run bound n)"
  shows "0 \<le> p_wg p \<and>
    (p_main p = MainReturned \<longrightarrow> (\<forall>pc \<in> set (p_pcs p). pc = Returned) \<and>
       (Signal \<in> set es \<or> bound \<and> (\<exists>m. Receive m \<in> set es \<and> MsgType m = MsgStop)))"
proof -
  have inv: "proc_inv n p" using proc_inv_run [OF proc_inv_start] assms(2) by simp
  have start: "p_node (node_Run bound n) = install_stop n" "p_listening (node_Run bound n) = bound"
    "\<not> p_done (node_Run bound n)" "\<not> p_signal (node_Run bound n)"
    by (simp_all add: node_Run_def StartListen_def)
  have "Signal \<in> set es \<or> bound \<and> (\<exists>m. Receive m \<in> set es \<and> MsgType m = MsgStop)" if "p_done p"
    using done_has_cause [of c' es "node_Run bound n"] that assms(2) start
    by (auto simp: stop_cause_def stop_handler [OF assms(1)])
  with inv show ?thesis by (auto simp: proc_inv_def running_zero [symmetric])
qed

text \<open>
  C33: The stop module of the client stops every node: when the client ends it sends each address of the system
  a stop message, and a process that listens there, wherever it stands, is then at most four steps per module and two of its own
  away from its end.
\<close>

theorem client_stops_nodes:
  assumes "(i, j) \<in> set (all_nodes c)" and "NewNode c' chain_ok i j tys = Inr (Some n)"
    and "p = proc_run c' es (node_Run True n)"
  shows "\<exists>m es'. SendTo (ip_of c i j) m \<in> set (StopSystem_Run c) \<and>
    p_main (proc_run c' (Receive m # es') p) = MainReturned \<and>
    length es' \<le> 4 * length (RunningMods n) + 2 \<and> (\<forall>e \<in> set es'. own e)"
proof -
  let ?m = "\<lparr>MsgType = MsgStop, msg_Content = Garbage []\<rparr>"
  let ?q = "proc_step c' (Receive ?m) p"
  have sent: "SendTo (ip_of c i j) ?m \<in> set (StopSystem_Run c)"
    using assms(1) by (force simp: StopSystem_Run_def)
  have inv: "proc_inv n p" using proc_inv_run [OF proc_inv_start] assms(3) by simp
  have "p_listening p" "p_node p = install_stop n"
    using proc_run_frame [of c' es "node_Run True n"] assms(3) by (simp_all add: node_Run_def StartListen_def)
  with stop_handler [OF assms(2), of ?m] inv have "p_done ?q" by (auto simp: proc_inv_def)
  moreover have q: "proc_inv n ?q" using proc_inv_step [OF inv] .
  ultimately obtain es' where "p_main (proc_run c' es' ?q) = MainReturned" "length es' \<le> rank ?q" "\<forall>e \<in> set es'. own e"
    using way_out by blast
  with sent rank_bound [OF q] show ?thesis
    by (intro exI [of _ ?m] exI [of _ es']) (simp del: proc_step.simps)
qed

fun own_changes :: "config \<Rightarrow> proc_event list \<Rightarrow> proc \<Rightarrow> nat" where
  "own_changes c [] p = 0"
| "own_changes c (e # es) p =
     (if own e \<and> proc_step c e p \<noteq> p then 1 else 0) + own_changes c es (proc_step c e p)"

lemma own_changes_bounded:
  assumes "proc_inv n p" and "p_done p" and "\<forall>m \<in> set (RunningMods n). runs_as c (na_Nid (Attr n)) m \<noteq> Ticks"
  shows "own_changes c es p \<le> rank p"
  using assms(1,2)
proof (induction es arbitrary: p)
  case (Cons e es)
  let ?q = "proc_step c e p"
  have IH: "own_changes c es ?q \<le> rank ?q"
    by (rule Cons.IH [OF proc_inv_step [OF Cons.prems(1)] done_stays [OF Cons.prems(2)]])
  have t: "\<forall>k < length (p_pcs p). kind_of c p k \<noteq> Ticks"
    using Cons.prems(1) assms(3) by (auto simp: kind_of_def proc_inv_def install_stop_def)
  show ?case
  proof (cases "own e \<and> ?q \<noteq> p")
    case True
    with own_step_lowers [OF _ Cons.prems(2) _ t] IH show ?thesis by (fastforce simp del: proc_step.simps)
  next
    case False
    then have "rank ?q = rank p"
      by (cases e) (auto simp: own_def rank_def split: if_splits)
    with IH False show ?thesis by (auto simp del: proc_step.simps)
  qed
qed simp

lemma ticking_types:
  "runs_as c nid m = Ticks \<Longrightarrow>
   mod_type m \<in> {''test'', ''sendMimicContractTxs'', ''sendMimicAccountTxs'', ''sendStringManual''}"
  by (cases m) (simp_all split: if_splits)

lemma shard_mods_do_not_tick:
  assumes "main_node c chain_ok a = Inr (Runs n)" and "\<not> arg_IsClient a" and "m \<in> set (RunningMods n)"
  shows "runs_as c nid m \<noteq> Ticks"
proof -
  from assms(1,2) obtain p where p: "PredefinedProtocolMods (arg_ConsensusMethod a) = Some p"
    "NewNode c chain_ok (arg_ShardID a) (arg_NodeID a) (role_mods c a p) = Inr (Some n)"
    by (auto simp: main_node_def bindP_eq_Inr_iff split: option.splits)
  then have types: "map mod_type (RunningMods n) = role_mods c a p"
    by (auto simp: NewNode_def bindP_eq_Inr_iff dest!: create_mods_types split: option.splits)
  have roles: "set (role_mods c a p) \<subseteq> {''pbft'', ''tbb'', ''dolev-strong'', ''ProposeBlock'', ''ProposeString'', ''testAuxiliary''}"
    using p(1) assms(2) by (auto simp: role_mods_def PredefinedProtocolMods_def split: if_splits)
  have "mod_type m \<in> set (map mod_type (RunningMods n))" using assms(3) by simp
  then have "mod_type m \<in> {''pbft'', ''tbb'', ''dolev-strong'', ''ProposeBlock'', ''ProposeString'', ''testAuxiliary''}"
    unfolding types by (rule subsetD [OF roles])
  then show ?thesis using ticking_types [of c nid m] by fastforce
qed

text \<open>
  C34: The nodes of the predefined protocols always stop: once the context of a process that is no client is
  cancelled, its modules and its main goroutine take at most four steps per module and two more between
  them, however they are scheduled, and when none of them can go on the process has ended.
\<close>

theorem shard_node_stops:
  assumes "main_node c chain_ok a = Inr (Runs n)" and "\<not> arg_IsClient a"
    and "p = proc_run c es (node_Run bound n)" and "p_done p"
  shows "own_changes c es' p \<le> 4 * length (RunningMods n) + 2 \<and>
    ((\<forall>e. own e \<longrightarrow> proc_step c e (proc_run c es' p) = proc_run c es' p) \<longrightarrow> p_main (proc_run c es' p) = MainReturned)"
proof
  have inv: "proc_inv n p" using proc_inv_run [OF proc_inv_start] assms(3) by simp
  have "\<forall>m \<in> set (RunningMods n). runs_as c (na_Nid (Attr n)) m \<noteq> Ticks"
    using shard_mods_do_not_tick [OF assms(1,2)] by blast
  from own_changes_bounded [OF inv assms(4) this, of es'] rank_bound [OF inv]
  show "own_changes c es' p \<le> 4 * length (RunningMods n) + 2" by linarith
  have "p_done (proc_run c es' p)"
    using assms(4) by (induction es' rule: rev_induct) (simp_all add: done_stays del: proc_step.simps)
  from not_returned_progress [OF proc_inv_run [OF inv] this, of c] show "(\<forall>e. own e \<longrightarrow> proc_step c e (proc_run c es' p) = proc_run c es' p) \<longrightarrow> p_main (proc_run c es' p) = MainReturned"
    by (metis less_irrefl)
qed

section \<open>Concrete runs\<close>

definition ds_node :: node where
  "ds_node = \<lparr>Attr = \<lparr>na_Sid = 0, na_Nid = 0, na_Ipaddr = [], na_hasChain = True\<rparr>,
     RunningMods = [DSCosensusMod, ProposeStringAuxiliaryMod],
     MsgHandlerMap = register_mods example_config 0 [DSCosensusMod, ProposeStringAuxiliaryMod] Map.empty\<rparr>"

lemma ds_node_built:
  "NewNode example_config True 0 0 [''dolev-strong'', ''ProposeString''] = Inr (Some ds_node)"
  "main_node example_config True example_args = Inr (Runs ds_node)"
  by (simp_all add: NewNode_def NewNodeAttr_def main_node_def role_mods_def PredefinedProtocolMods_def ds_node_def
      example_config_def example_args_def node_ip_def)

definition half_way :: "proc_event list" where
  "half_way = [Module 1 0, Module 0 0, Module 1 0, Module 1 1, Signal, Main]"

theorem process_ends_in_order_witness:
  "let p = proc_run example_config (half_way @ [Module 1 0, Main]) (node_Run False ds_node) in
     p_main p = MainReturned \<and> p_pcs p = [Returned, Returned] \<and> 0 \<le> p_wg p"
  using process_ends_in_order [OF ds_node_built(1) refl, where c' = example_config and es = "half_way @ [Module 1 0, Main]" and bound = False]
  by (simp add: Let_def half_way_def ds_node_def node_Run_def StartListen_def module_step_def main_step_def kind_of_def
      install_stop_def)

theorem client_stops_nodes_witness:
  "\<exists>m es'. SendTo (ip_of example_config 0 0) m \<in> set (StopSystem_Run example_config) \<and>
     p_main (proc_run example_config (Receive m # es') (proc_run example_config [Module 1 0] (node_Run True ds_node))) = MainReturned \<and>
     length es' \<le> 10 \<and> (\<forall>e \<in> set es'. own e)"
  using client_stops_nodes [OF _ ds_node_built(1) refl, where c = example_config and es = "[Module 1 0]"]
  by (simp add: ds_node_def all_nodes_def example_config_def upto.simps)

theorem shard_node_stops_witness:
  "own_changes example_config [Module 1 0, Main, Main] (proc_run example_config half_way (node_Run False ds_node)) = 2 \<and>
   own_changes example_config [Module 1 0, Main, Main] (proc_run example_config half_way (node_Run False ds_node)) \<le> 10"
proof
  have s: "p_done (proc_run example_config half_way (node_Run False ds_node))"
    by (simp add: half_way_def ds_node_def node_Run_def StartListen_def module_step_def main_step_def kind_of_def install_stop_def)
  show "own_changes example_config [Module 1 0, Main, Main] (proc_run example_config half_way (node_Run False ds_node)) \<le> 10"
    using shard_node_stops [OF ds_node_built(2) _ refl s, of "[Module 1 0, Main, Main]"]
    by (simp add: example_args_def ds_node_def del: proc_step.simps own_changes.simps)
  show "own_changes example_config [Module 1 0, Main, Main] (proc_run example_config half_way (node_Run False ds_node)) = 2"
    by (simp add: half_way_def ds_node_def node_Run_def StartListen_def module_step_def main_step_def kind_of_def install_stop_def own_def)
qed

end
