(* ===== verification/Logging.thy ===== *)
theory Logging
  imports Config
begin

text \<open>
  The logger (utils/logger.go) and its extension that sends records to the demo server
  (utils/remoteLogger.go).  The formatted text, the time stamp and what \<open>runtime.Caller\<close> returns
  are arguments; a log call yields what it writes and where.  The connection of
  the WebSocket library is a value that is handed to that library; a missing one is \<open>None\<close>, a nil pointer.
\<close>

section \<open>State and construction\<close>

text \<open>\<open>DEBUG\<close>, \<open>INFO\<close>, \<open>WARN\<close>, \<open>ERROR\<close>, \<open>NONE\<close> are 0 to 4.\<close>

definition str2Level :: "string \<Rightarrow> int" where
  "str2Level s =
     (if s = ''DEBUG'' then 0 else if s = ''INFO'' then 1 else if s = ''WARN'' then 2
      else if s = ''ERROR'' then 3 else if s = ''NONE'' then 4 else 1)"

datatype sink = Stdout | LogFile string

record 'ws logger =
  lg_sinks :: "sink list"
  lg_prefix :: string
  lg_level :: int
  lg_shardID :: int
  lg_nodeID :: int
  lg_wsConn :: "'ws option"

record log_message =
  lm_ShardID :: int
  lm_NodeID :: int
  lm_Level :: string
  lm_Timestamp :: string
  lm_Message :: string
  lm_Source :: string

text \<open>\<open>alive\<close> is the result of the ping, \<open>dial url\<close> the connection \<open>Dial\<close> returns, if any.\<close>

definition initWebSocket :: "config \<Rightarrow> ('ws \<Rightarrow> bool) \<Rightarrow> (string \<Rightarrow> 'ws option) \<Rightarrow> 'ws logger \<Rightarrow> 'ws logger" where
  "initWebSocket c alive dial l =
     (let url = ''ws://'' @ DemoServerURL c @ ''/api/log'' in
      if \<not> ConnectRemoteDemo c then l
      else case lg_wsConn l of
        None \<Rightarrow> l\<lparr>lg_wsConn := dial url\<rparr>
      | Some w \<Rightarrow> if alive w then l else l\<lparr>lg_wsConn := dial url\<rparr>)"

definition log_prefix :: "args \<Rightarrow> string" where
  "log_prefix a =
     (if arg_IsClient a then ''[Client]''
      else ''[S'' @ Itoa (arg_ShardID a) @ ''N'' @ Itoa (arg_NodeID a) @ '']'')"

definition log_file :: "config \<Rightarrow> args \<Rightarrow> string" where
  "log_file c a =
     (if arg_IsClient a then LogPath c @ ''client.log''
      else LogPath c @ ''S'' @ Itoa (arg_ShardID a) @ ''N'' @ Itoa (arg_NodeID a) @ ''.log'')"

text \<open>\<open>opens\<close> tells whether a file can be opened for appending; \<open>None\<close> is a nil logger and an error.\<close>

definition NewLogger ::
  "config \<Rightarrow> (string \<Rightarrow> bool) \<Rightarrow> ('ws \<Rightarrow> bool) \<Rightarrow> (string \<Rightarrow> 'ws option) \<Rightarrow> args \<Rightarrow> string \<Rightarrow> bool \<Rightarrow> bool \<Rightarrow>
   'ws logger option" where
  "NewLogger c opens alive dial a level toStdout toFile =
     (let f = log_file c a;
          new = (\<lambda>sinks. Some (initWebSocket c alive dial
            \<lparr>lg_sinks = sinks, lg_prefix = log_prefix a, lg_level = str2Level level,
             lg_shardID = arg_ShardID a, lg_nodeID = arg_NodeID a, lg_wsConn = None\<rparr>)) in
      if \<not> toFile then new [Stdout]
      else if \<not> opens f then None
      else new (LogFile f # (if toStdout then [Stdout] else [])))"

definition lg_SetPrefix :: "string \<Rightarrow> 'ws logger \<Rightarrow> 'ws logger" where
  "lg_SetPrefix p l = l\<lparr>lg_prefix := p\<rparr>"

definition lg_SetLevel :: "int \<Rightarrow> 'ws logger \<Rightarrow> 'ws logger" where
  "lg_SetLevel n l = l\<lparr>lg_level := n\<rparr>"

section \<open>Log calls\<close>

text \<open>\<open>filepath.Base\<close>: the last element of a path.\<close>

definition Base :: "string \<Rightarrow> string" where
  "Base p =
     (let q = rev (dropWhile (\<lambda>c. c = CHR ''/'') (rev p)) in
      if p = [] then ''.''
      else if q = [] then ''/''
      else rev (takeWhile (\<lambda>c. c \<noteq> CHR ''/'') (rev q)))"

definition getCallerInfo :: "(string \<times> int) option \<Rightarrow> string" where
  "getCallerInfo r = (case r of None \<Rightarrow> [] | Some (f, n) \<Rightarrow> Base f @ '':'' @ Itoa n)"

datatype 'ws log_out =
    Written "sink list" string               \<comment> \<open>a line, without its newline\<close>
  | WriteMessage "'ws option" log_message    \<comment> \<open>the connection and the record sent over it\<close>

record log_env =
  le_caller :: "(string \<times> int) option"
  le_now :: string
  le_text :: string

definition sendLogToUI :: "config \<Rightarrow> log_env \<Rightarrow> string \<Rightarrow> 'ws logger \<Rightarrow> 'ws log_out list" where
  "sendLogToUI c e levelStr l =
     (if \<not> ConnectRemoteDemo c then []
      else [WriteMessage (lg_wsConn l)
        \<lparr>lm_ShardID = lg_shardID l, lm_NodeID = lg_nodeID l, lm_Level = levelStr, lm_Timestamp = le_now e,
         lm_Message = le_text e, lm_Source = getCallerInfo (le_caller e)\<rparr>])"

definition lg_log :: "config \<Rightarrow> log_env \<Rightarrow> int \<Rightarrow> string \<Rightarrow> 'ws logger \<Rightarrow> 'ws log_out list" where
  "lg_log c e level levelStr l =
     (if lg_level l \<le> level then
        if ConnectRemoteDemo c \<and> lg_shardID l \<noteq> ClientShard c then sendLogToUI c e levelStr l
        else [Written (lg_sinks l)
          (lg_prefix l @ '': ['' @ levelStr @ ''] '' @ getCallerInfo (le_caller e) @ '' '' @ le_now e @ '' '' @ le_text e)]
      else [])"

text \<open>The methods on the shared variable \<open>LoggerInstance\<close>; a nil logger panics when its mutex is taken.\<close>

definition on_logger :: "('ws logger \<Rightarrow> 'ws log_out list) \<Rightarrow> 'ws logger option \<Rightarrow> panic + 'ws log_out list" where
  "on_logger f l = (case l of None \<Rightarrow> Inl NilDereference | Some x \<Rightarrow> Inr (f x))"

definition log_Debug :: "config \<Rightarrow> log_env \<Rightarrow> 'ws logger option \<Rightarrow> panic + 'ws log_out list" where
  "log_Debug c e = on_logger (lg_log c e 0 ''DEBUG'')"

definition log_Info :: "config \<Rightarrow> log_env \<Rightarrow> 'ws logger option \<Rightarrow> panic + 'ws log_out list" where
  "log_Info c e = on_logger (lg_log c e 1 ''INFO'')"

definition log_Warn :: "config \<Rightarrow> log_env \<Rightarrow> 'ws logger option \<Rightarrow> panic + 'ws log_out list" where
  "log_Warn c e = on_logger (lg_log c e 2 ''WARN'')"

definition log_Error :: "config \<Rightarrow> log_env \<Rightarrow> 'ws logger option \<Rightarrow> panic + 'ws log_out list" where
  "log_Error c e = on_logger (lg_log c e 3 ''ERROR'')"

lemmas log_calls = log_Debug_def log_Info_def log_Warn_def log_Error_def on_logger_def

text \<open>The loggers a process has: the one of \<open>init\<close>, before the flags are read, and the one \<open>main\<close> makes, ignoring its error.\<close>

definition zero_args :: args where
  "zero_args = \<lparr>arg_NodeID = 0, arg_NodeNum = 0, arg_ShardID = 0, arg_ShardNum = 0, arg_BlockSize = 0, arg_IsClient = False,
     arg_IsDistribute = False, arg_MaliciousRatio = \<lparr>mant = 0, expo = 0\<rparr>, arg_ResilientRatio = \<lparr>mant = 0, expo = 0\<rparr>,
     arg_IsMalicious = False, arg_ConsensusMethod = [], arg_TxType = [], arg_LogLevel = [], arg_ConnetRemoteDemo = False,
     arg_TxInjectCount = 0, arg_TxInjectSpeed = 0\<rparr>"

definition init_logger :: "config \<Rightarrow> (string \<Rightarrow> bool) \<Rightarrow> ('ws \<Rightarrow> bool) \<Rightarrow> (string \<Rightarrow> 'ws option) \<Rightarrow> 'ws logger option" where
  "init_logger c opens alive dial = NewLogger c opens alive dial zero_args ''DEBUG'' True False"

definition main_logger :: "config \<Rightarrow> (string \<Rightarrow> bool) \<Rightarrow> ('ws \<Rightarrow> bool) \<Rightarrow> (string \<Rightarrow> 'ws option) \<Rightarrow> args \<Rightarrow> 'ws logger option" where
  "main_logger c opens alive dial a = NewLogger c opens alive dial a (arg_LogLevel a) True True"
section \<open>Where the lines go\<close>

definition target :: "config \<Rightarrow> log_env \<Rightarrow> string \<Rightarrow> 'ws logger \<Rightarrow> 'ws log_out" where
  "target c e levelStr l = hd (lg_log c e (lg_level l) levelStr l)"

lemma main_logger_Some:
  "main_logger c opens alive dial a = Some l \<longleftrightarrow>
     opens (log_file c a) \<and>
     l = \<lparr>lg_sinks = [LogFile (log_file c a), Stdout], lg_prefix = log_prefix a, lg_level = str2Level (arg_LogLevel a),
          lg_shardID = arg_ShardID a, lg_nodeID = arg_NodeID a,
          lg_wsConn = (if ConnectRemoteDemo c then dial (''ws://'' @ DemoServerURL c @ ''/api/log'') else None)\<rparr>"
  by (auto simp: main_logger_def NewLogger_def initWebSocket_def Let_def)

lemma digits_no_letter: "CHR ''N'' \<notin> set (digits n) \<and> CHR ''.'' \<notin> set (digits n)"
proof (induction n rule: digits.induct)
  case (1 n)
  have "digit d \<noteq> CHR ''N'' \<and> digit d \<noteq> CHR ''.''" if "d < 10" for d
    using of_char_digit [OF that] that by (auto simp: of_char_def)
  then have "CHR ''N'' \<noteq> digit d \<and> CHR ''.'' \<noteq> digit d" if "d < 10" for d
    using that by metis
  with 1 show ?case by (cases "n < 10") (simp_all add: digits.simps [of n])
qed

lemma Itoa_no_letter: "CHR ''N'' \<notin> set (Itoa n)" "CHR ''.'' \<notin> set (Itoa n)"
  using digits_no_letter by (auto simp: Itoa_def)

lemma split_at_letter:
  assumes "x @ ch # y = x' @ ch # y'" and "ch \<notin> set x" and "ch \<notin> set x'"
  shows "x = x' \<and> y = y'"
  using assms by (auto simp: append_eq_append_conv2 append_eq_Cons_conv Cons_eq_append_conv)

lemma log_file_inj:
  assumes "log_file c a = log_file c b"
  shows "arg_IsClient a = arg_IsClient b \<and>
    (arg_IsClient a \<or> arg_ShardID a = arg_ShardID b \<and> arg_NodeID a = arg_NodeID b)"
proof (cases "arg_IsClient a \<or> arg_IsClient b")
  case True
  with assms show ?thesis by (cases "arg_IsClient a"; cases "arg_IsClient b") (simp_all add: log_file_def)
next
  case False
  with assms have "Itoa (arg_ShardID a) @ CHR ''N'' # (Itoa (arg_NodeID a) @ ''.log'') =
      Itoa (arg_ShardID b) @ CHR ''N'' # (Itoa (arg_NodeID b) @ ''.log'')"
    by (simp add: log_file_def)
  from split_at_letter [OF this] have "Itoa (arg_ShardID a) = Itoa (arg_ShardID b)" "Itoa (arg_NodeID a) = Itoa (arg_NodeID b)"
    by (simp_all add: Itoa_no_letter)
  with False show ?thesis by (auto dest: Itoa_inj)
qed

text \<open>
  The processes of a system do not mix their logs: what a process logs goes to the terminal, to the demo server
  under its own identifiers, or to a file that no process with another role or identifier writes.
\<close>

theorem logs_not_mixed:
  assumes "main_logger c opens alive dial a = Some l" and "main_logger c opens' alive' dial' b = Some l'"
    and "Written fs t \<in> set (lg_log c e lv s l)" and "Written fs' t' \<in> set (lg_log c e' lv' s' l')"
    and "LogFile f \<in> set fs" and "LogFile f \<in> set fs'"
  shows "arg_IsClient a = arg_IsClient b \<and> (arg_IsClient a \<or> arg_ShardID a = arg_ShardID b \<and> arg_NodeID a = arg_NodeID b)"
proof (rule log_file_inj)
  from assms(1,3,5) have "f = log_file c a"
    by (auto simp: main_logger_Some lg_log_def sendLogToUI_def split: if_splits)
  moreover from assms(2,4,6) have "f = log_file c b"
    by (auto simp: main_logger_Some lg_log_def sendLogToUI_def split: if_splits)
  ultimately show "log_file c a = log_file c b" by simp
qed

text \<open>
  The level of the flags decides which calls are seen: each of the four methods emits one record exactly if the
  configured level is not above its own; an unknown level counts as \<open>INFO\<close>, and \<open>NONE\<close> silences all.
\<close>

theorem level_filters:
  assumes "main_logger c opens alive dial a = Some l"
  shows "map (map_sum id length) [log_Debug c e (Some l), log_Info c e (Some l), log_Warn c e (Some l), log_Error c e (Some l)] =
    map (\<lambda>b. Inr (if b then 1 else 0))
      (let s = arg_LogLevel a in
       [s = ''DEBUG'', s \<notin> {''WARN'', ''ERROR'', ''NONE''}, s \<notin> {''ERROR'', ''NONE''}, s \<noteq> ''NONE''])"
  using assms by (auto simp: main_logger_Some log_calls lg_log_def sendLogToUI_def str2Level_def)

text \<open>
  Two failures at start surface later.  If the log file cannot be opened, \<open>main\<close> keeps a nil logger and the first log
  call brings the process down, whatever its level.  If the demo server cannot be reached, a node hands a nil
  connection to the WebSocket library with every record it logs.
\<close>

theorem logger_failures:
  "(log_Debug c e (main_logger c opens alive dial a) = Inl NilDereference \<longleftrightarrow> \<not> opens (log_file c a)) \<and>
   (opens (log_file c a) \<and> ConnectRemoteDemo c \<and> arg_ShardID a \<noteq> ClientShard c \<and>
      dial (''ws://'' @ DemoServerURL c @ ''/api/log'') = None \<and> arg_LogLevel a \<noteq> ''NONE'' \<longrightarrow>
    (\<exists>r. log_Error c e (main_logger c opens alive dial a) = Inr [WriteMessage None r] \<and>
      (lm_ShardID r, lm_NodeID r, lm_Message r) = (arg_ShardID a, arg_NodeID a, le_text e)))"
proof (intro conjI impI)
  show "log_Debug c e (main_logger c opens alive dial a) = Inl NilDereference \<longleftrightarrow> \<not> opens (log_file c a)"
    by (auto simp: main_logger_def NewLogger_def log_calls Let_def split: option.splits)
next
  assume *: "opens (log_file c a) \<and> ConnectRemoteDemo c \<and> arg_ShardID a \<noteq> ClientShard c \<and>
      dial (''ws://'' @ DemoServerURL c @ ''/api/log'') = None \<and> arg_LogLevel a \<noteq> ''NONE''"
  then obtain l where l: "main_logger c opens alive dial a = Some l"
    by (simp add: main_logger_def NewLogger_def Let_def)
  moreover have "str2Level (arg_LogLevel a) \<le> 3" using * by (simp add: str2Level_def)
  moreover from l * have "lg_shardID l = arg_ShardID a" "lg_nodeID l = arg_NodeID a" "lg_wsConn l = None"
    "lg_level l = str2Level (arg_LogLevel a)"
    by (simp_all add: main_logger_Some)
  ultimately show "\<exists>r. log_Error c e (main_logger c opens alive dial a) = Inr [WriteMessage None r] \<and>
      (lm_ShardID r, lm_NodeID r, lm_Message r) = (arg_ShardID a, arg_NodeID a, le_text e)"
    using * by (simp add: log_calls lg_log_def sendLogToUI_def)
qed

definition at_node :: "int \<Rightarrow> int \<Rightarrow> args" where
  "at_node s n = example_args\<lparr>arg_ShardID := s, arg_NodeID := n\<rparr>"

definition log_at :: log_env where
  "log_at = \<lparr>le_caller = Some (''/src/node/node.go'', 36), le_now = ''12:00:00.000'', le_text = ''hello''\<rparr>"

theorem logs_not_mixed_witness:
  "\<exists>l :: unit logger. main_logger example_config (\<lambda>_. True) (\<lambda>_. True) Map.empty (at_node 1 2) = Some l \<and>
     LogFile ''./log/S1N2.log'' \<in> set (lg_sinks l) \<and> \<not> arg_IsClient (at_node 1 2)"
proof -
  have numerals: "Itoa 1 = ''1''" "Itoa 2 = ''2''" "Itoa 36 = ''36''" by code_simp+
  obtain l :: "unit logger" where l: "main_logger example_config (\<lambda>_. True) (\<lambda>_. True) Map.empty (at_node 1 2) = Some l"
    by (simp add: main_logger_Some)
  have "lg_log example_config log_at 3 ''ERROR'' l = [Written [LogFile ''./log/S1N2.log'', Stdout] ''[S1N2]: [ERROR] node.go:36 12:00:00.000 hello'']"
    using l unfolding main_logger_Some
    by (simp add: lg_log_def str2Level_def example_config_def at_node_def example_args_def log_file_def log_prefix_def
        log_at_def getCallerInfo_def Base_def Let_def numerals)
  then have "arg_IsClient (at_node 1 2) = arg_IsClient (at_node 1 2) \<and> (arg_IsClient (at_node 1 2) \<or> True)"
    using logs_not_mixed [OF l l, of _ _ log_at 3 "''ERROR''" _ _ log_at 3 "''ERROR''" "''./log/S1N2.log''"] by simp
  with l show ?thesis by (auto simp: main_logger_Some at_node_def example_args_def log_file_def example_config_def numerals)
qed

end
