(* ===== verification/ViewNode.thy ===== *)
theory ViewNode
  imports Proposers TBB
begin

text \<open>
  The view node of a string protocol: the proposer module ProposeString together with the
  consensus module whose handlers it calls (Dolev-Strong or TBB).  The proposer waits for the
  signal \<open>ConsensusDone\<close> that the consensus module's goroutines send at the end of a round.  The
  locale \<open>round_module\<close> is the interface: how many end-of-round goroutines an \<open>Init\<close> starts and
  that nothing else starts one.  The two interpretations differ in that number.
\<close>

text \<open>
  \<open>recv\<close> is a call of a handler, \<open>fire\<close> one end-of-round goroutine that wakes up (if one is due),
  and \<open>other\<close> everything else that happens to the module.
\<close>

record 'm view_sys =
  v_pc :: string_pc
  v_prop :: propose_string
  v_cons :: 'm
  v_log :: "action list"

datatype 'o view_event = VInject message | VRun time bool bool | VDone time | VOther 'o

fun local_calls :: "(time \<Rightarrow> message \<Rightarrow> 'm \<Rightarrow> 'm) \<Rightarrow> time \<Rightarrow> action list \<Rightarrow> 'm \<Rightarrow> 'm" where
  "local_calls recv now [] m = m"
| "local_calls recv now (Local msg # as) m = local_calls recv now as (recv now msg m)"
| "local_calls recv now (Out e # as) m = local_calls recv now as m"

fun view_step ::
  "(time \<Rightarrow> message \<Rightarrow> 'm \<Rightarrow> 'm) \<Rightarrow> (time \<Rightarrow> 'm \<Rightarrow> 'm option) \<Rightarrow> ('o \<Rightarrow> 'm \<Rightarrow> 'm) \<Rightarrow>
   config \<Rightarrow> bls \<Rightarrow> hash_env \<Rightarrow> 'o view_event \<Rightarrow> 'm view_sys \<Rightarrow> 'm view_sys" where
  "view_step recv fire other c B H (VInject msg) v = v\<lparr>v_prop := psm_handleInject msg (v_prop v)\<rparr>"
| "view_step recv fire other c B H (VRun now cancelled pick) v =
     (case string_step c B H now cancelled pick (v_pc v) (v_prop v) of
        None \<Rightarrow> v
      | Some (pc, s, as) \<Rightarrow>
          v\<lparr>v_pc := pc, v_prop := s, v_cons := local_calls recv now as (v_cons v), v_log := v_log v @ as\<rparr>)"
| "view_step recv fire other c B H (VDone now) v =
     (case fire now (v_cons v) of
        None \<Rightarrow> v
      | Some m \<Rightarrow> v\<lparr>v_cons := m, v_prop := psm_handleConsensusDone (v_prop v)\<rparr>)"
| "view_step recv fire other c B H (VOther x) v = v\<lparr>v_cons := other x (v_cons v)\<rparr>"

fun view_run ::
  "(time \<Rightarrow> message \<Rightarrow> 'm \<Rightarrow> 'm) \<Rightarrow> (time \<Rightarrow> 'm \<Rightarrow> 'm option) \<Rightarrow> ('o \<Rightarrow> 'm \<Rightarrow> 'm) \<Rightarrow>
   config \<Rightarrow> bls \<Rightarrow> hash_env \<Rightarrow> 'o view_event list \<Rightarrow> 'm view_sys \<Rightarrow> 'm view_sys" where
  "view_run recv fire other c B H [] v = v"
| "view_run recv fire other c B H (e # es) v =
     view_run recv fire other c B H es (view_step recv fire other c B H e v)"

definition view_start :: "int \<Rightarrow> bytes option \<Rightarrow> 'm \<Rightarrow> 'm view_sys" where
  "view_start sid sk m =
     \<lparr>v_pc = Polling, v_prop = NewProposeStringAuxiliaryMod sid sk, v_cons = m, v_log = []\<rparr>"

section \<open>The contract of a consensus module with its proposer\<close>

text \<open>The proposer calls the module with \<open>Init\<close> and propose messages only.\<close>

definition calls_ok :: "action list \<Rightarrow> bool" where
  "calls_ok as \<longleftrightarrow> (\<forall>msg. Local msg \<in> set as \<longrightarrow> msg \<in> range init_msg \<union> range propose_of)"

lemma calls_ok_simps [simp]:
  "calls_ok []" "calls_ok (Out e # as) = calls_ok as"
  "calls_ok (Local msg # as) \<longleftrightarrow> msg \<in> range init_msg \<union> range propose_of \<and> calls_ok as"
  by (auto simp: calls_ok_def)

lemma string_step_calls:
  "string_step c B H now cancelled pick pc s = Some (pc', s', as) \<Longrightarrow> calls_ok as"
  by (cases pc) (auto simp: string_propose_def Let_def split: if_splits option.splits)

locale round_module =
  fixes ok :: "'m \<Rightarrow> bool"
    and recv :: "time \<Rightarrow> message \<Rightarrow> 'm \<Rightarrow> 'm"
    and fire :: "time \<Rightarrow> 'm \<Rightarrow> 'm option"
    and other :: "'o \<Rightarrow> 'm \<Rightarrow> 'm"
    and pending :: "'m \<Rightarrow> nat"
    and per_round :: nat
  assumes ok_recv: "ok m \<Longrightarrow> ok (recv now msg m)"
    and ok_fire: "ok m \<Longrightarrow> fire now m = Some m' \<Longrightarrow> ok m'"
    and ok_other: "ok m \<Longrightarrow> ok (other x m)"
    and pending_init: "ok m \<Longrightarrow> pending (recv now (init_msg t) m) = pending m + per_round"
    and pending_propose: "ok m \<Longrightarrow> pending (recv now (propose_of req) m) = pending m"
    and pending_fire: "fire now m = Some m' \<Longrightarrow> pending m = Suc (pending m')"
    and pending_other: "ok m \<Longrightarrow> pending (other x m) = pending m"
begin

lemma local_calls_pending:
  "calls_ok as \<Longrightarrow> ok m \<Longrightarrow>
   ok (local_calls recv now as m) \<and> pending (local_calls recv now as m) = pending m + per_round * inits as"
proof (induction as arbitrary: m)
  case (Cons a as)
  show ?case
  proof (cases a)
    case (Local msg)
    have "ok (recv now msg m)" using Cons.prems by (simp add: ok_recv)
    moreover have "pending (recv now msg m) = pending m + (if MsgType msg = MsgInit then per_round else 0)"
      using Cons.prems Local by (auto simp: pending_init pending_propose)
    ultimately show ?thesis using Cons Local by simp
  qed (use Cons in simp)
qed simp

text \<open>
  With one end-of-round goroutine per round, the rounds exclude each other: a round under way has
  exactly one goroutine or token outstanding, and between rounds there is none.
\<close>

definition exclusive :: "'m view_sys \<Rightarrow> bool" where
  "exclusive v \<longleftrightarrow> ok (v_cons v) \<and>
     pending (v_cons v) + consensusDone (v_prop v) \<le> 1 \<and>
     (v_pc v = Polling \<longrightarrow> pending (v_cons v) + consensusDone (v_prop v) = 0) \<and>
     (v_pc v = WaitDone \<or> (\<exists>t str. v_pc v = WaitStart t str) \<longrightarrow> pending (v_cons v) + consensusDone (v_prop v) = 1)"

lemma exclusive_step:
  assumes "per_round = 1" and "exclusive v"
  shows "exclusive (view_step recv fire other c B H e v)"
proof (cases e)
  case (VInject msg)
  with assms show ?thesis by (simp add: exclusive_def psm_handleInject_def split: option.split)
next
  case (VRun now cancelled pick)
  show ?thesis
  proof (cases "string_step c B H now cancelled pick (v_pc v) (v_prop v)")
    case None
    with VRun assms show ?thesis by simp
  next
    case (Some r)
    obtain pc s as where r: "r = (pc, s, as)" by (cases r)
    have calls: "calls_ok as" using Some r by (rule_tac string_step_calls) simp
    have ok: "ok (v_cons v)" using assms(2) by (simp add: exclusive_def)
    from local_calls_pending [OF calls ok, of now] Some r VRun assms show ?thesis
      by (cases "v_pc v") (auto simp: exclusive_def Dequeue_def Let_def split: list.splits if_splits)
  qed
next
  case (VDone now)
  with assms show ?thesis
    by (auto simp: exclusive_def psm_handleConsensusDone_def dest: ok_fire pending_fire split: option.split)
next
  case (VOther x)
  with assms show ?thesis by (simp add: exclusive_def ok_other pending_other)
qed

lemma exclusive_run:
  "per_round = 1 \<Longrightarrow> exclusive v \<Longrightarrow> exclusive (view_run recv fire other c B H es v)"
  by (induction es arbitrary: v) (simp_all add: exclusive_step)

end

section \<open>Dolev-Strong and TBB as consensus modules\<close>

text \<open>Take the first entry of a timer list that satisfies \<open>P\<close> and is due.\<close>

fun take_due :: "('t \<Rightarrow> bool) \<Rightarrow> time \<Rightarrow> (time \<times> 't) list \<Rightarrow> (time \<times> 't) list option" where
  "take_due P now [] = None"
| "take_due P now ((d, t) # ts) = (if P t \<and> d \<le> now then Some ts else map_option ((#) (d, t)) (take_due P now ts))"

definition count_timers :: "('t \<Rightarrow> bool) \<Rightarrow> (time \<times> 't) list \<Rightarrow> nat" where
  "count_timers P ts = length (filter (\<lambda>x. P (snd x)) ts)"

lemma count_timers_simps [simp]:
  "count_timers P [] = 0" "count_timers P (x # ts) = (if P (snd x) then 1 else 0) + count_timers P ts"
  "count_timers P (xs @ ys) = count_timers P xs + count_timers P ys"
  by (simp_all add: count_timers_def)

lemma take_due_count: "take_due P now ts = Some ts' \<Longrightarrow> count_timers P ts = Suc (count_timers P ts')"
  by (induction P now ts arbitrary: ts' rule: take_due.induct) (auto split: if_splits)

definition ds_ok :: "config \<Rightarrow> ds \<Rightarrow> bool" where
  "ds_ok c m \<longleftrightarrow> ds_Nid m = ds_view m \<and> ds_Nid m = ViewNodeId c"

definition ds_recv :: "config \<Rightarrow> bls \<Rightarrow> (bytes \<Rightarrow> bytes) \<Rightarrow> time \<Rightarrow> message \<Rightarrow> ds \<Rightarrow> ds" where
  "ds_recv c B sha now msg m = fst (ds_dispatch c B sha (\<lambda>_. (now, av_Get (startTime m))) msg m)"

definition ds_fire_done :: "time \<Rightarrow> ds \<Rightarrow> ds option" where
  "ds_fire_done now m = map_option (\<lambda>ts. m\<lparr>timers := ts\<rparr>) (take_due ((=) DoneTimer) now (timers m))"

definition ds_pending :: "ds \<Rightarrow> nat" where
  "ds_pending m = count_timers ((=) DoneTimer) (timers m)"

text \<open>Messages from the network (the view node alone sends \<open>Init\<close>) and the commit goroutine.\<close>

datatype ds_other = DSMsg "nat \<Rightarrow> reading" message | DSCommit "string list \<Rightarrow> string list"

fun ds_other_step :: "config \<Rightarrow> bls \<Rightarrow> (bytes \<Rightarrow> bytes) \<Rightarrow> ds_other \<Rightarrow> ds \<Rightarrow> ds" where
  "ds_other_step c B sha (DSMsg clk msg) m =
     (if MsgType msg = MsgInit then m else fst (ds_dispatch c B sha clk msg m))"
| "ds_other_step c B sha (DSCommit ord) m = fst (ds_fire ord CommitTimer m)"

lemma ds_dispatch_frame:
  "MsgType msg \<noteq> MsgInit \<Longrightarrow> timers (fst (ds_dispatch c B sha clk msg m)) = timers m"
  "ds_Nid (fst (ds_dispatch c B sha clk msg m)) = ds_Nid m"
  "ds_view (fst (ds_dispatch c B sha clk msg m)) = ds_view m"
  by (auto simp: ds_dispatch_def ds_defs Let_def split: MessageType.splits option.splits)

interpretation ds_rounds: round_module "ds_ok c" "ds_recv c B sha" ds_fire_done "ds_other_step c B sha" ds_pending 1
  for c B sha
proof unfold_locales
  show "ds_ok c (ds_recv c B sha now msg m)" if "ds_ok c m" for m now msg
    using that by (simp add: ds_ok_def ds_recv_def ds_dispatch_frame)
  show "ds_ok c (ds_other_step c B sha x m)" if "ds_ok c m" for m x
    using that by (cases x) (auto simp: ds_ok_def ds_dispatch_frame ds_fire_def ds_commit_def)
  show "ds_pending (ds_recv c B sha now (init_msg t) m) = ds_pending m + 1" if "ds_ok c m" for m now t
    using that by (simp add: ds_ok_def ds_recv_def ds_pending_def ds_dispatch_def init_msg_def HandleInitMsg_def Let_def)
  show "ds_pending (ds_recv c B sha now (propose_of req) m) = ds_pending m" for m now req
    by (simp add: ds_recv_def ds_pending_def ds_dispatch_frame)
  show "ds_pending (ds_other_step c B sha x m) = ds_pending m" for m x
    by (cases x) (auto simp: ds_pending_def ds_dispatch_frame ds_fire_def ds_commit_def)
qed (auto simp: ds_fire_done_def ds_ok_def ds_pending_def dest: take_due_count)

definition tbb_ok :: "config \<Rightarrow> tbb \<Rightarrow> bool" where
  "tbb_ok c m \<longleftrightarrow> tbb_Nid m = ViewNodeId c \<and> ds_Nid (DSMod m) = ds_view (DSMod m) \<and>
     dbb_Nid (DBBMod m) = dbb_view (DBBMod m)"

definition tbb_recv :: "config \<Rightarrow> bls \<Rightarrow> (bytes \<Rightarrow> bytes) \<Rightarrow> time \<Rightarrow> message \<Rightarrow> tbb \<Rightarrow> tbb" where
  "tbb_recv c B sha now msg m =
     fst (tbb_dispatch c B sha (\<lambda>xs. xs) now (\<lambda>_. (now, av_Get (tbb_startTime m))) msg m)"

definition tbb_fire_done :: "time \<Rightarrow> tbb \<Rightarrow> tbb option" where
  "tbb_fire_done now m =
     (case ds_fire_done now (DSMod m) of
        Some d \<Rightarrow> Some (m\<lparr>DSMod := d\<rparr>)
      | None \<Rightarrow> map_option (\<lambda>ts. m\<lparr>DBBMod := (DBBMod m)\<lparr>dbb_timers := ts\<rparr>\<rparr>)
          (take_due ((=) DbbDone) now (dbb_timers (DBBMod m))))"

definition tbb_pending :: "tbb \<Rightarrow> nat" where
  "tbb_pending m = ds_pending (DSMod m) + count_timers ((=) DbbDone) (dbb_timers (DBBMod m))"

text \<open>Every event of the node except \<open>Init\<close> messages and the end-of-round goroutines.\<close>

definition is_end :: "tbb_event \<Rightarrow> bool" where
  "is_end e \<longleftrightarrow> (case e of TFireDS t \<Rightarrow> t = DoneTimer | TFireDBB t \<Rightarrow> (case t of DbbDone \<Rightarrow> True | _ \<Rightarrow> False) | _ \<Rightarrow> False)"

definition tbb_other_step ::
  "config \<Rightarrow> bls \<Rightarrow> (bytes \<Rightarrow> bytes) \<Rightarrow> (string list \<Rightarrow> string list) \<times> tbb_event \<Rightarrow> tbb \<Rightarrow> tbb" where
  "tbb_other_step c B sha x m =
     (case x of (ord, e) \<Rightarrow>
        if is_init e \<or> is_end e then m else fst (tbb_step c B sha ord e m))"

lemma dbb_step_done:
  assumes "dbb_step c B sha ord e s = (s', es, f)" and "no_init e"
  shows "count_timers ((=) DbbDone) (dbb_timers s') = count_timers ((=) DbbDone) (dbb_timers s) \<and>
    dbb_Nid s' = dbb_Nid s \<and> dbb_view s' = dbb_view s"
proof (cases e)
  case (DMsg clk m)
  with assms(2) have "MsgType m \<noteq> MsgInit" by (simp add: no_init_def)
  with assms(1) DMsg show ?thesis
    by (cases "MsgType m")
      (auto simp: dbb_dispatch_def dbb_HandleProposeMsg_def dbb_HandleForward1Msg_def dbb_HandleForward2Msg_def
        dbb_HandleVoteMsg_def make_QC_def dbb_HandleQCMsg_def ba_propose_def ba_forward_def Let_def
        split: option.splits list.splits if_splits)
next
  case (DFire t)
  with assms(1) show ?thesis
    by (cases t) (auto simp: dbb_fire_def ba_start_def final_commit_def try_vote_def Let_def split: option.splits if_splits)
qed (use assms(1) in auto)

text \<open>What \<open>tbb_pending\<close> and \<open>tbb_ok\<close> depend on.\<close>

definition same_done :: "tbb \<Rightarrow> tbb \<Rightarrow> bool" where
  "same_done m m' \<longleftrightarrow> tbb_pending m' = tbb_pending m \<and> (\<forall>c. tbb_ok c m \<longrightarrow> tbb_ok c m')"

lemma same_doneI:
  assumes "tbb_Nid m' = tbb_Nid m" and "timers (DSMod m') = timers (DSMod m)" and "ds_Nid (DSMod m') = ds_Nid (DSMod m)"
    and "ds_view (DSMod m') = ds_view (DSMod m)"
    and "count_timers ((=) DbbDone) (dbb_timers (DBBMod m')) = count_timers ((=) DbbDone) (dbb_timers (DBBMod m)) \<and>
      dbb_Nid (DBBMod m') = dbb_Nid (DBBMod m) \<and> dbb_view (DBBMod m') = dbb_view (DBBMod m)"
  shows "same_done m m'"
  using assms by (simp add: same_done_def tbb_pending_def ds_pending_def tbb_ok_def)

lemma ds_handlers_frame:
  "HandleProposeMsg c B sha clk msg s = (s', es, f) \<Longrightarrow> timers s' = timers s \<and> ds_Nid s' = ds_Nid s \<and> ds_view s' = ds_view s"
  "HandleForwardMsg c B sha clk msg s = (s', es, f) \<Longrightarrow> timers s' = timers s \<and> ds_Nid s' = ds_Nid s \<and> ds_view s' = ds_view s"
  "ds_fire ord t s = (s', es, f) \<Longrightarrow> timers s' = timers s \<and> ds_Nid s' = ds_Nid s \<and> ds_view s' = ds_view s"
  by (auto simp: HandleProposeMsg_def HandleForwardMsg_def Let_def split: option.splits if_splits)
    (cases t; auto simp: ds_fire_def ds_commit_def split: if_splits)+

lemma tbb_dispatch_done:
  assumes "MsgType msg \<noteq> MsgInit"
  shows "same_done m (fst (tbb_dispatch c B sha ord now clk msg m))"
proof -
  obtain m' es f where d: "tbb_dispatch c B sha ord now clk msg m = (m', es, f)" by (metis prod_cases3)
  note mv = tbb_msg_D [OF d assms]
  have ds: "timers (DSMod m') = timers (DSMod m) \<and> ds_Nid (DSMod m') = ds_Nid (DSMod m) \<and> ds_view (DSMod m') = ds_view (DSMod m)"
    using mv ds_handlers_frame(1,2) by metis
  have "count_timers ((=) DbbDone) (dbb_timers (DBBMod m')) = count_timers ((=) DbbDone) (dbb_timers (DBBMod m)) \<and>
      dbb_Nid (DBBMod m') = dbb_Nid (DBBMod m) \<and> dbb_view (DBBMod m') = dbb_view (DBBMod m)"
  proof (cases "DBBMod m' = DBBMod m")
    case False
    with mv obtain k es1 f1 where "dbb_step c B sha ord (DMsg k msg) (DBBMod m) = (DBBMod m', es1, f1)"
      by (auto simp: dbb_move_def)
    then show ?thesis by (rule dbb_step_done) (simp add: no_init_def assms)
  qed simp
  moreover have "tbb_Nid m' = tbb_Nid m" using mv by (metis tbb.select_convs(1) tbb.surjective tbb.update_convs(4,5))
  ultimately show ?thesis using d ds by (auto intro: same_doneI)
qed

lemma tbb_other_done: "same_done m (tbb_other_step c B sha x m)"
proof -
  obtain ord e where x: "x = (ord, e)" by (cases x)
  show ?thesis
  proof (cases "is_init e \<or> is_end e")
    case True
    with x show ?thesis by (simp add: tbb_other_step_def same_done_def)
  next
    case False
    obtain m' es f where st: "tbb_step c B sha ord e m = (m', es, f)" by (metis prod_cases3)
    have "same_done m m'"
    proof (cases e)
      case (TMsg now clk msg)
      with False st tbb_dispatch_done [of msg m c B sha ord now clk] show ?thesis by (simp add: is_init_def)
    next
      case (TFireDS t)
      with st show ?thesis by (auto elim!: on_DS_E intro!: same_doneI dest: ds_handlers_frame(3))
    next
      case (TFireDBB t)
      with st show ?thesis
        by (auto elim!: on_DBB_E intro!: same_doneI dest!: dbb_step_done [of c B sha ord "DFire t", simplified] simp: no_init_def)
    next
      case (TFire t)
      with st show ?thesis by (cases t) (auto intro!: same_doneI simp: tbb_fire_def referencePoint1Handler_def
          referencePoint2Handler_def commitPoint2Handler_def commitPoint3Handler_def)
    next
      case (TListen i)
      with st show ?thesis
        by (auto intro!: same_doneI simp: commitPoint1Handler_def commit_point1_def split: listener.splits)
    qed
    with x False st show ?thesis by (simp add: tbb_other_step_def)
  qed
qed

interpretation tbb_rounds: round_module "tbb_ok c" "tbb_recv c B sha" tbb_fire_done "tbb_other_step c B sha" tbb_pending 2
  for c B sha
proof unfold_locales
  have init: "tbb_ok c (tbb_recv c B sha now msg m)" if "tbb_ok c m" "MsgType msg = MsgInit" for m now msg
  proof (cases "decode_time (msg_Content msg)")
    case None
    with that show ?thesis by (simp add: tbb_recv_def tbb_dispatch_def tbb_handleInitMsg_def tbb_ok_def)
  next
    case (Some t)
    with that show ?thesis
      by (auto simp: tbb_recv_def tbb_dispatch_def tbb_init_eq tbb_ok_def HandleInitMsg_def dbb_HandleInitMsg_def Let_def)
  qed
  show "tbb_ok c (tbb_recv c B sha now msg m)" if "tbb_ok c m" for m now msg
  proof (cases "MsgType msg = MsgInit")
    case False
    with that tbb_dispatch_done [OF this] show ?thesis by (simp add: tbb_recv_def same_done_def)
  qed (use that init in simp)
  show "tbb_pending (tbb_recv c B sha now (init_msg t) m) = tbb_pending m + 2" if "tbb_ok c m" for m now t
    using that by (simp add: tbb_ok_def tbb_recv_def tbb_dispatch_def init_msg_def tbb_init_eq tbb_pending_def ds_pending_def
        HandleInitMsg_def dbb_HandleInitMsg_def Let_def)
  show "tbb_pending (tbb_recv c B sha now (propose_of req) m) = tbb_pending m" for m now req
    using tbb_dispatch_done [of "propose_of req"] by (simp add: tbb_recv_def same_done_def)
  show "tbb_ok c (tbb_other_step c B sha x m)" "tbb_pending (tbb_other_step c B sha x m) = tbb_pending m"
    if "tbb_ok c m" for m x
    using that tbb_other_done [of m c B sha x] by (simp_all add: same_done_def)
  show "tbb_ok c m'" if "tbb_ok c m" "tbb_fire_done now m = Some m'" for now m m'
    using that by (auto simp: tbb_fire_done_def ds_fire_done_def tbb_ok_def split: option.splits)
  show "tbb_pending m = Suc (tbb_pending m')" if "tbb_fire_done now m = Some m'" for now m m'
    using that by (auto simp: tbb_fire_done_def ds_fire_done_def tbb_pending_def ds_pending_def
        dest!: take_due_count split: option.splits)
qed

text \<open>
  C19: Rounds of a Dolev-Strong view node exclude each other: whatever is injected, received and
  scheduled, when the proposer is about to start a round, no end-of-round goroutine or signal of
  an earlier round is left, and while a round runs there is exactly one.
\<close>

theorem ds_rounds_exclusive:
  assumes "ViewNodeId c = 0"
  shows "let v = view_run (ds_recv c B sha) ds_fire_done (ds_other_step c B sha) c B H es
      (view_start sid sk (NewDSCosensusMod 0 ip sk t0)) in
    (v_pc v = Polling \<longrightarrow> ds_pending (v_cons v) = 0 \<and> consensusDone (v_prop v) = 0) \<and>
    (v_pc v = WaitDone \<longrightarrow> ds_pending (v_cons v) + consensusDone (v_prop v) = 1)"
proof -
  have "ds_rounds.exclusive c (view_start sid sk (NewDSCosensusMod 0 ip sk t0))"
    using assms by (simp add: ds_rounds.exclusive_def view_start_def ds_ok_def NewDSCosensusMod_def ds_pending_def
        NewProposeStringAuxiliaryMod_def)
  from ds_rounds.exclusive_run [OF refl this, of B sha c B H es] show ?thesis
    by (simp add: ds_rounds.exclusive_def Let_def)
qed

definition plain_hash :: hash_env where
  "plain_hash = \<lparr>he_sha256 = (\<lambda>m. m), he_json = (\<lambda>r. None)\<rparr>"

definition inject :: "string \<Rightarrow> 'o view_event" where
  "inject str = VInject \<lparr>MsgType = MsgInject, msg_Content = PString str\<rparr>"

definition one_round :: "ds view_sys" where
  "one_round = view_run (ds_recv example_config pair_bls (\<lambda>m. m)) ds_fire_done
     (ds_other_step example_config pair_bls (\<lambda>m. m)) example_config pair_bls plain_hash
     [inject ''A'', VRun 0 False False, VRun 1000000000 False False]
     (view_start 0 (Some ''k'') (NewDSCosensusMod 0 ''n0'' (Some ''k'') 0))"

theorem ds_rounds_exclusive_witness:
  "v_pc one_round = WaitDone \<and> ds_pending (v_cons one_round) + consensusDone (v_prop one_round) = 1"
proof -
  have "ViewNodeId example_config = 0" by (simp add: example_config_def)
  note r = ds_rounds_exclusive [OF this, unfolded Let_def, THEN conjunct2]
  have "v_pc one_round = WaitDone" by code_simp
  then show ?thesis unfolding one_round_def by (blast intro: r [rule_format])
qed

text \<open>Where the loop is, what was proposed, and the end-of-round goroutines still asleep.\<close>

definition summary :: "tbb view_sys \<Rightarrow> string_pc \<times> string list \<times> nat" where
  "summary v = (v_pc v, proposed (v_log v), tbb_pending (v_cons v))"

definition second :: time where
  "second = 1000000000"

definition overlap_events :: "((string list \<Rightarrow> string list) \<times> tbb_event) view_event list" where
  "overlap_events =
     [inject ''A'', inject ''B'', VRun 0 False False, VRun second False False,
      VDone (11 * second), VRun (11 * second) False False, VDone (11 * second),
      VRun (11 * second) False False, VRun (12 * second) False False, VRun (12 * second) False False]"

text \<open>
  A TBB view node cuts its rounds short: both modules signal the end of the first round; the second
  signal stays in the channel and ends the second round at the moment its value is proposed, with
  both end-of-round goroutines of that round still asleep, so that the next \<open>Init\<close> may clear the
  sets before anybody could vote.  All times of the schedule are those the timers ask for.
\<close>

theorem tbb_rounds_overlap:
  "summary (view_run (tbb_recv dbb_cfg pair_bls (\<lambda>m. m)) tbb_fire_done (tbb_other_step dbb_cfg pair_bls (\<lambda>m. m))
     dbb_cfg pair_bls plain_hash overlap_events (view_start 0 (Some ''k'') (NewTBBCosensusMod 0 ''n0'' (Some ''k'') 0))) =
   (Polling, [''A'', ''B''], 2)"
  by code_simp

end
