(* ===== verification/Wire.thy ===== *)
theory Wire
  imports Network Codecs
begin

text \<open>
  The bytes on a connection: the JSON text of a message (message/message.go), the newline that \<open>Send\<close> appends
  (node/p2p/connManager.go) and the reader of \<open>handleConnection\<close> (node/p2p/p2p.go).  The texts of
  encoding/json and encoding/base64 are written out for the one type that is sent, a struct of an integer and a byte
  slice.  Decoding is defined on exactly the texts the encoder writes; what the library does with any other text
  is the argument \<open>other\<close>.
\<close>

section \<open>The JSON text of a message\<close>

text \<open>A message as it travels: its type as a number and its body as bytes, or the nil slice.\<close>

record wire_message =
  wm_MsgType :: int
  wm_Content :: "bytes option"

text \<open>The quotation mark and the newline.\<close>

abbreviation quote :: char where "quote \<equiv> CHR 0x22"
abbreviation newline :: char where "newline \<equiv> CHR 0x0A"

text \<open>\<open>{"MsgType":\<close> and \<open>,"Content":\<close>; a nil slice is \<open>null\<close>, any other the quoted base64 text.\<close>

definition json_start :: string where
  "json_start = CHR ''{'' # quote # ''MsgType'' @ [quote, CHR '':'']"

definition json_middle :: string where
  "json_middle = CHR '','' # quote # ''Content'' @ [quote, CHR '':'']"

definition json_body :: "bytes option \<Rightarrow> string" where
  "json_body c = (case c of None \<Rightarrow> ''null'' | Some b \<Rightarrow> quote # b64_encode b @ [quote])"

definition JsonEncode :: "wire_message \<Rightarrow> bytes" where
  "JsonEncode m = json_start @ Itoa (wm_MsgType m) @ json_middle @ json_body (wm_Content m) @ ''}''"

definition strip_prefix :: "string \<Rightarrow> string \<Rightarrow> string option" where
  "strip_prefix p s = (if take (length p) s = p then Some (drop (length p) s) else None)"

definition strip_suffix :: "string \<Rightarrow> string \<Rightarrow> string option" where
  "strip_suffix p s = map_option rev (strip_prefix (rev p) (rev s))"

text \<open>A Go \<open>int\<close> in the form \<open>Itoa\<close> gives it; other numerals are left to \<open>other\<close>.\<close>

definition parse_int :: "string \<Rightarrow> int option" where
  "parse_int s = (let n = Atoi s in if Itoa n = s \<and> - (2 ^ 63) \<le> n \<and> n < 2 ^ 63 then Some n else None)"

definition parse_body :: "string \<Rightarrow> bytes option option" where
  "parse_body s =
     (if s = ''null'' then Some None
      else case s of
        q # t \<Rightarrow> if q = quote then (case strip_suffix [quote] t of None \<Rightarrow> None | Some e \<Rightarrow> map_option Some (b64_decode e)) else None
      | [] \<Rightarrow> None)"

text \<open>White space after the value is skipped; here it is the newline that the reader leaves in place.\<close>

definition trim_newline :: "bytes \<Rightarrow> bytes" where
  "trim_newline s = rev (dropWhile (\<lambda>c. c = newline) (rev s))"

definition parse_message :: "bytes \<Rightarrow> wire_message option" where
  "parse_message s =
     (case strip_prefix json_start (trim_newline s) of
        None \<Rightarrow> None
      | Some t \<Rightarrow>
          (let num = takeWhile (\<lambda>c. c \<noteq> CHR '','') t in
           case (parse_int num, strip_prefix json_middle (drop (length num) t)) of
             (Some n, Some u) \<Rightarrow>
               (case strip_suffix ''}'' u of
                  None \<Rightarrow> None
                | Some b \<Rightarrow> map_option (\<lambda>c. \<lparr>wm_MsgType = n, wm_Content = c\<rparr>) (parse_body b))
           | _ \<Rightarrow> None))"

text \<open>The result is the message and whether there was an error.\<close>

definition JsonDecode :: "(bytes \<Rightarrow> wire_message \<Rightarrow> wire_message \<times> bool) \<Rightarrow> bytes \<Rightarrow> wire_message \<Rightarrow> wire_message \<times> bool" where
  "JsonDecode other data msg = (case parse_message data of Some m \<Rightarrow> (m, False) | None \<Rightarrow> other data msg)"

definition Message_String :: "wire_message \<Rightarrow> string" where
  "Message_String m =
     ''Message{'' @ ''MsgType: '' @ Itoa (wm_MsgType m) @ '', '' @ ''Content len: '' @
     Itoa (int (length (case wm_Content m of None \<Rightarrow> [] | Some b \<Rightarrow> b))) @ ''}''"

lemma strip_prefix_append [simp]: "strip_prefix p (p @ s) = Some s"
  by (simp add: strip_prefix_def)

lemma strip_suffix_append [simp]: "strip_suffix p (s @ p) = Some s"
  by (simp add: strip_suffix_def)

lemma digits_chars: "set (digits n) \<subseteq> digit ` {..<10}"
proof (induction n rule: digits.induct)
  case (1 n)
  then show ?case by (cases "n < 10") (auto simp: digits.simps [of n])
qed

lemma no_digit: "d < 10 \<Longrightarrow> digit d \<noteq> CHR '',''" "d < 10 \<Longrightarrow> digit d \<noteq> newline"
  using of_char_digit [of d] by (auto dest!: arg_cong [where f = "of_char :: char \<Rightarrow> nat"])

lemma Itoa_chars: "CHR '','' \<notin> set (Itoa n)" "newline \<notin> set (Itoa n)"
proof -
  have "x \<notin> set (digits k)" if "x \<in> {CHR '','', newline}" for x k
    using subsetD [OF digits_chars, of x k] no_digit that by (metis imageE insertE lessThan_iff singletonD)
  then show "CHR '','' \<notin> set (Itoa n)" "newline \<notin> set (Itoa n)" by (simp_all add: Itoa_def)
qed

lemma json_body_chars: "newline \<notin> set (json_body c)"
proof (cases c)
  case (Some b)
  have "newline \<notin> set (b64_encode b)" using subsetD [OF b64_encode_set, of newline b] b64_alphabet_facts(5) by auto
  with Some show ?thesis by (simp add: json_body_def)
qed (simp add: json_body_def)

text \<open>The text of a message is one line.\<close>

lemma JsonEncode_line: "newline \<notin> set (JsonEncode m)"
  using Itoa_chars(2) json_body_chars by (simp add: JsonEncode_def json_start_def json_middle_def)

lemma parse_body_json [simp]: "parse_body (json_body c) = Some c"
proof (cases c)
  case (Some b)
  have "strip_suffix [quote] (b64_encode b @ [quote]) = Some (b64_encode b)" by simp
  with Some show ?thesis by (simp add: parse_body_def json_body_def b64_roundtrip)
qed (simp add: parse_body_def json_body_def)

definition fits :: "wire_message \<Rightarrow> bool" where
  "fits m \<longleftrightarrow> - (2 ^ 63) \<le> wm_MsgType m \<and> wm_MsgType m < 2 ^ 63"

lemma parse_int_Itoa [simp]: "- (2 ^ 63) \<le> n \<Longrightarrow> n < 2 ^ 63 \<Longrightarrow> parse_int (Itoa n) = Some n"
  by (simp add: parse_int_def Atoi_Itoa Let_def)

lemma trim_newline_line: "trim_newline (t @ ''}'') = t @ ''}''" "trim_newline (t @ ''}'' @ [newline]) = t @ ''}''"
  by (simp_all add: trim_newline_def)

lemma takeWhile_num: "takeWhile (\<lambda>c. c \<noteq> CHR '','') (Itoa n @ json_middle @ t) = Itoa n"
  using Itoa_chars(1) by (subst takeWhile_append2) (auto simp: json_middle_def)

lemma parse_JsonEncode:
  assumes "fits m" and "nl = [] \<or> nl = [newline]"
  shows "parse_message (JsonEncode m @ nl) = Some m"
proof -
  let ?t = "json_start @ Itoa (wm_MsgType m) @ json_middle @ json_body (wm_Content m)"
  have "trim_newline (JsonEncode m @ nl) = ?t @ ''}''"
    using assms(2) trim_newline_line [of ?t] by (auto simp: JsonEncode_def)
  then have "strip_prefix json_start (trim_newline (JsonEncode m @ nl)) =
      Some (Itoa (wm_MsgType m) @ json_middle @ json_body (wm_Content m) @ ''}'')"
    by simp
  with assms(1) show ?thesis by (simp add: parse_message_def takeWhile_num Let_def fits_def)
qed
text \<open>Decoding a text with or without its newline gives the message back, whatever the struct held before.\<close>

theorem json_roundtrip:
  assumes "fits m" and "nl = [] \<or> nl = [newline]"
  shows "JsonDecode other (JsonEncode m @ nl) m0 = (m, False)"
  using parse_JsonEncode [OF assms] by (simp add: JsonDecode_def)

theorem json_roundtrip_witness:
  "JsonDecode other (JsonEncode \<lparr>wm_MsgType = 15, wm_Content = Some ''vote''\<rparr> @ [newline]) m0 =
     (\<lparr>wm_MsgType = 15, wm_Content = Some ''vote''\<rparr>, False)"
  by (rule json_roundtrip) (simp_all add: fits_def)

section \<open>The stream of a connection\<close>

text \<open>What \<open>Send\<close> writes.\<close>

definition framed :: "wire_message \<Rightarrow> bytes" where
  "framed m = JsonEncode m @ [newline]"

text \<open>
  \<open>bufio.Reader.ReadBytes\<close>: the bytes up to and with the newline, and the rest of the stream; \<open>None\<close> when the
  stream ends or fails before one.
\<close>

definition ReadBytes :: "char \<Rightarrow> bytes \<Rightarrow> (bytes \<times> bytes) option" where
  "ReadBytes d s =
     (if d \<in> set s then Some (takeWhile (\<lambda>c. c \<noteq> d) s @ [d], tl (dropWhile (\<lambda>c. c \<noteq> d) s)) else None)"

lemma ReadBytes_shorter: "ReadBytes d s = Some (l, r) \<Longrightarrow> length r < length s"
proof -
  assume a: "ReadBytes d s = Some (l, r)"
  then have "dropWhile (\<lambda>c. c \<noteq> d) s \<noteq> []" by (auto simp: ReadBytes_def split: if_splits)
  moreover have "length (dropWhile (\<lambda>c. c \<noteq> d) s) \<le> length s" by (rule length_dropWhile_le)
  moreover have "r = tl (dropWhile (\<lambda>c. c \<noteq> d) s)" using a by (simp add: ReadBytes_def split: if_splits)
  ultimately show ?thesis by (cases "dropWhile (\<lambda>c. c \<noteq> d) s") simp_all
qed

lemma ReadBytes_line:
  assumes "d \<notin> set l"
  shows "ReadBytes d (l @ d # r) = Some (l @ [d], r)" "ReadBytes d l = None"
proof -
  have "dropWhile (\<lambda>c. c \<noteq> d) (l @ d # r) = d # r" using assms by (subst dropWhile_append2) auto
  then show "ReadBytes d (l @ d # r) = Some (l @ [d], r)" using assms by (auto simp: ReadBytes_def takeWhile_tail)
qed (use assms in \<open>simp add: ReadBytes_def\<close>)

text \<open>The table is indexed by the number of the type; a fresh message is zero.\<close>

definition zero_message :: wire_message where
  "zero_message = \<lparr>wm_MsgType = 0, wm_Content = None\<rparr>"

function serve ::
  "(int \<Rightarrow> 'h option) \<Rightarrow> (bytes \<Rightarrow> wire_message \<Rightarrow> wire_message \<times> bool) \<Rightarrow> bytes \<Rightarrow> ('h \<times> wire_message) list" where
  "serve hs other s =
     (case ReadBytes newline s of
        None \<Rightarrow> []
      | Some (content, rest) \<Rightarrow>
          (let msg = fst (JsonDecode other content zero_message) in
           case hs (wm_MsgType msg) of
             None \<Rightarrow> serve hs other rest
           | Some h \<Rightarrow> (h, msg) # serve hs other rest))"
  by pat_completeness auto
termination
  by (relation "measure (\<lambda>(_, _, s). length s)") (auto dest: ReadBytes_shorter)

declare serve.simps [simp del]

definition dispatched :: "(int \<Rightarrow> 'h option) \<Rightarrow> wire_message list \<Rightarrow> ('h \<times> wire_message) list" where
  "dispatched hs ms = concat (map (\<lambda>m. case hs (wm_MsgType m) of None \<Rightarrow> [] | Some h \<Rightarrow> [(h, m)]) ms)"

lemma serve_framed: "fits m \<Longrightarrow> serve hs other (framed m @ s) = dispatched hs [m] @ serve hs other s"
  using ReadBytes_line(1) [OF JsonEncode_line [of m], of s] parse_JsonEncode [of m "[newline]"]
  by (subst serve.simps) (simp add: framed_def dispatched_def JsonDecode_def split: option.split)

text \<open>How many of the messages have come through wholly in the first \<open>n\<close> bytes.\<close>

fun whole :: "wire_message list \<Rightarrow> nat \<Rightarrow> nat" where
  "whole [] n = 0"
| "whole (m # ms) n = (if length (framed m) \<le> n then Suc (whole ms (n - length (framed m))) else 0)"

lemma serve_cut:
  assumes "\<forall>m \<in> set ms. fits m"
  shows "serve hs other (take n (concat (map framed ms))) = dispatched hs (take (whole ms n) ms)"
  using assms
proof (induction ms arbitrary: n)
  case Nil
  then show ?case by (simp add: serve.simps ReadBytes_def dispatched_def)
next
  case (Cons m ms)
  show ?case
  proof (cases "length (framed m) \<le> n")
    case True
    with Cons show ?thesis by (simp add: serve_framed dispatched_def)
  next
    case False
    then have "take n (framed m @ concat (map framed ms)) = take n (JsonEncode m)" by (simp add: framed_def)
    moreover have "newline \<notin> set (take n (JsonEncode m))" using JsonEncode_line in_set_takeD by metis
    ultimately show ?thesis using False by (simp add: serve.simps ReadBytes_def dispatched_def)
  qed
qed
lemma whole_all: "length (concat (map framed ms)) \<le> n \<Longrightarrow> whole ms n = length ms"
  by (induction ms arbitrary: n) simp_all

lemma whole_le: "whole ms n \<le> length ms"
  by (induction ms arbitrary: n) simp_all

section \<open>The network module over this stream\<close>

text \<open>The numbers that \<open>iota\<close> gives.\<close>

fun mt_code :: "MessageType \<Rightarrow> int" where
  "mt_code MsgEmpty = 0" | "mt_code MsgInit = 1" | "mt_code MsgNodeReady = 2" | "mt_code MsgStop = 3"
| "mt_code MsgInject = 4" | "mt_code MsgReply = 5" | "mt_code MsgQuery = 6" | "mt_code MsgReplyQuery = 7"
| "mt_code MsgPropose = 8" | "mt_code MsgPrePrepare = 9" | "mt_code MsgPrepare = 10" | "mt_code MsgCommit = 11"
| "mt_code MsgForward = 12" | "mt_code MsgForward1 = 13" | "mt_code MsgForward2 = 14" | "mt_code MsgVote = 15"
| "mt_code MsgQC = 16" | "mt_code MsgConsensusDone = 17" | "mt_code MsgRequestSeq = 18" | "mt_code MsgSeq = 19"
| "mt_code MsgInputVerifyResult = 20" | "mt_code MsgPreInject = 21" | "mt_code MsgBlockLegal = 22"

text \<open>A message of the other theories on the wire; \<open>E\<close> is \<open>utils.Encode\<close> of its body.\<close>

definition wire :: "(payload \<Rightarrow> bytes option) \<Rightarrow> message \<Rightarrow> wire_message" where
  "wire E m = \<lparr>wm_MsgType = mt_code (MsgType m), wm_Content = E (msg_Content m)\<rparr>"

lemma wire_fits: "fits (wire E m)"
  by (cases "MsgType m") (simp_all add: wire_def fits_def)

lemma handleConnection_Some:
  "handleConnection hs (map Some ms @ [None]) = concat (map (\<lambda>m. case hs (MsgType m) of None \<Rightarrow> [] | Some h \<Rightarrow> [(h, m)]) ms)"
  by (induction ms) (auto simp: handler_for_def split: option.split)

lemma dispatched_wire:
  "dispatched hs (map (wire E) ms) =
     map (\<lambda>(h, m). (h, wire E m)) (handleConnection (\<lambda>t. hs (mt_code t)) (map Some ms @ [None]))"
  unfolding handleConnection_Some
  by (induction ms) (auto simp: dispatched_def wire_def split: option.split)

text \<open>
  C16: A connection refines the message level: whatever the encoder of the bodies is, a reader that gets any part of what was
  written, cut after any byte, calls the handlers for exactly the messages that came through wholly, in the order in
  which they were sent and unaltered, and all of them when nothing was cut.
\<close>

theorem stream_refines_messages:
  "serve hs other (take n (concat (map (framed \<circ> wire E) ms))) =
     map (\<lambda>(h, m). (h, wire E m))
       (handleConnection (\<lambda>t. hs (mt_code t)) (map Some (take (whole (map (wire E) ms) n) ms) @ [None])) \<and>
   whole (map (wire E) ms) (length (concat (map (framed \<circ> wire E) ms))) = length ms"
proof -
  have "\<forall>m \<in> set (map (wire E) ms). fits m" by (simp add: wire_fits)
  from serve_cut [OF this, of hs other n] whole_all [of "map (wire E) ms"] show ?thesis
    by (simp add: take_map dispatched_wire [symmetric] comp_def)
qed

end
