(* ===== verification/Encoding.thy ===== *)
theory Encoding
  imports Wire
begin

text \<open>
  Values as bytes and as text: the wrappers of encoding/gob (utils/encode.go), the serialisation of keys and signatures
  and their generation (signature/), and the \<open>String\<close> methods of requests, replies, blocks and transactions.
  The gob codec, the BLS library, \<open>time.Time.String\<close> and the \<open>%f\<close> form of a float are arguments.
\<close>

section \<open>utils/encode.go\<close>

text \<open>An error is logged and gives a nil slice.\<close>

definition Encode :: "('a \<Rightarrow> bytes option) \<Rightarrow> 'a \<Rightarrow> bytes option" where
  "Encode gob obj = (case gob obj of None \<Rightarrow> None | Some b \<Rightarrow> Some b)"

text \<open>The object after decoding into it, and whether there was an error.\<close>

definition Decode :: "(bytes \<Rightarrow> 'a \<Rightarrow> 'a \<times> bool) \<Rightarrow> bytes \<Rightarrow> 'a \<Rightarrow> 'a \<times> bool" where
  "Decode dec data obj = dec data obj"

definition go_Hash :: "(bytes \<Rightarrow> bytes) \<Rightarrow> ('a \<Rightarrow> bytes option) \<Rightarrow> 'a \<Rightarrow> bytes" where
  "go_Hash sha256 gob obj = sha256 (case Encode gob obj of None \<Rightarrow> [] | Some b \<Rightarrow> b)"

text \<open>All objects that gob refuses have one hash; for the others a collision is one of the hash function or the codec.\<close>

lemma go_Hash_collisions:
  assumes "inj sha" and "go_Hash sha gob x = go_Hash sha gob y" and "\<forall>z. gob z \<noteq> Some []"
  shows "gob x = gob y"
  using assms by (auto simp: go_Hash_def Encode_def inj_eq split: option.splits)

section \<open>Keys and signatures\<close>

text \<open>The serialisation of the library, for a type of the library; \<open>None\<close> is an error.\<close>

record 'a serial =
  Serialize :: "'a \<Rightarrow> bytes"
  Deserialize :: "bytes \<Rightarrow> 'a option"

type_synonym secret_key = bytes
type_synonym public_key = bytes

definition Signature_GobEncode :: "signature serial \<Rightarrow> signature \<Rightarrow> bytes" where
  "Signature_GobEncode L s = Serialize L s"

definition Signature_GobDecode :: "signature serial \<Rightarrow> bytes \<Rightarrow> signature option" where
  "Signature_GobDecode L data = Deserialize L data"

definition SecretKey_GobEncode :: "secret_key serial \<Rightarrow> secret_key \<Rightarrow> bytes" where
  "SecretKey_GobEncode L s = Serialize L s"

definition SecretKey_GobDecode :: "secret_key serial \<Rightarrow> bytes \<Rightarrow> secret_key option" where
  "SecretKey_GobDecode L data = Deserialize L data"

definition PublicKey_GobEncode :: "public_key serial \<Rightarrow> public_key \<Rightarrow> bytes" where
  "PublicKey_GobEncode L p = Serialize L p"

definition PublicKey_GobDecode :: "public_key serial \<Rightarrow> bytes \<Rightarrow> public_key option" where
  "PublicKey_GobDecode L data = Deserialize L data"

text \<open>The random secret key is an argument.\<close>

definition GenerateKeyPair :: "bls \<Rightarrow> secret_key \<Rightarrow> secret_key \<times> public_key" where
  "GenerateKeyPair B random = (let pk = PublicKeyOf B random in (random, pk))"

text \<open>\<open>bls.Init\<close> may fail; \<open>init\<close> only logs that.\<close>

definition signature_init :: "bool \<Rightarrow> string list" where
  "signature_init ok = (if ok then [] else [''Failed to initialize BLS''])"

text \<open>A signature and a public key still match after both have travelled.\<close>

lemma travelled_signature_verifies:
  assumes "bls_correct B" and "msg \<noteq> []" and "GenerateKeyPair B random = (sk, pk)"
    and "\<And>s. Deserialize LS (Serialize LS s) = Some s" and "\<And>p. Deserialize LP (Serialize LP p) = Some p"
    and "Sign B sha (Some sk) msg = Some s"
  shows "Verify B sha (PublicKey_GobDecode LP (PublicKey_GobEncode LP pk)) msg
    (Signature_GobDecode LS (Signature_GobEncode LS s))"
  using assms(3-6) sign_verify_roundtrip [OF assms(1,2), of "[sk]" sha]
  by (auto simp add: GenerateKeyPair_def Let_def Signature_GobEncode_def Signature_GobDecode_def PublicKey_GobEncode_def
      PublicKey_GobDecode_def)

section \<open>Text\<close>

abbreviation tab :: char where "tab \<equiv> CHR 0x09"

text \<open>\<open>%v\<close> of a slice: the elements between brackets, separated by blanks.\<close>

fun spaced :: "string list \<Rightarrow> string" where
  "spaced [] = []"
| "spaced [s] = s"
| "spaced (s # ss) = s @ '' '' @ spaced ss"

definition slice_text :: "string list \<Rightarrow> string" where
  "slice_text ss = ''['' @ spaced ss @ '']''"

definition bool_text :: "bool \<Rightarrow> string" where
  "bool_text b = (if b then ''true'' else ''false'')"

text \<open>One line of the longer texts: a tab, a label, a value and the newline.\<close>

definition field_line :: "string \<Rightarrow> string \<Rightarrow> string" where
  "field_line label value = tab # label @ '': '' @ value @ [newline]"

fun req_code :: "RequestType \<Rightarrow> int" where
  "req_code ReqEmpty = 0" | "req_code ReqVerifyString = 1" | "req_code ReqVerifyBlock = 2"
| "req_code ReqVerifyBlockHeader = 3" | "req_code ReqVerifyTxs = 4" | "req_code ReqVerifyInputs = 5"

definition Request_String :: "(time \<Rightarrow> string) \<Rightarrow> request \<Rightarrow> string" where
  "Request_String tf req =
     ''{'' @ [newline] @ field_line ''ShardId'' (Itoa (ShardId req)) @ field_line ''ReqType'' (Itoa (req_code (ReqType req))) @
     field_line ''ReqTime'' (tf (ReqTime req)) @ field_line ''Digest'' (EncodeToString (Digest req))"

definition Reply_String :: "(time \<Rightarrow> string) \<Rightarrow> reply \<Rightarrow> string" where
  "Reply_String tf rep =
     ''['' @ ''Time: '' @ tf (rep_Time rep) @ '', '' @ ''Sid: '' @ Itoa (rep_Sid rep) @ '', '' @
     ''ReqQueueLen: '' @ Itoa (int (ReqQueueLen rep)) @ '', '' @ ''], '' @ ''Req:'' @ Request_String tf (rep_Req rep)"

definition TxIn_String :: "(int \<times> int \<Rightarrow> string) \<Rightarrow> tx_in \<Rightarrow> string" where
  "TxIn_String ff tin =
     ''['' @ in_Addr tin @ '':'' @ ff (in_Value tin) @ ''-->'' @ EncodeToString (PrevTxId tin) @ '':'' @ Itoa (in_Index tin) @ '']''"

definition TxOut_String :: "(int \<times> int \<Rightarrow> string) \<Rightarrow> tx_out \<Rightarrow> string" where
  "TxOut_String ff tout = ''['' @ out_Addr tout @ '':'' @ ff (out_Value tout) @ '']''"

definition utxo_String :: "(int \<times> int \<Rightarrow> string) \<Rightarrow> utxo_transaction \<Rightarrow> string" where
  "utxo_String ff tx =
     ''TxId: '' @ EncodeToString (TxId tx) @ '', Vin:'' @ slice_text (map (TxIn_String ff) (Vin tx)) @
     '', Vout:'' @ slice_text (map (TxOut_String ff) (Vout tx)) @ '', IsCoinbase:'' @ bool_text (u_IsCoinbase tx)"

text \<open>The value is read through its pointer, so a transaction without one panics.\<close>

definition account_String :: "(int \<Rightarrow> string) \<Rightarrow> bigheap \<Rightarrow> account_transaction \<Rightarrow> panic + string" where
  "account_String fi h tx =
     bindP (deref h (a_Value tx)) (\<lambda>v. Inr
       (''TxId: '' @ EncodeToString (account_ID tx) @ '': ['' @ a_Sender tx @ ''-->'' @ a_Recipient tx @ '':'' @ fi v @ '']''))"

definition contract_String :: "(time \<Rightarrow> string) \<Rightarrow> contract_transaction \<Rightarrow> string" where
  "contract_String tf tx =
     ''['' @ [newline] @ field_line ''Sender'' (c_Sender tx) @ field_line ''Recipient'' (c_Recipient tx) @
     field_line ''Nounce'' (Itoa (c_Nounce tx)) @ field_line ''Time'' (tf (c_Time tx)) @
     field_line ''Code'' (EncodeToString (Code tx)) @ field_line ''RelatedContract'' (slice_text (RelatedContract tx)) @
     field_line ''IsCrossShard'' (bool_text (c_IsCrossShard tx)) @ '']''"

definition BlockHeader_String :: "(time \<Rightarrow> string) \<Rightarrow> block_header \<Rightarrow> string" where
  "BlockHeader_String tf bh =
     ''[PrevBlockHash: '' @ EncodeToString (PrevBlockHash bh) @ newline # tab # ''Nonce: '' @ Itoa (bh_Nonce bh) @
     newline # tab # ''TimeStamp: '' @ tf (TimeStamp bh) @ newline # tab # ''TxRoot: '' @ EncodeToString (TxRoot bh) @
     newline # tab # ''StateRoot: '' @ EncodeToString (StateRoot bh) @ '']''"

text \<open>\<open>fmt\<close> recovers a panic of a \<open>String\<close> method and prints it.\<close>

definition recovered :: "panic + string \<Rightarrow> string" where
  "recovered r =
     (case r of Inr s \<Rightarrow> s
      | Inl _ \<Rightarrow> ''%!v(PANIC=String method: runtime error: invalid memory address or nil pointer dereference)'')"

fun tx_text ::
  "(time \<Rightarrow> string) \<Rightarrow> (int \<times> int \<Rightarrow> string) \<Rightarrow> (int \<Rightarrow> string) \<Rightarrow> bigheap \<Rightarrow> transaction \<Rightarrow> string" where
  "tx_text tf ff fi h (UTXOTransaction t) = utxo_String ff t"
| "tx_text tf ff fi h (AccountTransaction t) = recovered (account_String fi h t)"
| "tx_text tf ff fi h (ContractTransaction t) = contract_String tf t"

definition Block_String ::
  "(time \<Rightarrow> string) \<Rightarrow> (int \<times> int \<Rightarrow> string) \<Rightarrow> (int \<Rightarrow> string) \<Rightarrow> bigheap \<Rightarrow> block \<Rightarrow> string" where
  "Block_String tf ff fi h b =
     ''Block Hash: '' @ EncodeToString (b_Hash b) @ [newline] @ ''Header: '' @ BlockHeader_String tf (Header b) @ [newline] @
     ''Transactions:'' @ [newline] @ concat (map (\<lambda>tx. tab # tx_text tf ff fi h tx @ [newline]) (Transactions b))"

lemma line_unique:
  assumes "newline \<notin> set v" and "newline \<notin> set w"
  shows "field_line l v @ s = field_line l w @ t \<longleftrightarrow> v = w \<and> s = t"
proof
  assume "field_line l v @ s = field_line l w @ t"
  then have e: "v @ newline # s = w @ newline # t" by (simp add: field_line_def)
  have "takeWhile (\<lambda>c. c \<noteq> newline) (v @ newline # s) = v" "takeWhile (\<lambda>c. c \<noteq> newline) (w @ newline # t) = w"
    using assms by (auto simp: takeWhile_tail)
  with e have "v = w" by simp
  with e show "v = w \<and> s = t" by simp
qed simp

lemma hex_no_newline: "newline \<notin> set (EncodeToString bs)"
proof -
  have "newline \<noteq> hex_digit d" if "d < 16" for d
    using that by (auto dest!: arg_cong [where f = "of_char :: char \<Rightarrow> nat"] simp: hex_digit_def)
  moreover have "of_char x div 16 < (16 :: nat)" "of_char x mod 16 < (16 :: nat)" for x :: char
    using nat_of_char_less_256 [of x] by linarith+
  ultimately have "newline \<noteq> hex_digit (of_char x div 16)" "newline \<noteq> hex_digit (of_char x mod 16)" for x :: char
    by blast+
  then show ?thesis by (simp add: EncodeToString_def)
qed

lemma req_code_inj: "req_code a = req_code b \<Longrightarrow> a = b"
  by (cases a; cases b) simp_all

text \<open>
  The text of a request has one field per line: if times print without line breaks, it tells the shard, the type, the
  text of the time and the digest.
\<close>

lemma Request_String_fields:
  assumes "\<And>t. newline \<notin> set (tf t)" and "Request_String tf r = Request_String tf r'"
  shows "ShardId r = ShardId r' \<and> ReqType r = ReqType r' \<and> tf (ReqTime r) = tf (ReqTime r') \<and> Digest r = Digest r'"
proof -
  note lines = line_unique [OF Itoa_chars(2) Itoa_chars(2)] line_unique [OF assms(1) assms(1)]
    line_unique [OF hex_no_newline hex_no_newline, where s = "[]" and t = "[]", simplified]
  from assms(2) have "Itoa (ShardId r) = Itoa (ShardId r')" "Itoa (req_code (ReqType r)) = Itoa (req_code (ReqType r'))"
    "tf (ReqTime r) = tf (ReqTime r')" "EncodeToString (Digest r) = EncodeToString (Digest r')"
    by (simp_all add: Request_String_def lines)
  then show ?thesis using Itoa_inj req_code_inj EncodeToString_inj by blast
qed

end
