(* ===== verification/Pipeline.thy ===== *)
theory Pipeline
  imports Proposers SenderRun "HOL-Library.Multiset"
begin

text \<open>
  From the sender to the blocks: the client's transaction senders (clientMod/sendMimic*.go) and the block
  proposer of a shard (consensusMod/proposeBlock.go) composed.  Injected messages arrive at the proposer in any order
  and at any point between the iterations of its loop, and the chain it builds on may be another one at each iteration.
\<close>

section \<open>Runs of the block proposer\<close>

datatype ('db, 'tdb) pipe_event =
    Arrive "nat \<Rightarrow> time" message                    \<comment> \<open>the handler runs; the clock at each transaction\<close>
  | Iterate time time "('db, 'tdb) blockchain"       \<comment> \<open>one iteration, with the node's chain at that time\<close>

fun pipe_step ::
  "('tr, 'tdb, 'ns) chain_env \<Rightarrow> (request \<Rightarrow> bytes option) \<Rightarrow> ('db, 'tdb) pipe_event \<Rightarrow> propose_block \<Rightarrow>
   panic + (propose_block \<times> action list)" where
  "pipe_step E json (Arrive now m) s = Inr (pbm_handleInject now m s, [])"
| "pipe_step E json (Iterate now now' bc) s = TryProposeBlock E json now now' bc s"

fun pipe_run ::
  "('tr, 'tdb, 'ns) chain_env \<Rightarrow> (request \<Rightarrow> bytes option) \<Rightarrow> ('db, 'tdb) pipe_event list \<Rightarrow> propose_block \<Rightarrow>
   panic + (propose_block \<times> action list)" where
  "pipe_run E json [] s = Inr (s, [])"
| "pipe_run E json (e # es) s =
     bindP (pipe_step E json e s) (\<lambda>(s', out). bindP (pipe_run E json es s') (\<lambda>(s'', out'). Inr (s'', out @ out')))"

fun arrived :: "('db, 'tdb) pipe_event list \<Rightarrow> message list" where
  "arrived [] = []"
| "arrived (Arrive now m # es) = m # arrived es"
| "arrived (Iterate _ _ _ # es) = arrived es"

definition txs_in :: "message \<Rightarrow> transaction list" where
  "txs_in m = (case decode_txs (msg_Content m) of None \<Rightarrow> [] | Some txs \<Rightarrow> txs)"

definition carried :: "message list \<Rightarrow> transaction list" where
  "carried ms = concat (map txs_in ms)"

lemma arrived_append [simp]: "arrived (es @ es') = arrived es @ arrived es'"
  by (induction es rule: arrived.induct) simp_all

text \<open>The proposal of a block, given with the time of its request.\<close>

definition block_proposal ::
  "('tr, 'tdb, 'ns) chain_env \<Rightarrow> (request \<Rightarrow> bytes option) \<Rightarrow> int \<Rightarrow> block \<times> time \<Rightarrow> action" where
  "block_proposal E json sid p =
     Local (propose_of (NewRequest (sha256 E) json (snd p) sid ReqVerifyTxs (enc_block (e_codec E) (fst p))))"

definition packed :: "(block \<times> time) list \<Rightarrow> transaction list" where
  "packed bts = concat (map (\<lambda>p. Transactions (fst p)) bts)"

definition pool_ids :: "propose_block \<Rightarrow> bytes list" where
  "pool_ids s = map ID (Txs (pbm_txPool s))"

lemma arrival_ids:
  "pool_ids (pbm_handleInject now m s) = pool_ids s @ map ID (txs_in m) \<and> pbm_Sid (pbm_handleInject now m s) = pbm_Sid s"
proof -
  have "pool_ids (s\<lparr>pbm_txPool := AddTxs now txs (pbm_txPool s)\<rparr>) = pool_ids s @ map ID txs" for txs
    using Txs_AddTxs [of now txs "pbm_txPool s"] by (auto simp: pool_ids_def)
  then show ?thesis by (auto simp: pbm_handleInject_def txs_in_def split: option.split)
qed

lemma iteration_ids:
  "\<exists>s' bts. TryProposeBlock E json now now' bc s = Inr (s', map (block_proposal E json (pbm_Sid s)) bts) \<and>
     pbm_Sid s' = pbm_Sid s \<and> pool_ids s = map ID (packed bts) @ pool_ids s' \<and>
     (\<forall>p \<in> set bts. 100 \<le> length (Transactions (fst p)) \<and> length (Transactions (fst p)) \<le> 500) \<and>
     length (pool_ids s') = (if length (pool_ids s) < 100 then length (pool_ids s) else length (pool_ids s) - 500)"
proof (cases "PoolSize (pbm_txPool s) < 100")
  case True
  then show ?thesis
    by (intro exI [of _ s] exI [of _ "[]"]) (simp add: TryProposeBlock_spec packed_def pool_ids_def PoolSize_def)
next
  case False
  let ?b = "bc_NewBlock E now (take 500 (Txs (pbm_txPool s))) bc"
  have t: "Transactions ?b = take 500 (Txs (pbm_txPool s))" by (simp add: bc_NewBlock_def NewBlock_def Let_def)
  from False show ?thesis
    by (intro exI [of _ "s\<lparr>pbm_txPool := (pbm_txPool s)\<lparr>Txs := drop 500 (Txs (pbm_txPool s))\<rparr>\<rparr>"] exI [of _ "[(?b, now')]"])
       (simp add: TryProposeBlock_spec block_proposal_def packed_def t pool_ids_def PoolSize_def Let_def flip: map_append)
qed

lemma packed_append: "packed (a @ b) = packed a @ packed b"
  by (simp add: packed_def)

lemma pipe_run_conserves:
  "\<exists>s' bts. pipe_run E json es s = Inr (s', map (block_proposal E json (pbm_Sid s)) bts) \<and> pbm_Sid s' = pbm_Sid s \<and>
     pool_ids s @ map ID (carried (arrived es)) = map ID (packed bts) @ pool_ids s' \<and>
     (\<forall>p \<in> set bts. 100 \<le> length (Transactions (fst p)) \<and> length (Transactions (fst p)) \<le> 500)"
proof (induction es arbitrary: s)
  case Nil
  show ?case by (intro exI [of _ s] exI [of _ "[]"]) (simp add: packed_def carried_def)
next
  case (Cons e es)
  obtain s1 bts1 where 1: "pipe_step E json e s = Inr (s1, map (block_proposal E json (pbm_Sid s)) bts1)"
    "pbm_Sid s1 = pbm_Sid s" "pool_ids s @ map ID (carried (arrived [e])) = map ID (packed bts1) @ pool_ids s1"
    "\<forall>p \<in> set bts1. 100 \<le> length (Transactions (fst p)) \<and> length (Transactions (fst p)) \<le> 500"
  proof (cases e)
    case (Arrive now m)
    with arrival_ids [of now m s] that [of "pbm_handleInject now m s" "[]"] show ?thesis
      by (simp add: carried_def packed_def)
  next
    case (Iterate now now' bc)
    with iteration_ids [of E json now now' bc s] that show ?thesis by (auto simp: carried_def)
  qed
  from Cons.IH [of s1] obtain s' bts where 2: "pipe_run E json es s1 = Inr (s', map (block_proposal E json (pbm_Sid s)) bts)"
    "pbm_Sid s' = pbm_Sid s" "pool_ids s1 @ map ID (carried (arrived es)) = map ID (packed bts) @ pool_ids s'"
    "\<forall>p \<in> set bts. 100 \<le> length (Transactions (fst p)) \<and> length (Transactions (fst p)) \<le> 500"
    unfolding 1(2) by blast
  have "arrived (e # es) = arrived [e] @ arrived es" by (cases e) simp_all
  then have "pool_ids s @ map ID (carried (arrived (e # es))) = map ID (packed (bts1 @ bts)) @ pool_ids s'"
    using 1(3) 2(3) by (simp add: carried_def packed_append flip: append_assoc) (simp add: append_assoc)
  with 1 2 show ?case by (intro exI [of _ s'] exI [of _ "bts1 @ bts"]) auto
qed
lemma pipe_run_append:
  "pipe_run E json (es @ es') s =
     bindP (pipe_run E json es s) (\<lambda>(s', out). bindP (pipe_run E json es' s') (\<lambda>(s'', out'). Inr (s'', out @ out')))"
proof (induction es arbitrary: s)
  case Nil
  then show ?case by (cases "pipe_run E json es' s") simp_all
next
  case (Cons e es)
  show ?case
  proof (cases "pipe_step E json e s")
    case (Inr r)
    then obtain s1 out1 where r: "pipe_step E json e s = Inr (s1, out1)" by (cases r) simp
    show ?thesis
    proof (cases "pipe_run E json es s1")
      case (Inr r')
      with r Cons.IH [of s1] show ?thesis by (cases r'; cases "pipe_run E json es' (fst r')") auto
    qed (simp add: r Cons.IH)
  qed simp
qed

text \<open>Iterations without arrivals use the pool up to fewer than 100 transactions.\<close>

lemma pipe_run_drains:
  assumes "arrived es = []" and "pipe_run E json es s = Inr (s', out)" and "length (pool_ids s) < 500 * length es + 100"
  shows "length (pool_ids s') < 100"
  using assms
proof (induction es arbitrary: s out)
  case (Cons e es)
  then obtain now now' bc where e: "e = Iterate now now' bc" by (cases e) auto
  from iteration_ids [of E json now now' bc s] obtain s1 bts where
    1: "TryProposeBlock E json now now' bc s = Inr (s1, map (block_proposal E json (pbm_Sid s)) bts)"
    "length (pool_ids s1) = (if length (pool_ids s) < 100 then length (pool_ids s) else length (pool_ids s) - 500)"
    by blast
  from Cons.prems(2) e 1(1) obtain out1 where "pipe_run E json es s1 = Inr (s', out1)"
    by (auto simp: bindP_eq_Inr_iff)
  moreover have "length (pool_ids s1) < 500 * length es + 100" using Cons.prems(3) 1(2) by auto
  moreover have "arrived es = []" using Cons.prems(1) e by simp
  ultimately show ?case using Cons.IH by blast
qed simp

section \<open>From the sender to the shard\<close>

text \<open>The transactions of all messages sent to one address.\<close>

fun sent_to :: "string \<Rightarrow> effect list \<Rightarrow> message list" where
  "sent_to ip [] = []"
| "sent_to ip (SendTo a m # es) = (if a = ip then m # sent_to ip es else sent_to ip es)"
| "sent_to ip (_ # es) = sent_to ip es"

lemma sent_to_append [simp]: "sent_to ip (es @ es') = sent_to ip es @ sent_to ip es'"
  by (induction es rule: sent_to.induct) simp_all

lemma carried_append [simp]: "carried (a @ b) = carried a @ carried b"
  by (simp add: carried_def)

text \<open>What a tick sends to the view node of a shard is the tick's transactions for that shard, in their order.\<close>

lemma tick_to_shard:
  assumes "\<forall>tx \<in> set txs. plain_tx tx" and "ConsensusMethod c \<noteq> ''CShard''" and "0 < ShardNum c" and "good_tick c t"
    and "inj_on (\<lambda>sid. ip_of c sid 0) {0..<ShardNum c}" and "sid \<in> {0..<ShardNum c}" and "send_txs c (mt_keys t) txs = Inr out"
  shows "carried (sent_to (ip_of c sid 0) out) = filter (\<lambda>tx. target_shard c tx = sid) txs"
proof -
  let ?m = "\<lambda>s. \<lparr>MsgType = MsgInject, msg_Content = PTxs (filter (\<lambda>tx. target_shard c tx = s) txs)\<rparr>"
  from mimic_txs_routed [OF assms(1-3), of "mt_keys t"] assms(4,7) obtain sids where
    s: "out = map (\<lambda>s. SendTo (ip_of c s 0) (?m s)) sids" "distinct sids" "set sids = target_shard c ` set txs"
      "set sids \<subseteq> {0..<ShardNum c}"
    by (auto simp: good_tick_def)
  have ip: "ip_of c s 0 = ip_of c sid 0 \<longleftrightarrow> s = sid" if "s \<in> {0..<ShardNum c}" for s
    using inj_onD [OF assms(5) _ that assms(6)] by blast
  have "sent_to (ip_of c sid 0) (map (\<lambda>s. SendTo (ip_of c s 0) (?m s)) ss) = map ?m (filter (\<lambda>s. s = sid) ss)"
    if "set ss \<subseteq> {0..<ShardNum c}" for ss
    using that ip by (induction ss) auto
  with s(1,4) have "sent_to (ip_of c sid 0) out = map ?m (filter (\<lambda>s. s = sid) sids)" by simp
  moreover have "filter (\<lambda>s. s = sid) sids = (if sid \<in> set sids then [sid] else [])"
    using s(2) by (induction sids) auto
  moreover have "filter (\<lambda>tx. target_shard c tx = sid) txs = []" if "sid \<notin> set sids"
    using that s(3) by (auto simp: filter_empty_conv)
  ultimately show ?thesis by (auto simp: carried_def txs_in_def)
qed

lemma ticks_to_shard:
  assumes "\<forall>t \<in> set ts. good_tick c t \<and> (\<forall>tx \<in> set (gen t). plain_tx tx)" and "ConsensusMethod c \<noteq> ''CShard''"
    and "0 < ShardNum c" and "inj_on (\<lambda>sid. ip_of c sid 0) {0..<ShardNum c}" and "sid \<in> {0..<ShardNum c}"
    and "ticker_loop (\<lambda>t. send_txs c (mt_keys t) (gen t)) (map Ticked ts @ CtxDone # es) = Inr out"
  shows "carried (sent_to (ip_of c sid 0) out) = filter (\<lambda>tx. target_shard c tx = sid) (concat (map gen ts))"
  using assms(1,6)
proof (induction ts arbitrary: out)
  case Nil
  then show ?case by (simp add: carried_def)
next
  case (Cons t ts)
  then obtain out1 out2 where o: "send_txs c (mt_keys t) (gen t) = Inr out1" "out = out1 @ out2"
    "ticker_loop (\<lambda>t. send_txs c (mt_keys t) (gen t)) (map Ticked ts @ CtxDone # es) = Inr out2"
    by (auto simp: bindP_eq_Inr_iff)
  with Cons tick_to_shard [OF _ assms(2,3) _ assms(4,5) o(1)] show ?case by simp
qed
lemma carried_mset:
  assumes "mset ms = mset ms'"
  shows "mset (carried ms) = mset (carried ms')"
proof -
  have "mset (carried xs) = sum_mset (image_mset (\<lambda>m. mset (txs_in m)) (mset xs))" for xs
    by (induction xs) (simp_all add: carried_def)
  with assms show ?thesis by simp
qed

lemma run_to_blocks:
  assumes "WaitForAllIPsReady c up clk start (10 * Second) = Some (True, k)" and "ConsensusMethod c \<noteq> ''CShard''"
    and "0 < ShardNum c" and "\<forall>t \<in> set ts. good_tick c t"
    and "inj_on (\<lambda>sid. ip_of c sid 0) {0..<ShardNum c}" and "sid \<in> {0..<ShardNum c}"
    and "run = sendMimicAccountTxs_Run sha gb gob c zero up clk start (map Ticked ts @ CtxDone # es) \<and>
        gen = account_tick sha gb gob c zero \<or>
      run = sendMimicContractTxs_Run sha gb gob' c up clk start (map Ticked ts @ CtxDone # es) \<and>
        gen = contract_tick sha gb gob' c"
    and "run = Some (Inr out)" and "mset (arrived evs) = mset (sent_to (ip_of c sid 0) out)" and "arrived later = []"
  shows "\<exists>s' bts. pipe_run E json (evs @ later) (NewProposeBlockAuxiliaryMod c sid) = Inr (s', map (block_proposal E json sid) bts) \<and>
    mset (map ID (packed bts)) + mset (pool_ids s') =
      mset (map ID (filter (\<lambda>tx. target_shard c tx = sid) (concat (map gen ts)))) \<and>
    (\<forall>p \<in> set bts. 100 \<le> length (Transactions (fst p)) \<and> length (Transactions (fst p)) \<le> 500) \<and>
    (length ts * nat (TxInjectSpeed c) < 500 * length later + 100 \<longrightarrow> length (pool_ids s') < 100)"
proof -
  let ?s = "NewProposeBlockAuxiliaryMod c sid" and ?mine = "filter (\<lambda>tx. target_shard c tx = sid) (concat (map gen ts))"
  have s: "pool_ids ?s = []" "pbm_Sid ?s = sid"
    by (simp_all add: NewProposeBlockAuxiliaryMod_def pool_ids_def NewTxPool_def)
  have gen: "\<forall>t \<in> set ts. good_tick c t \<and> (\<forall>tx \<in> set (gen t). plain_tx tx)" "length (gen t) = nat (TxInjectSpeed c)" for t
    using assms(4,7) account_tick_plain contract_tick_plain tick_lengths by (auto simp: good_tick_def)
  have "ticker_loop (\<lambda>t. send_txs c (mt_keys t) (gen t)) (map Ticked ts @ CtxDone # es) = Inr out"
    using assms(1,7,8) by (auto simp: sendMimicAccountTxs_Run_def sendMimicContractTxs_Run_def after_wait_def)
  from ticks_to_shard [OF gen(1) assms(2,3,5,6) this] carried_mset [OF assms(9)]
  have inj: "mset (carried (arrived evs)) = mset ?mine" by simp
  from pipe_run_conserves [of E json evs ?s] s obtain s1 bts1 where
    1: "pipe_run E json evs ?s = Inr (s1, map (block_proposal E json sid) bts1)" "pbm_Sid s1 = sid"
      "map ID (carried (arrived evs)) = map ID (packed bts1) @ pool_ids s1" by auto
  from pipe_run_conserves [of E json "evs @ later" ?s] s obtain s' bts where
    2: "pipe_run E json (evs @ later) ?s = Inr (s', map (block_proposal E json sid) bts)"
      "map ID (carried (arrived evs)) = map ID (packed bts) @ pool_ids s'"
      "\<forall>p \<in> set bts. 100 \<le> length (Transactions (fst p)) \<and> length (Transactions (fst p)) \<le> 500"
    by (auto simp: assms(10))
  have "mset (map ID (packed bts)) + mset (pool_ids s') = mset (map ID ?mine)"
    using arg_cong [OF 2(2), of mset] inj by simp
  moreover have "length (pool_ids s') < 100" if few: "length ts * nat (TxInjectSpeed c) < 500 * length later + 100"
  proof -
    from 1(1) 2(1) obtain out' where "pipe_run E json later s1 = Inr (s', out')"
      by (auto simp: pipe_run_append bindP_eq_Inr_iff)
    moreover have "length (pool_ids s1) \<le> length (carried (arrived evs))"
      using arg_cong [OF 1(3), of length] by simp
    moreover have "length (carried (arrived evs)) = length ?mine" using inj by (metis size_mset)
    moreover have "length ?mine \<le> length (concat (map gen ts))" by (rule length_filter_le)
    moreover have "length (concat (map gen ts)) = length ts * nat (TxInjectSpeed c)"
      using gen(2) by (induction ts) simp_all
    ultimately show ?thesis using pipe_run_drains [OF assms(10)] few by fastforce
  qed
  ultimately show ?thesis using 2(1,3) by blast
qed

text \<open>
  C15: End to end: a run of either sender that found the system up ends without a panic and has sent what its ticks
  generated.  When its messages to a shard have arrived at the shard's block proposer in any order, between any of its iterations,
  the proposer has not panicked, every generated transaction of the shard is in exactly one proposed block or still in
  the pool, blocks hold 100 to 500 of them and nothing else, and after enough further iterations fewer than 100 are left in the pool.
\<close>

theorem mimic_to_blocks:
  assumes "WaitForAllIPsReady c up clk start (10 * Second) = Some (True, k)" and "ConsensusMethod c \<noteq> ''CShard''"
    and "0 < ShardNum c" and "\<forall>t \<in> set ts. good_tick c t"
    and "inj_on (\<lambda>sid. ip_of c sid 0) {0..<ShardNum c}" and "sid \<in> {0..<ShardNum c}"
    and "run = sendMimicAccountTxs_Run sha gb gob c zero up clk start (map Ticked ts @ CtxDone # es) \<and>
        gen = account_tick sha gb gob c zero \<or>
      run = sendMimicContractTxs_Run sha gb gob' c up clk start (map Ticked ts @ CtxDone # es) \<and>
        gen = contract_tick sha gb gob' c"
  shows "\<exists>out. run = Some (Inr out) \<and> delivers c (length ts * nat (TxInjectSpeed c)) out \<and>
    (\<forall>evs later. mset (arrived evs) = mset (sent_to (ip_of c sid 0) out) \<and> arrived later = [] \<longrightarrow>
      (\<exists>s' bts. pipe_run E json (evs @ later) (NewProposeBlockAuxiliaryMod c sid) = Inr (s', map (block_proposal E json sid) bts) \<and>
        mset (map ID (packed bts)) + mset (pool_ids s') =
          mset (map ID (filter (\<lambda>tx. target_shard c tx = sid) (concat (map gen ts)))) \<and>
        (\<forall>p \<in> set bts. 100 \<le> length (Transactions (fst p)) \<and> length (Transactions (fst p)) \<le> 500) \<and>
        (length ts * nat (TxInjectSpeed c) < 500 * length later + 100 \<longrightarrow> length (pool_ids s') < 100)))"
proof -
  from mimic_run_delivers [OF assms(1-4), of sha gb gob zero es gob'] assms(7) obtain out where
    out: "run = Some (Inr out)" "delivers c (length ts * nat (TxInjectSpeed c)) out" by blast
  with run_to_blocks [OF assms(1-7) out(1)] show ?thesis by (intro exI [of _ out]) blast
qed

text \<open>One shard, one tick of 150 transactions, and one iteration after they arrived: at least 51 are proposed.\<close>

definition busy_sender :: config where
  "busy_sender = two_nodes\<lparr>TxInjectSpeed := 150\<rparr>"

definition arrive_all :: "message list \<Rightarrow> (((string \<times> bytes) \<times> bytes) list, unit) pipe_event list" where
  "arrive_all ms = map (Arrive (\<lambda>i. int i)) ms"

lemma arrived_all: "arrived (arrive_all ms) = ms"
  by (induction ms) (simp_all add: arrive_all_def)

theorem mimic_to_blocks_witness:
  "\<exists>out s' bts. sendMimicAccountTxs_Run (\<lambda>b. b) (\<lambda>b. b) (\<lambda>_. []) busy_sender None late_up second_clock 0
       [Ticked (tick_at 0), CtxDone] = Some (Inr out) \<and>
     pipe_run (example_env True example_blocks) (\<lambda>_. None)
       (arrive_all (sent_to (ip_of busy_sender 0 0) out) @ [Iterate 0 0 example_chain]) (NewProposeBlockAuxiliaryMod busy_sender 0) =
       Inr (s', map (block_proposal (example_env True example_blocks) (\<lambda>_. None) 0) bts) \<and> 51 \<le> length (packed bts)"
proof -
  let ?E = "example_env True example_blocks" and ?run = "sendMimicAccountTxs_Run (\<lambda>b. b) (\<lambda>b. b) (\<lambda>_. []) busy_sender None late_up second_clock 0"
  let ?gen = "account_tick (\<lambda>b. b) (\<lambda>b. b) (\<lambda>_. []) busy_sender None"
  have w: "WaitForAllIPsReady busy_sender late_up second_clock 0 (10 * Second) = Some (True, 4)"
    by (simp add: WaitForAllIPsReady_def busy_sender_def two_nodes_def all_ips_def ip_of_def example_config_def upto.simps
        wait_ip.simps late_up_def second_clock_def Second_def Millisecond_def)
  have c: "ConsensusMethod busy_sender \<noteq> ''CShard''" "ShardNum busy_sender = 1" "TxInjectSpeed busy_sender = 150"
    by (simp_all add: busy_sender_def two_nodes_def example_config_def)
  have good: "\<forall>t \<in> set [tick_at 0]. good_tick busy_sender t" using c(2) by (auto simp: good_tick_def tick_at_def)
  have run: "?run (map Ticked [tick_at 0] @ CtxDone # []) = ?run (map Ticked [tick_at 0] @ CtxDone # []) \<and> ?gen = ?gen \<or>
      ?run (map Ticked [tick_at 0] @ CtxDone # []) = sendMimicContractTxs_Run (\<lambda>b. b) (\<lambda>b. b) (\<lambda>_. []) busy_sender late_up second_clock 0
        (map Ticked [tick_at 0] @ CtxDone # []) \<and> ?gen = contract_tick (\<lambda>b. b) (\<lambda>b. b) (\<lambda>_. []) busy_sender"
    by simp
  have inj: "inj_on (\<lambda>sid. ip_of busy_sender sid 0) {0..<ShardNum busy_sender}" "(0 :: int) \<in> {0..<ShardNum busy_sender}"
    by (auto simp: inj_on_def c(2))
  have pos: "0 < ShardNum busy_sender" by (simp add: c(2))
  obtain out where out: "?run (map Ticked [tick_at 0] @ CtxDone # []) = Some (Inr out)" and
    all: "\<forall>(evs :: (((string \<times> bytes) \<times> bytes) list, unit) pipe_event list) later. mset (arrived evs) = mset (sent_to (ip_of busy_sender 0 0) out) \<and> arrived later = [] \<longrightarrow>
      (\<exists>s' bts. pipe_run ?E (\<lambda>_. None) (evs @ later) (NewProposeBlockAuxiliaryMod busy_sender 0) =
          Inr (s', map (block_proposal ?E (\<lambda>_. None) 0) bts) \<and>
        mset (map ID (packed bts)) + mset (pool_ids s') =
          mset (map ID (filter (\<lambda>tx. target_shard busy_sender tx = 0) (concat (map ?gen [tick_at 0])))) \<and>
        (\<forall>p \<in> set bts. 100 \<le> length (Transactions (fst p)) \<and> length (Transactions (fst p)) \<le> 500) \<and>
        (length [tick_at 0] * nat (TxInjectSpeed busy_sender) < 500 * length later + 100 \<longrightarrow> length (pool_ids s') < 100))"
    using mimic_to_blocks [OF w c(1) pos good inj run] by blast
  from all [rule_format, of "arrive_all (sent_to (ip_of busy_sender 0 0) out)" "[Iterate 0 0 example_chain]"] obtain s' bts where
    p: "pipe_run ?E (\<lambda>_. None) (arrive_all (sent_to (ip_of busy_sender 0 0) out) @ [Iterate 0 0 example_chain])
        (NewProposeBlockAuxiliaryMod busy_sender 0) = Inr (s', map (block_proposal ?E (\<lambda>_. None) 0) bts)"
      "mset (map ID (packed bts)) + mset (pool_ids s') =
        mset (map ID (filter (\<lambda>tx. target_shard busy_sender tx = 0) (concat (map ?gen [tick_at 0]))))"
      "length (pool_ids s') < 100"
    by (auto simp: arrived_all c(3))
  have "target_shard busy_sender tx = 0" for tx by (simp add: target_shard_def c(2))
  then have "length (packed bts) + length (pool_ids s') = 150"
    using arg_cong [OF p(2), of size] c(3) by (simp add: tick_lengths)
  with p(1,3) out show ?thesis by (intro exI [of _ out] exI [of _ s'] exI [of _ bts]) simp
qed

end
