(* ===== verification/MeasureRun.thy ===== *)
theory MeasureRun
  imports Measure
begin

text \<open>
  A whole run of the client's measure module (clientMod/measure.go): the result directory, the addons, the replies
  handled until the context is done, and the files written then.  Whether the directory exists or can be made and whether a file
  can be created are arguments; a file is the list of its rows before formatting.
\<close>

section \<open>The run\<close>

datatype result_file =
    TpsFile "(nat \<times> nat \<times> nat \<times> rat option) list"
  | TclFile "(rat \<times> rat) list"
  | WaitLenFile "string list \<times> string list"

definition WriteResult :: "((int \<times> nat) list \<Rightarrow> (int \<times> nat) list) \<Rightarrow> MeasureAddon \<Rightarrow> panic + result_file" where
  "WriteResult ord a =
     (case a of
        MeasureTPS s \<Rightarrow> Inr (TpsFile (tps_WriteResult s))
      | MeasureTCL s \<Rightarrow> Inr (TclFile (tcl_WriteResult s))
      | MeasureWaitLen s \<Rightarrow> Inr (WaitLenFile (wl_WriteResult ord s))
      | NilAddon \<Rightarrow> Inl NilDereference)"

fun write_all :: "((int \<times> nat) list \<Rightarrow> (int \<times> nat) list) \<Rightarrow> MeasureAddon list \<Rightarrow> panic + result_file list" where
  "write_all ord [] = Inr []"
| "write_all ord (a # as) = bindP (WriteResult ord a) (\<lambda>f. bindP (write_all ord as) (\<lambda>fs. Inr (f # fs)))"

record measure_env =
  me_dir_exists :: bool
  me_mkdir :: bool
  me_creatable :: "string \<Rightarrow> bool"
  me_start :: time
  me_decode :: "bytes \<Rightarrow> block option"
  me_order :: "(int \<times> nat) list \<Rightarrow> (int \<times> nat) list"

text \<open>
  \<open>Run\<close> with the replies \<open>ms\<close> that arrive after its addons are in place and before the end of the
  context; after an early return nothing is written, and the handler goes on with the addons there are.
\<close>

definition measure_Run :: "config \<Rightarrow> measure_env \<Rightarrow> string list \<Rightarrow> (time \<times> message) list \<Rightarrow> panic + result_file list" where
  "measure_Run c e methods ms =
     (if \<not> me_dir_exists e \<and> \<not> me_mkdir e then Inr []
      else case add_addons c (me_creatable e) (me_start e) methods [] of
        (addons, ok) \<Rightarrow>
          bindP (handle_replies (me_decode e) ms addons) (\<lambda>addons'.
            if ok then write_all (me_order e) addons' else Inr []))"

section \<open>What the files hold\<close>

fun replies_of :: "(time \<times> message) list \<Rightarrow> reply list" where
  "replies_of [] = []"
| "replies_of ((now, m) # ms) =
     (case decode_reply (msg_Content m) of None \<Rightarrow> replies_of ms | Some rep \<Rightarrow> rep # replies_of ms)"

definition latency :: "reply \<Rightarrow> rat" where
  "latency r = of_int (rep_Time r - ReqTime (rep_Req r)) / of_int Second"

definition mean :: "rat list \<Rightarrow> rat" where
  "mean xs = sum_list xs / of_nat (length xs)"

text \<open>The last queue length a shard reported.\<close>

definition last_len :: "int \<Rightarrow> reply list \<Rightarrow> nat option" where
  "last_len sid rs = map_option ReqQueueLen (find (\<lambda>r. rep_Sid r = sid) (rev rs))"

lemma avg_loop_eq: "avg_loop n avg ls = avg + sum_list (map (\<lambda>l. of_int l / of_int Second) ls) / of_nat n"
  by (induction ls arbitrary: avg) (simp_all add: add_divide_distrib)

lemma tcl_rows:
  assumes "tcl_latencys t = map (\<lambda>r. rep_Time r - ReqTime (rep_Req r)) rs"
  shows "tcl_WriteResult t = map (\<lambda>r. (latency r, mean (map latency rs))) rs"
  using assms by (simp add: tcl_WriteResult_def avg_loop_eq latency_def [abs_def] mean_def Let_def o_def)

abbreviation wl_all :: "reply list \<Rightarrow> wait_len \<Rightarrow> wait_len" where
  "wl_all rs w \<equiv> fold wl_UpdateRecord rs w"

lemma wl_all_spec:
  "map_of (WaitLen (wl_all rs NewMeasureAddonWaitLen)) sid = last_len sid rs \<and>
   distinct (map fst (WaitLen (wl_all rs NewMeasureAddonWaitLen)))"
proof (induction rs rule: rev_induct)
  case Nil
  then show ?case by (simp add: NewMeasureAddonWaitLen_def last_len_def)
next
  case (snoc r rs)
  then show ?case by (simp add: wl_UpdateRecord_def last_len_def update_conv distinct_update)
qed

lemma Itoa_eq [simp]: "Itoa m = Itoa n \<longleftrightarrow> m = n"
  using Itoa_inj by blast

lemma zip_columns: "zip (map f xs) (map g xs) = map (\<lambda>x. (f x, g x)) xs"
  by (induction xs) simp_all

lemma handle_three:
  assumes "\<forall>now \<in> fst ` set ms. tps_startTime s \<le> now"
  shows "\<exists>s'. handle_replies decode ms [MeasureTPS s] = Inr [MeasureTPS s'] \<and>
    handle_replies decode ms [MeasureTPS s, MeasureTCL t, MeasureWaitLen w] =
      Inr [MeasureTPS s', MeasureTCL (t\<lparr>tcl_latencys := tcl_latencys t @ map (\<lambda>r. rep_Time r - ReqTime (rep_Req r)) (replies_of ms)\<rparr>),
        MeasureWaitLen (wl_all (replies_of ms) w)]"
  using assms
proof (induction ms arbitrary: s t w)
  case (Cons x ms)
  obtain now m where x: "x = (now, m)" by (cases x)
  show ?case
  proof (cases "decode_reply (msg_Content m)")
    case None
    with Cons x show ?thesis by (simp add: HandleReply_def)
  next
    case (Some rep)
    from tps_update_entry [of s now decode rep] Cons.prems x obtain s1 where
      s1: "tps_UpdateRecord decode now rep s = Inr s1" "tps_startTime s1 = tps_startTime s" by auto
    with Cons.prems have "\<forall>now \<in> fst ` set ms. tps_startTime s1 \<le> now" by simp
    from Cons.IH [OF this, of "tcl_UpdateRecord rep t" "wl_UpdateRecord rep w"] s1(1) x Some show ?thesis
      by (simp add: HandleReply_def UpdateRecord_def tcl_UpdateRecord_def)
  qed
qed simp

definition three_env :: measure_env where
  "three_env = \<lparr>me_dir_exists = False, me_mkdir = True, me_creatable = (\<lambda>f. True), me_start = 0, me_decode = three_txs,
     me_order = rev\<rparr>"


end
