(* ===== verification/Spec2Isabelle.thy ===== *)
theory Spec2Isabelle
  imports TxPool RFC PBFT_Run PBFT_Log DS_Shard TBB_Shard Lifecycle Logging ViewNode Encoding Pipeline MeasureRun
begin

text \<open>
  Verification library of the blockchain simulator, a Go program that runs sharded blockchains on
  one machine or several: one process per node, one client process that drives and measures them.

  \<^bold>\<open>The program.\<close>  \<open>main.go\<close> reads the configuration, looks up the protocol of the given method (\<open>protocols.go\<close>) and
  starts a node with the running modules of its role: view node, other node or client.  A module
  registers handlers for message types in the network module; every message that arrives starts a
  goroutine with its handler.  A proposer module on the view node takes injected transactions or
  strings and calls the consensus module directly; the consensus modules of a shard exchange
  messages, and with PBFT an addon checks and commits blocks to the node's chain, which keeps blocks in a
  key-value store and account states in a trie.  Clients inject work, query results and measure.

  \<^bold>\<open>Conventions\<close> (theory Prelude).  Strings and byte slices are lists of 8-bit characters, times and durations are integers of
  nanoseconds, a panic is the \<open>Inl\<close> of a sum, Go's truncating division is \<open>sdiv\<close>, maps whose iteration order
  matters take the order as a parameter.  Mutexes make operations atomic; where the code releases a
  mutex between two steps, the model has two steps.  Counts, identifiers and ports are unbounded integers;
  the shard function, whose result depends on the width, keeps the wrapped byte arithmetic.

  \<^bold>\<open>Theories and the code they model.\<close>
  \<^item> Containers: \<open>utils/set.go\<close>, \<open>queue.go\<close>, \<open>atomic.go\<close>.  The queue refines a first-in first-out list through the locale of queues.
  \<^item> Structs, TxPool: \<open>structs/\<close>: transactions, blocks, account and contract states, the transaction pool.
  \<^item> Galois, Galois_Field, RFC: \<open>addon/coding/\<close>: the tables, and that the table-driven operations are the
    operations of the field of 256 elements; the linear encoder.
  \<^item> GoFloat, Config: \<open>float64\<close> rounding as far as the thresholds need it; \<open>config/\<close>, the address table, the fault thresholds.
  \<^item> Shard: \<open>utils/shard.go\<close>.  Message: \<open>message/\<close> and \<open>signature/\<close>; the BLS library is the record \<open>bls\<close>, its documented laws
    are named hypotheses with an instance.
  \<^item> Storage, Blockchain: \<open>storage/storage.go\<close>, \<open>blockchain/\<close>; bolt and the trie are records of operations with their
    documented laws, and each has an instance.
  \<^item> PBFT, PBFT_Run, PBFT_Quorum: \<open>consensusMod/pbft/\<close>: the handlers as functions; the goroutines as a step relation whose
    steps are the critical sections, with the loop of the view node; the thresholds.
  \<^item> ShardNet, PBFT_Shard, DS_Shard: the nodes of one shard with the messages in flight between them, as \<open>Broadcast\<close> and
    \<open>handleConnection\<close> of \<open>node/p2p/\<close> connect them.  Any message in flight may be delivered next, to a handler that runs to its
    end; the interleaving of handlers inside a node is the subject of PBFT_Run.
  \<^item> PBFT_Log: the same shard over many rounds, with the loop of the view node (\<open>Run\<close>) and requests that arrive at any time.
  \<^item> DBB_Shard, TBB_Shard: the fast path as an abstract machine that the 1-Delta-BB* module and the TBB node refine, and the
    nodes of a shard linked by their votes.
  \<^item> Rounds, DolevStrong, DeltaBB, TBB: \<open>consensusMod/ds/\<close> and \<open>consensusMod/tbb/\<close>.  A sleeping goroutine is an entry of a
    list of timers; TBB is the composition of the other two with its commit points, its channel and the
    goroutines that listen on it.
  \<^item> Network: \<open>node/p2p/\<close>: handler table, connection pools, start-up waits.
  \<^item> Codecs, Wire, Encoding: base64 and hexadecimal texts; the JSON text of a message with the newline that ends it and the reader of a
    connection, which refine the message level of Network; \<open>utils/encode.go\<close>, the serialisation of keys and signatures, the \<open>String\<close> methods.
  \<^item> Proposers, ViewNode: \<open>consensusMod/propose*.go\<close>; the string proposer composed with a consensus module through the locale
    of modules that run rounds, interpreted for Dolev-Strong and for TBB.
  \<^item> Senders, SenderRun, Clients, Measure: \<open>clientMod/\<close>: starting, stopping, sending, the terminal commands, the runs of the
    senders from the wait for the system to the stop; the query modules; the measurement addons.
  \<^item> MeasureRun: a run of the measure module with its result files.  Pipeline: a run of a sender composed with the block proposer of a shard.
  \<^item> System, Lifecycle: the module registry, \<open>node/node.go\<close>, \<open>nodeattr/\<close>, \<open>protocols.go\<close>, the defaults and the choice of the role in \<open>main.go\<close>;
    a process from the start of its modules to its end, with the stop message and signals.
  \<^item> Logging: \<open>utils/logger.go\<close>, \<open>remoteLogger.go\<close>.

  \<^bold>\<open>What the lemmas show.\<close>
  \<^item> Safety of the consensus modules: PBFT quorums under every interleaving of goroutines, agreement of
    certificates and of TBB commits, the commit rule of Dolev-Strong, votes cast once.
  \<^item> Refinement: the interleaved critical sections of PBFT compose to the sequential handlers; a TBB node implements 1-Delta-BB*; the
    queue implements a list.
  \<^item> The chain: blocks proposed and committed in turn form a chain that is read back, also after a restart.
  \<^item> Shards under every order of delivery: an honest PBFT shard of three or more nodes commits a request everywhere,
    exactly once and certified by enough other nodes, and over many rounds its nodes commit the same requests, the view node in the order of
    the proposals, though the other nodes may commit them in another order; the honest nodes of a Dolev-Strong shard extract exactly the values proposed to them
    and agree, whatever the view node proposes; the nodes of a TBB shard with an honest view node commit its value
    at commit point 1, and the aggressive client confirms it, unless an own vote completes a quorum, and that exception is exact;
    with two nodes PBFT can stall.
  \<^item> Composition: rounds of the string proposer exclude each other under Dolev-Strong; the client of a shard obtains the committed
    value; a process has the modules and handlers of its role; a cancelled process ends under every
    scheduling, and the client's stop messages reach every node.
  \<^item> From end to end: what the client generates for a shard is in the blocks of the shard's proposer, each transaction once; a connection,
    cut after any byte, delivers exactly the messages that came through; the result files hold what was replied.
  \<^item> Functions: Galois arithmetic, encoding, sharding, addresses, transaction routing, throughput figures.
  \<^item> Termination and liveness: waits end within a bounded number of probes; the polling loop of Dolev-Strong ends at once or
    never; an honest shard completes a request, and all proposed requests.
  \<^item> Defects, each proved on the model: replicas that commit in different orders, a double commit and a lost notification in PBFT, forged
    certificates, overlapping rounds of TBB, forks of unfinished proposals, leaked connections, a nil handler when
    the view node is not node 0, panics of account execution.

  \<^bold>\<open>Bounds and fuel.\<close>  The sequential composition of a PBFT handler runs at most seven critical sections; the proof shows that seven steps
  reach the end of every handler.  A round of PBFT among \<open>n\<close> nodes ends after at most \<open>n + 2n(n - 1)\<close> deliveries, \<open>K\<close> rounds after \<open>K\<close> times as many.  The rounds of Dolev-Strong are
  synchronous: that honest nodes handle their proposals in round 0 is the hypothesis \<open>timely\<close>.  Loops that may not end (the round wait, the wait for a port) are partial functions whose value \<open>None\<close>
  is not returning; that they return, when they do, is proved.  The exponent of \<open>Exp\<close> and the node count are bounded where
  the arithmetic of the code needs it, and the bound is a hypothesis of the theorem.

  \<^bold>\<open>Not modelled.\<close>  The byte format of gob (payloads are a datatype, block encodings a parameter with a round-trip law), JSON texts other than
  those the program sends, and CSV formatting; sockets, processes and the terminal (inputs and outputs); the BLS library, bolt and the Merkle
  trie (records of operations with laws); random numbers (streams); the flag parser; the texts of log lines; tests.  \<open>hotstuff\<close>, \<open>vm\<close>,
  \<open>utxo_set.go\<close>, \<open>syncPubKeys.go\<close> and \<open>connectionPool.go\<close> hold no code, so nothing of them can be modelled.
\<close>

end
